(* ===== verification/Prelude.thy ===== *)
theory Prelude
  imports Main "HOL-Library.Word" "HOL-Library.Multiset"
begin

text \<open>
  Shared vocabulary of the development: the machine types of the Rust sources, the checked and
  saturating conversions of the standard library the crates use, decimal printing and parsing of
  \<open>u64\<close> (\<open>to_string\<close>, \<open>str::parse\<close>), ASCII upper-casing, and the result/state
  combinators every fallible operation is written with, together with a small Hoare logic whose
  rules are collected in \<open>wp\<close>.
\<close>

named_theorems wp
  \<open>Hoare rules of the result/state combinators and of the database statements.\<close>

named_theorems model_defs
  \<open>Definitions of pure helpers that component proofs unfold.\<close>

section \<open>Machine types\<close>

type_synonym u8 = "8 word"
type_synonym u64 = "64 word"
type_synonym bytes = "u8 list"

text \<open>\<open>i64\<close>, \<open>i16\<close> and \<open>BIGINT\<close> values are \<open>int\<close> with their range written out.\<close>

abbreviation i64_max :: int where "i64_max \<equiv> 9223372036854775807"
abbreviation i64_min :: int where "i64_min \<equiv> -9223372036854775808"

definition is_i64 :: "int \<Rightarrow> bool" where
  "is_i64 i \<longleftrightarrow> i64_min \<le> i \<and> i \<le> i64_max"

text \<open>\<open>i64::try_from(u64)\<close> and \<open>u64::try_from(i64)\<close>.\<close>

definition i64_try_from :: "u64 \<Rightarrow> int option" where
  "i64_try_from v = (if uint v \<le> i64_max then Some (uint v) else None)"

definition u64_try_from :: "int \<Rightarrow> u64 option" where
  "u64_try_from i = (if 0 \<le> i then Some (word_of_int i) else None)"

text \<open>\<open>u64::saturating_add\<close> and \<open>u64::MAX\<close>.\<close>

definition u64_saturating_add :: "u64 \<Rightarrow> u64 \<Rightarrow> u64" where
  "u64_saturating_add a b = (if uint a + uint b < 2 ^ 64 then a + b else - 1)"

lemma i64_try_from_Some [simp]:
  "i64_try_from v = Some i \<longleftrightarrow> i = uint v \<and> uint v \<le> i64_max"
  by (auto simp: i64_try_from_def)

lemma u64_try_from_Some [simp]:
  "u64_try_from i = Some v \<longleftrightarrow> 0 \<le> i \<and> v = word_of_int i"
  by (auto simp: u64_try_from_def)

lemma u64_i64_round_trip:
  "i64_try_from v = Some i \<Longrightarrow> u64_try_from i = Some v"
  by auto

lemma i64_u64_round_trip:
  assumes "is_i64 i" and "u64_try_from i = Some v"
  shows "i64_try_from v = Some i"
proof -
  from assms have "0 \<le> i" "i \<le> i64_max" "v = word_of_int i" by (auto simp: is_i64_def)
  then show ?thesis by (simp add: uint_word_of_int)
qed

lemma uint_saturating_add:
  "uint (u64_saturating_add a b) = min (uint a + uint b) (2 ^ 64 - 1)"
proof -
  have "uint (- 1 :: u64) = 2 ^ 64 - 1" by (simp add: uint_word_ariths)
  moreover have "0 \<le> uint a + uint b" by simp
  ultimately show ?thesis
    by (auto simp: u64_saturating_add_def uint_word_ariths min_def)
qed

lemma word_lt_int: "(a :: u64) < b \<longleftrightarrow> uint a < uint b"
  by (rule word_less_def)

section \<open>Strings\<close>

text \<open>
  A Rust \<open>String\<close> is its UTF-8 byte sequence; HOL's \<open>char\<close> is one byte, so \<open>string\<close>
  carries exactly those bytes and \<open>str_bytes\<close> is \<open>as_bytes\<close>.
\<close>

definition str_bytes :: "string \<Rightarrow> bytes" where
  "str_bytes s = map (\<lambda>c. word_of_nat (of_char c)) s"

lemma char_byte_inject: "(word_of_nat (of_char x) :: u8) = word_of_nat (of_char y) \<longleftrightarrow> x = y"
proof -
  have "of_char c < (256::nat)" for c :: char by simp
  then have "unat (word_of_nat (of_char c) :: u8) = of_char c" for c :: char
    by (simp add: unat_of_nat)
  then show ?thesis by (metis of_char_eq_iff)
qed

lemma str_bytes_inject [simp]: "str_bytes s = str_bytes t \<longleftrightarrow> s = t"
  unfolding str_bytes_def by (rule inj_map_eq_map) (simp add: inj_def char_byte_inject)

text \<open>\<open>str::to_ascii_uppercase\<close>.\<close>

definition ascii_upper :: "char \<Rightarrow> char" where
  "ascii_upper c =
     (let n = of_char c :: nat in if 97 \<le> n \<and> n \<le> 122 then char_of (n - 32) else c)"

definition to_ascii_uppercase :: "string \<Rightarrow> string" where
  "to_ascii_uppercase s = map ascii_upper s"

text \<open>
  \<open>str::trim\<close>: the UTF-8 encodings of the characters with the property White_Space, dropped from
  both ends. An encoding starts with a lead byte, so a match at the end is a whole character.
\<close>

definition whitespace :: "string list" where
  "whitespace =
     map (map char_of)
       ([[9], [10], [11], [12], [13], [32], [194, 133], [194, 160], [225, 154, 128]] @
        map (\<lambda>i. [226, 128, i]) [128 ..< 139] @
        [[226, 128, 168], [226, 128, 169], [226, 128, 175], [226, 129, 159], [227, 128, 128 :: nat]])"

definition starts_with :: "string \<Rightarrow> string \<Rightarrow> bool" where
  "starts_with w s \<longleftrightarrow> take (length w) s = w"

function strip_any :: "string list \<Rightarrow> string \<Rightarrow> string" where
  "strip_any ws s =
     (case find (\<lambda>w. w \<noteq> [] \<and> starts_with w s) ws of
        None \<Rightarrow> s
      | Some w \<Rightarrow> strip_any ws (drop (length w) s))"
  by auto
termination
proof (relation "measure (\<lambda>(ws, s). length s)")
  fix ws :: "string list" and s w
  assume "find (\<lambda>w. w \<noteq> [] \<and> starts_with w s) ws = Some w"
  then have "w \<noteq> []" "take (length w) s = w" by (auto simp: find_Some_iff starts_with_def)
  then show "((ws, drop (length w) s), (ws, s)) \<in> measure (\<lambda>(ws, s). length s)"
    by (cases s) auto
qed simp

declare strip_any.simps [simp del]

definition str_trim :: "string \<Rightarrow> string" where
  "str_trim s = rev (strip_any (map rev whitespace) (rev (strip_any whitespace s)))"

lemma strip_any_id:
  assumes "\<And>w. w \<in> set ws \<Longrightarrow> w \<noteq> [] \<Longrightarrow> \<not> set w \<subseteq> set s"
  shows "strip_any ws s = s"
proof -
  have "find (\<lambda>w. w \<noteq> [] \<and> starts_with w s) ws = None"
    unfolding find_None_iff starts_with_def using assms by (metis set_take_subset)
  then show ?thesis by (subst strip_any.simps) simp
qed

lemma str_trim_id:
  assumes "\<And>w c. w \<in> set whitespace \<Longrightarrow> c \<in> set w \<Longrightarrow> c \<notin> set s"
  shows "str_trim s = s"
proof -
  have "\<not> set w \<subseteq> set s" if "w \<in> set whitespace" "w \<noteq> []" for w
    using assms [OF that(1), of "hd w"] that(2) list.set_sel(1) by blast
  then have "strip_any whitespace s = s" "strip_any (map rev whitespace) (rev s) = rev s"
    by (intro strip_any_id; auto)+
  then show ?thesis by (simp add: str_trim_def)
qed

text \<open>Decimal digits, \<open>u64::to_string\<close> and \<open>str::parse::<u64>\<close>.\<close>

definition digit_char :: "nat \<Rightarrow> char" where
  "digit_char d = char_of (48 + d)"

definition digit_value :: "char \<Rightarrow> nat option" where
  "digit_value c =
     (let n = of_char c :: nat in if 48 \<le> n \<and> n \<le> 57 then Some (n - 48) else None)"

fun nat_to_dec :: "nat \<Rightarrow> string" where
  "nat_to_dec n =
     (if n < 10 then [digit_char n] else nat_to_dec (n div 10) @ [digit_char (n mod 10)])"

declare nat_to_dec.simps [simp del]

definition u64_to_string :: "u64 \<Rightarrow> string" where
  "u64_to_string v = nat_to_dec (unat v)"

definition int_to_string :: "int \<Rightarrow> string" where
  "int_to_string i = (if i < 0 then ''-'' @ nat_to_dec (nat (- i)) else nat_to_dec (nat i))"

text \<open>
  The standard parser: an optional leading \<open>+\<close>, then at least one digit, every intermediate
  value within \<open>u64\<close>.
\<close>

fun parse_digits :: "nat \<Rightarrow> string \<Rightarrow> nat option" where
  "parse_digits acc [] = Some acc"
| "parse_digits acc (c # cs) =
     (case digit_value c of
        None \<Rightarrow> None
      | Some d \<Rightarrow>
          if acc * 10 + d < 2 ^ 64 then parse_digits (acc * 10 + d) cs else None)"

definition parse_u64 :: "string \<Rightarrow> u64 option" where
  "parse_u64 s =
     (let ds = (case s of [] \<Rightarrow> [] | c # cs \<Rightarrow> if c = CHR ''+'' then cs else s)
      in if ds = [] then None else map_option of_nat (parse_digits 0 ds))"

lemma digit_value_digit_char [simp]: "d < 10 \<Longrightarrow> digit_value (digit_char d) = Some d"
  by (simp add: digit_value_def digit_char_def of_char_of Let_def)

lemma parse_digits_append:
  "parse_digits acc (xs @ ys) = Option.bind (parse_digits acc xs) (\<lambda>a. parse_digits a ys)"
  by (induction xs arbitrary: acc) (auto split: option.splits)

lemma parse_digits_dec: "n < 2 ^ 64 \<Longrightarrow> parse_digits 0 (nat_to_dec n) = Some n"
proof (induction n rule: nat_to_dec.induct)
  case (1 n)
  show ?case
  proof (cases "n < 10")
    case True
    then show ?thesis by (simp add: nat_to_dec.simps [of n])
  next
    case False
    with "1" have "parse_digits 0 (nat_to_dec (n div 10)) = Some (n div 10)" by simp
    moreover have "n div 10 * 10 + n mod 10 = n" by simp
    ultimately show ?thesis using False "1.prems"
      by (simp add: nat_to_dec.simps [of n] parse_digits_append)
  qed
qed

lemma nat_to_dec_nonempty [simp]: "nat_to_dec n \<noteq> []"
  by (subst nat_to_dec.simps) simp

lemma digit_char_of_char: "d < 10 \<Longrightarrow> (of_char (digit_char d) :: nat) = 48 + d"
  by (simp add: digit_char_def)

lemma nat_to_dec_digits: "c \<in> set (nat_to_dec n) \<Longrightarrow> (of_char c :: nat) \<in> {48..57}"
proof (induction n rule: nat_to_dec.induct)
  case (1 n)
  have "(of_char (digit_char (n mod 10)) :: nat) = 48 + n mod 10"
    by (rule digit_char_of_char) simp
  with "1" show ?case
    by (cases "n < 10") (auto simp: nat_to_dec.simps [of n] digit_char_of_char)
qed

lemma nat_to_dec_no_plus: "CHR ''+'' \<notin> set (nat_to_dec n)"
  using nat_to_dec_digits [of "CHR ''+''" n] by auto

lemma nat_to_dec_no_bar: "CHR ''|'' \<notin> set (nat_to_dec n)"
  using nat_to_dec_digits [of "CHR ''|''" n] by auto

lemma parse_u64_to_string [simp]: "parse_u64 (u64_to_string v) = Some v"
proof -
  have "unat v < 2 ^ LENGTH(64)" by (rule unsigned_less)
  then have "unat v < 2 ^ 64" by simp
  then have dig: "parse_digits 0 (nat_to_dec (unat v)) = Some (unat v)" by (rule parse_digits_dec)
  obtain c cs where s: "nat_to_dec (unat v) = c # cs"
    by (cases "nat_to_dec (unat v)") auto
  with nat_to_dec_no_plus [of "unat v"] have "c \<noteq> CHR ''+''" by auto
  with s dig show ?thesis by (simp add: parse_u64_def u64_to_string_def)
qed

lemma u64_to_string_inject [simp]: "u64_to_string v = u64_to_string w \<longleftrightarrow> v = w"
  by (metis option.inject parse_u64_to_string)

lemma u64_to_string_nonempty [simp]: "u64_to_string v \<noteq> []"
  by (simp add: u64_to_string_def)

text \<open>The formatter \<open>{:02x}\<close>: two lowercase hex digits per byte.\<close>

definition hex_digit :: "nat \<Rightarrow> char" where
  "hex_digit n = (if n < 10 then char_of (48 + n) else char_of (87 + n))"

definition hex02 :: "u8 \<Rightarrow> string" where
  "hex02 b = [hex_digit (unat b div 16), hex_digit (unat b mod 16)]"

definition hex_lower :: "bytes \<Rightarrow> string" where
  "hex_lower bs = concat (map hex02 bs)"

section \<open>Operations: results over a state\<close>

text \<open>
  An operation takes the state and returns a result together with the new state; \<open>Inl\<close> is the
  error a Rust function returns, \<open>Inr\<close> its value. \<open>bind_op\<close> is the \<open>?\<close> operator followed by
  the rest of the function; \<open>catch_op\<close> is \<open>if let Err(e) = ...\<close>.
\<close>

type_synonym ('s, 'e, 'a) op = "'s \<Rightarrow> ('e + 'a) \<times> 's"

definition ret :: "'a \<Rightarrow> ('s, 'e, 'a) op" where
  "ret a s = (Inr a, s)"

definition fail :: "'e \<Rightarrow> ('s, 'e, 'a) op" where
  "fail e s = (Inl e, s)"

definition of_result :: "'e + 'a \<Rightarrow> ('s, 'e, 'a) op" where
  "of_result r s = (r, s)"

definition bind_op :: "('s, 'e, 'a) op \<Rightarrow> ('a \<Rightarrow> ('s, 'e, 'b) op) \<Rightarrow> ('s, 'e, 'b) op" where
  "bind_op m f s = (case m s of (Inl e, s') \<Rightarrow> (Inl e, s') | (Inr a, s') \<Rightarrow> f a s')"

definition catch_op :: "('s, 'e, 'a) op \<Rightarrow> ('e \<Rightarrow> ('s, 'f, 'b) op) \<Rightarrow> ('a \<Rightarrow> ('s, 'f, 'b) op)
    \<Rightarrow> ('s, 'f, 'b) op" where
  "catch_op m h f s = (case m s of (Inl e, s') \<Rightarrow> h e s' | (Inr a, s') \<Rightarrow> f a s')"

text \<open>\<open>map_err\<close> on the result of an operation.\<close>

definition map_err_op :: "('e \<Rightarrow> 'f) \<Rightarrow> ('s, 'e, 'a) op \<Rightarrow> ('s, 'f, 'a) op" where
  "map_err_op g m = catch_op m (\<lambda>e. fail (g e)) ret"

text \<open>Pure results: \<open>?\<close> and \<open>map_err\<close> on \<open>Result\<close> values.\<close>

definition bind_result :: "'e + 'a \<Rightarrow> ('a \<Rightarrow> 'e + 'b) \<Rightarrow> 'e + 'b" where
  "bind_result r f = (case r of Inl e \<Rightarrow> Inl e | Inr a \<Rightarrow> f a)"

definition map_err :: "('e \<Rightarrow> 'f) \<Rightarrow> 'e + 'a \<Rightarrow> 'f + 'a" where
  "map_err g r = (case r of Inl e \<Rightarrow> Inl (g e) | Inr a \<Rightarrow> Inr a)"

definition ok_or :: "'e \<Rightarrow> 'a option \<Rightarrow> 'e + 'a" where
  "ok_or e x = (case x of None \<Rightarrow> Inl e | Some a \<Rightarrow> Inr a)"

lemma op_simps [simp]:
  "ret a s = (Inr a, s)"
  "fail e s = (Inl e, s)"
  "of_result r s = (r, s)"
  by (simp_all add: ret_def fail_def of_result_def)

lemma result_simps [simp]:
  "bind_result (Inl e) f = Inl e" "bind_result (Inr a) f = f a"
  "map_err g (Inl e) = Inl (g e)" "map_err g (Inr a) = Inr a"
  "ok_or e None = Inl e" "ok_or e (Some a) = Inr a"
  by (simp_all add: bind_result_def map_err_def ok_or_def)

lemma map_err_eq [simp]:
  "map_err g r = Inr a \<longleftrightarrow> r = Inr a"
  "map_err g r = Inl f \<longleftrightarrow> (\<exists>e. r = Inl e \<and> f = g e)"
  by (auto simp: map_err_def split: sum.splits)

lemma ok_or_eq [simp]:
  "ok_or e x = Inr a \<longleftrightarrow> x = Some a"
  "ok_or e x = Inl f \<longleftrightarrow> x = None \<and> f = e"
  by (auto simp: ok_or_def split: option.splits)

lemma bind_result_Inr: "bind_result r f = Inr b \<longleftrightarrow> (\<exists>a. r = Inr a \<and> f a = Inr b)"
  by (cases r) auto

lemma bind_op_Inr: "bind_op m f s = (Inr b, s') \<longleftrightarrow>
    (\<exists>a s1. m s = (Inr a, s1) \<and> f a s1 = (Inr b, s'))"
  by (auto simp: bind_op_def split: prod.splits sum.splits)

lemma bind_op_Inl: "bind_op m f s = (Inl e, s') \<longleftrightarrow>
    m s = (Inl e, s') \<or> (\<exists>a s1. m s = (Inr a, s1) \<and> f a s1 = (Inl e, s'))"
  by (auto simp: bind_op_def split: prod.splits sum.splits)

lemma bind_op_step [simp]:
  "m s = (Inr a, s') \<Longrightarrow> bind_op m f s = f a s'"
  "m s = (Inl e, s') \<Longrightarrow> bind_op m f s = (Inl e, s')"
  by (simp_all add: bind_op_def)

lemma catch_op_step [simp]:
  "m s = (Inr a, s') \<Longrightarrow> catch_op m h f s = f a s'"
  "m s = (Inl e, s') \<Longrightarrow> catch_op m h f s = h e s'"
  by (simp_all add: catch_op_def)

lemma bind_op_assoc: "bind_op (bind_op m f) g = bind_op m (\<lambda>a. bind_op (f a) g)"
  by (auto simp: fun_eq_iff bind_op_def split: prod.split sum.split)

lemma bind_op_unit: "bind_op (ret a) f = f a" "bind_op (fail e) f = fail e"
  by (simp_all add: fun_eq_iff bind_op_def)

lemma map_err_op_eq:
  "map_err_op g m s = (Inr a, s') \<longleftrightarrow> m s = (Inr a, s')"
  "map_err_op g m s = (Inl f, s') \<longleftrightarrow> (\<exists>e. m s = (Inl e, s') \<and> f = g e)"
  by (auto simp: map_err_op_def catch_op_def split: prod.splits sum.splits)

section \<open>Hoare triples over operations\<close>

definition hoare :: "('s \<Rightarrow> bool) \<Rightarrow> ('s, 'e, 'a) op \<Rightarrow> ('a \<Rightarrow> 's \<Rightarrow> bool) \<Rightarrow> ('e \<Rightarrow> 's \<Rightarrow> bool) \<Rightarrow> bool"
  where
  "hoare P m Q E \<longleftrightarrow>
     (\<forall>s. P s \<longrightarrow> (case m s of (Inl e, s') \<Rightarrow> E e s' | (Inr a, s') \<Rightarrow> Q a s'))"

text \<open>\<open>keeps I m\<close>: the operation keeps \<open>I\<close> whether it succeeds or fails.\<close>

definition keeps :: "('s \<Rightarrow> bool) \<Rightarrow> ('s, 'e, 'a) op \<Rightarrow> bool" where
  "keeps I m \<longleftrightarrow> (\<forall>s. I s \<longrightarrow> I (snd (m s)))"

lemma hoareI:
  assumes "\<And>s a s'. P s \<Longrightarrow> m s = (Inr a, s') \<Longrightarrow> Q a s'"
    and "\<And>s e s'. P s \<Longrightarrow> m s = (Inl e, s') \<Longrightarrow> E e s'"
  shows "hoare P m Q E"
  using assms by (auto simp: hoare_def split: prod.splits sum.splits)

lemma hoare_Inr: "hoare P m Q E \<Longrightarrow> P s \<Longrightarrow> m s = (Inr a, s') \<Longrightarrow> Q a s'"
  by (auto simp: hoare_def)

lemma hoare_Inl: "hoare P m Q E \<Longrightarrow> P s \<Longrightarrow> m s = (Inl e, s') \<Longrightarrow> E e s'"
  by (auto simp: hoare_def)

lemma hoare_weaken:
  assumes "hoare P' m Q' E'" and "\<And>s. P s \<Longrightarrow> P' s"
    and "\<And>a s. Q' a s \<Longrightarrow> Q a s" and "\<And>e s. E' e s \<Longrightarrow> E e s"
  shows "hoare P m Q E"
  using assms by (fastforce simp: hoare_def split: prod.splits sum.splits)

lemma hoare_bind:
  assumes "hoare P m R E" and "\<And>a. hoare (R a) (f a) Q E"
  shows "hoare P (bind_op m f) Q E"
  using assms by (fastforce simp: hoare_def bind_op_def split: prod.splits sum.splits)

lemma keeps_hoare: "keeps I m \<longleftrightarrow> hoare I m (\<lambda>_. I) (\<lambda>_. I)"
proof -
  have "(case m s of (Inl e, s') \<Rightarrow> I s' | (Inr a, s') \<Rightarrow> I s') = I (snd (m s))" for s
    by (simp split: prod.split sum.split)
  then show ?thesis by (simp add: keeps_def hoare_def)
qed

lemma hoare_keeps: "keeps I m \<Longrightarrow> hoare I m (\<lambda>_. I) (\<lambda>_. I)"
  by (simp add: keeps_hoare)

lemma hoare_ret: "(\<And>s. P s \<Longrightarrow> Q a s) \<Longrightarrow> hoare P (ret a) Q E"
  by (simp add: hoare_def)

lemma hoare_fail: "(\<And>s. P s \<Longrightarrow> E e s) \<Longrightarrow> hoare P (fail e) Q E"
  by (simp add: hoare_def)

lemma hoare_of_result:
  "(\<And>s a. P s \<Longrightarrow> r = Inr a \<Longrightarrow> Q a s) \<Longrightarrow> (\<And>s e. P s \<Longrightarrow> r = Inl e \<Longrightarrow> E e s) \<Longrightarrow>
   hoare P (of_result r) Q E"
  by (cases r) (auto simp: hoare_def)

lemma keepsD: "keeps I m \<Longrightarrow> I s \<Longrightarrow> m s = (r, s') \<Longrightarrow> I s'"
  by (metis keeps_def snd_conv)

lemma keepsI: "(\<And>s r s'. I s \<Longrightarrow> m s = (r, s') \<Longrightarrow> I s') \<Longrightarrow> keeps I m"
  by (metis keeps_def prod.collapse)

lemma keeps_ret [wp, intro]: "keeps I (ret a)"
  by (simp add: keeps_def)

lemma keeps_fail [wp, intro]: "keeps I (fail e)"
  by (simp add: keeps_def)

lemma keeps_of_result [wp, intro]: "keeps I (of_result r)"
  by (simp add: keeps_def)

lemma keeps_bind [wp, intro]:
  assumes "keeps I m" and "\<And>a. keeps I (f a)"
  shows "keeps I (bind_op m f)"
  using assms by (fastforce simp: keeps_def bind_op_def split: prod.splits sum.splits)

lemma keeps_catch [wp, intro]:
  assumes "keeps I m" and "\<And>e. keeps I (h e)" and "\<And>a. keeps I (f a)"
  shows "keeps I (catch_op m h f)"
  using assms by (fastforce simp: keeps_def catch_op_def split: prod.splits sum.splits)

lemma keeps_map_err_op [wp, intro]: "keeps I m \<Longrightarrow> keeps I (map_err_op g m)"
  unfolding map_err_op_def by (intro keeps_catch keeps_fail keeps_ret)

lemma keeps_if [wp, intro]:
  "(b \<Longrightarrow> keeps I m) \<Longrightarrow> (\<not> b \<Longrightarrow> keeps I n) \<Longrightarrow> keeps I (if b then m else n)"
  by simp

lemma keeps_option [wp, intro]:
  "(x = None \<Longrightarrow> keeps I m) \<Longrightarrow> (\<And>a. x = Some a \<Longrightarrow> keeps I (f a)) \<Longrightarrow>
   keeps I (case x of None \<Rightarrow> m | Some a \<Rightarrow> f a)"
  by (cases x) auto

lemma keeps_sum [wp, intro]:
  "(\<And>e. x = Inl e \<Longrightarrow> keeps I (f e)) \<Longrightarrow> (\<And>a. x = Inr a \<Longrightarrow> keeps I (g a)) \<Longrightarrow>
   keeps I (case x of Inl e \<Rightarrow> f e | Inr a \<Rightarrow> g a)"
  by (cases x) auto

text \<open>A pure result in front of an operation is a case split, which keeps its value known.\<close>

lemma bind_of_result: "bind_op (of_result r) f = (case r of Inl e \<Rightarrow> fail e | Inr a \<Rightarrow> f a)"
  by (cases r) (auto simp: fun_eq_iff)

lemma bind_of_Inr: "bind_op (of_result (Inr a)) f = f a"
  by (simp add: bind_of_result)

lemma hoare_sum:
  "(\<And>e. x = Inl e \<Longrightarrow> hoare P (f e) Q E) \<Longrightarrow> (\<And>a. x = Inr a \<Longrightarrow> hoare P (g a) Q E) \<Longrightarrow>
   hoare P (case x of Inl e \<Rightarrow> f e | Inr a \<Rightarrow> g a) Q E"
  by (cases x) auto

lemma hoare_option:
  "(x = None \<Longrightarrow> hoare P m Q E) \<Longrightarrow> (\<And>a. x = Some a \<Longrightarrow> hoare P (f a) Q E) \<Longrightarrow>
   hoare P (case x of None \<Rightarrow> m | Some a \<Rightarrow> f a) Q E"
  by (cases x) auto

lemma hoare_if:
  "(b \<Longrightarrow> hoare P m Q E) \<Longrightarrow> (\<not> b \<Longrightarrow> hoare P n Q E) \<Longrightarrow> hoare P (if b then m else n) Q E"
  by simp

lemma hoare_pre: "hoare P' m Q E \<Longrightarrow> (\<And>s. P s \<Longrightarrow> P' s) \<Longrightarrow> hoare P m Q E"
  by (rule hoare_weaken)

lemma hoare_pure: "(A \<Longrightarrow> hoare P m Q E) \<Longrightarrow> hoare (\<lambda>s. A \<and> P s) m Q E"
  by (auto simp: hoare_def)

lemma hoare_conj_keeps:
  "hoare P m Q E \<Longrightarrow> keeps F m \<Longrightarrow>
   hoare (\<lambda>s. P s \<and> F s) m (\<lambda>a s. Q a s \<and> F s) (\<lambda>e s. E e s \<and> F s)"
  by (rule hoareI) (auto dest: hoare_Inr hoare_Inl keepsD)

lemma hoare_keeps_err: "keeps I m \<Longrightarrow> (\<And>e s. I s \<Longrightarrow> E e s) \<Longrightarrow> hoare I m (\<lambda>_. I) E"
  by (rule hoare_weaken [OF hoare_keeps])

section \<open>Machines and their invariants\<close>

text \<open>
  The interface of every state machine below: a set of start states, a step relation and an
  invariant the start states satisfy and every step keeps. Whatever holds of the invariant holds
  of every reachable state.
\<close>

inductive steps :: "('s \<Rightarrow> 's \<Rightarrow> bool) \<Rightarrow> 's \<Rightarrow> 's \<Rightarrow> bool" for step where
  steps_refl: "steps step s s"
| steps_step: "steps step s t \<Longrightarrow> step t u \<Longrightarrow> steps step s u"

lemma steps_trans: "steps step t u \<Longrightarrow> steps step s t \<Longrightarrow> steps step s u"
  by (induction rule: steps.induct) (auto intro: steps.intros)

locale machine =
  fixes start :: "'s \<Rightarrow> bool"
    and step :: "'s \<Rightarrow> 's \<Rightarrow> bool"
    and inv :: "'s \<Rightarrow> bool"
  assumes start_inv: "start s \<Longrightarrow> inv s"
    and step_inv: "inv s \<Longrightarrow> step s t \<Longrightarrow> inv t"
begin

lemma steps_inv: "steps step s t \<Longrightarrow> inv s \<Longrightarrow> inv t"
  by (induction rule: steps.induct) (auto intro: step_inv)

lemma reachable_inv: "start s \<Longrightarrow> steps step s t \<Longrightarrow> inv t"
  by (blast intro: steps_inv start_inv)

lemma steps_mono:
  assumes "steps step s t" and "inv s"
    and "\<And>u v. inv u \<Longrightarrow> step u v \<Longrightarrow> P u \<Longrightarrow> P v" and "P s"
  shows "P t"
  using assms(1,2,4)
proof (induction rule: steps.induct)
  case (steps_step s t u)
  then show ?case using assms(3) steps_inv by blast
qed

end

section \<open>The anti-replay contract\<close>

text \<open>
  What a service's nonce store promises its authentication layer, for the bank and the registry
  alike: \<open>check n now ttl\<close> records a nonce and says whether it was fresh, \<open>live s n\<close> is the
  expiry the store holds for it. A fresh nonce is remembered until \<open>now + ttl\<close>; until a live
  nonce's expiry no check forgets it, and no check of it is fresh.
\<close>

locale nonce_guard =
  fixes check :: "string \<Rightarrow> u64 \<Rightarrow> u64 \<Rightarrow> ('s, 'e, bool) op"
    and live :: "'s \<Rightarrow> string \<Rightarrow> int option"
    and wf :: "'s \<Rightarrow> bool"
  assumes check_wf: "wf s \<Longrightarrow> check n now ttl s = (r, s') \<Longrightarrow> wf s'"
    and check_fresh: "wf s \<Longrightarrow> check n now ttl s = (Inr True, s') \<Longrightarrow> 0 < uint ttl \<Longrightarrow>
      live s' n = Some (uint now + uint ttl)"
    and check_live: "wf s \<Longrightarrow> live s n = Some e \<Longrightarrow> uint now < e \<Longrightarrow> check m now ttl s = (r, s') \<Longrightarrow>
      live s' n = Some e"
    and check_replay: "wf s \<Longrightarrow> live s n = Some e \<Longrightarrow> uint now < e \<Longrightarrow> check n now ttl s = (r, s') \<Longrightarrow>
      r \<noteq> Inr True"
begin

text \<open>A history of checks: nonce, time and lifetime of each, in the order they are made.\<close>

fun checks :: "(string \<times> u64 \<times> u64) list \<Rightarrow> 's \<Rightarrow> ('e + bool) list \<times> 's" where
  "checks [] s = ([], s)"
| "checks ((n, now, ttl) # cs) s =
     (case check n now ttl s of (r, s1) \<Rightarrow> case checks cs s1 of (rs, s2) \<Rightarrow> (r # rs, s2))"

lemma checks_live:
  assumes "wf s" and "live s n = Some e" and "\<forall>(m, now, ttl) \<in> set cs. uint now < e"
    and "checks cs s = (rs, s')"
  shows "wf s' \<and> live s' n = Some e"
  using assms
proof (induction cs arbitrary: s rs s')
  case (Cons c cs)
  obtain m now ttl where c: "c = (m, now, ttl)" by (cases c)
  obtain r s1 where r: "check m now ttl s = (r, s1)" by fastforce
  obtain qs s2 where q: "checks cs s1 = (qs, s2)" by fastforce
  from Cons.prems(1) r have wf1: "wf s1" by (rule check_wf)
  from Cons.prems(3) c have "uint now < e" by simp
  from Cons.prems(1,2) this r have live1: "live s1 n = Some e" by (rule check_live)
  have "\<forall>(m, now, ttl) \<in> set cs. uint now < e" using Cons.prems(3) by simp
  from wf1 live1 this q have "wf s2 \<and> live s2 n = Some e" by (rule Cons.IH)
  with Cons.prems(4) c r q show ?case by simp
qed simp

lemma no_second_use:
  assumes "wf s" and "check n t ttl s = (Inr True, s1)" and "0 < uint ttl"
    and "\<forall>(m, now, ttl') \<in> set cs. uint now < uint t + uint ttl" and "checks cs s1 = (rs, s2)"
    and "uint t' < uint t + uint ttl" and "check n t' ttl' s2 = (r, s3)"
  shows "r \<noteq> Inr True"
proof -
  from assms(1,2) have "wf s1" by (rule check_wf)
  moreover from assms(1-3) have "live s1 n = Some (uint t + uint ttl)" by (rule check_fresh)
  ultimately have "wf s2" "live s2 n = Some (uint t + uint ttl)"
    using assms(4,5) checks_live by blast+
  then show ?thesis using assms(6,7) by (rule check_replay)
qed

end

section \<open>Splitting at a separator\<close>

text \<open>Two strings joined at the first separator determine their parts.\<close>

lemma append_sep_inject:
  assumes "x \<notin> set as" and "x \<notin> set bs" and "as @ x # cs = bs @ x # ds"
  shows "as = bs \<and> cs = ds"
  using assms
proof (induction as arbitrary: bs)
  case Nil
  then show ?case by (cases bs) auto
next
  case (Cons a as)
  then show ?case by (cases bs) auto
qed

end
