(* ===== verification/Core.thy ===== *)
theory Core
  imports Prelude
begin

text \<open>
  The crate \<open>digicash-core\<close>: error values (\<open>error.rs\<close>), serials (\<open>serial.rs\<close>), the coin
  scheme (\<open>scheme.rs\<close>) and the identity keys with the canonical request payload (\<open>auth.rs\<close>).

  The crates it builds on (\<open>blind-rsa-signatures\<close>, \<open>ed25519-dalek\<close>, \<open>hex\<close>, \<open>sha2\<close>,
  \<open>getrandom\<close>) are not part of the repository: they are records of functions the definitions take as
  arguments, and what the code relies on is stated as predicates on those records. An error value
  of such a crate is its display text. Randomness is an argument: the draw a call makes.
\<close>

section \<open>External crates\<close>

text \<open>\<open>blind-rsa-signatures\<close>: secret keys \<open>'sk\<close>, public keys \<open>'pk\<close>, blinding results \<open>'br\<close>.\<close>

record ('sk, 'pk, 'br) brsa =
  brsa_generate :: "nat \<Rightarrow> nat \<Rightarrow> string + 'pk \<times> 'sk"
  brsa_blind :: "'pk \<Rightarrow> nat \<Rightarrow> bytes \<Rightarrow> string + 'br"
  brsa_blind_message :: "'br \<Rightarrow> bytes"
  brsa_blind_sign :: "'sk \<Rightarrow> bytes \<Rightarrow> string + bytes"
  brsa_finalize :: "'pk \<Rightarrow> bytes \<Rightarrow> 'br \<Rightarrow> bytes \<Rightarrow> string + bytes"
  brsa_verify :: "'pk \<Rightarrow> bytes \<Rightarrow> bytes \<Rightarrow> string + unit"
  brsa_to_spki :: "'pk \<Rightarrow> string + bytes"
  brsa_from_spki :: "bytes \<Rightarrow> string + 'pk"
  brsa_from_pem :: "string \<Rightarrow> string + 'sk"
  brsa_to_pem :: "'sk \<Rightarrow> string + string"
  brsa_public_key :: "'sk \<Rightarrow> string + 'pk"

text \<open>\<open>ed25519-dalek\<close>: signing keys \<open>'sgk\<close> and verifying keys \<open>'vk\<close>.\<close>

record ('sgk, 'vk) ed25519 =
  sgk_from_bytes :: "bytes \<Rightarrow> 'sgk"
  sgk_to_bytes :: "'sgk \<Rightarrow> bytes"
  sgk_verifying_key :: "'sgk \<Rightarrow> 'vk"
  sgk_sign :: "'sgk \<Rightarrow> bytes \<Rightarrow> bytes"
  vk_from_bytes :: "bytes \<Rightarrow> string + 'vk"
  vk_to_bytes :: "'vk \<Rightarrow> bytes"
  vk_verify :: "'vk \<Rightarrow> bytes \<Rightarrow> bytes \<Rightarrow> string + unit"

text \<open>\<open>hex\<close> and \<open>sha2\<close>.\<close>

record digests =
  hex_encode :: "bytes \<Rightarrow> string"
  hex_decode :: "string \<Rightarrow> bytes option"
  sha256 :: "bytes \<Rightarrow> bytes"

text \<open>
  What the code relies on of \<open>hex\<close>: lowercase hex digits, two per byte, and decoding what was
  encoded.
\<close>

definition hex_laws :: "digests \<Rightarrow> bool" where
  "hex_laws H \<longleftrightarrow>
     (\<forall>b. hex_decode H (hex_encode H b) = Some b) \<and>
     (\<forall>b. length (hex_encode H b) = 2 * length b) \<and>
     (\<forall>b. set (hex_encode H b) \<subseteq> set ''0123456789abcdef'')"

text \<open>
  What the wallet relies on of the signature crates: a key recovered from its encoding is the
  same key, and a signature verifies under its own key.
\<close>

definition ed25519_laws :: "('sgk, 'vk) ed25519 \<Rightarrow> bool" where
  "ed25519_laws D \<longleftrightarrow>
     (\<forall>k. vk_from_bytes D (vk_to_bytes D k) = Inr k) \<and>
     (\<forall>k. length (vk_to_bytes D k) = 32) \<and>
     (\<forall>k m. length (sgk_sign D k m) = 64) \<and>
     (\<forall>k m. vk_verify D (sgk_verifying_key D k) m (sgk_sign D k m) = Inr ())"

text \<open>
  RFC 9474 for one keypair: a successfully blinded message can be signed, the blind signature
  finalizes, and what finalizes verifies.
\<close>

definition brsa_laws :: "('sk, 'pk, 'br) brsa \<Rightarrow> 'pk \<Rightarrow> 'sk \<Rightarrow> bool" where
  "brsa_laws R pk sk \<longleftrightarrow>
     (\<forall>r m b. brsa_blind R pk r m = Inr b \<longrightarrow>
        (\<exists>bs sig. brsa_blind_sign R sk (brsa_blind_message R b) = Inr bs \<and>
                  brsa_finalize R pk bs b m = Inr sig)) \<and>
     (\<forall>bs b m sig. brsa_finalize R pk bs b m = Inr sig \<longrightarrow> brsa_verify R pk sig m = Inr ())"

text \<open>
  The PEM codec of the keys: a secret key written out reads back, and yields the public key it was
  generated with.
\<close>

definition pem_laws :: "('sk, 'pk, 'br) brsa \<Rightarrow> bool" where
  "pem_laws R \<longleftrightarrow>
     (\<forall>sk t. brsa_to_pem R sk = Inr t \<longrightarrow> brsa_from_pem R t = Inr sk) \<and>
     (\<forall>r n pk sk. brsa_generate R r n = Inr (pk, sk) \<longrightarrow> brsa_public_key R sk = Inr pk)"

subsection \<open>Instances that satisfy the laws\<close>

text \<open>
  Small concrete crates, used only to show that the laws can hold together and to run the model
  on examples: hex as the standard formatter prints it with a decoder that also takes upper case,
  a one-byte key whose signature is the key followed by the message, padded to 64 bytes, and a
  blind signature scheme that refuses messages shorter than four bytes.
\<close>

definition demo_hex_value :: "char \<Rightarrow> nat option" where
  "demo_hex_value c =
     (let n = of_char c :: nat
      in if 48 \<le> n \<and> n \<le> 57 then Some (n - 48)
         else if 97 \<le> n \<and> n \<le> 102 then Some (n - 87)
         else if 65 \<le> n \<and> n \<le> 70 then Some (n - 55) else None)"

fun demo_unhex :: "string \<Rightarrow> bytes option" where
  "demo_unhex [] = Some []"
| "demo_unhex [c] = None"
| "demo_unhex (c # d # cs) =
     (case (demo_hex_value c, demo_hex_value d, demo_unhex cs) of
        (Some h, Some l, Some bs) \<Rightarrow> Some (of_nat (16 * h + l) # bs)
      | _ \<Rightarrow> None)"

definition demo_digests :: digests where
  "demo_digests = \<lparr>hex_encode = hex_lower, hex_decode = demo_unhex, sha256 = (\<lambda>b. b)\<rparr>"

definition demo_ed25519 :: "(u8, u8) ed25519" where
  "demo_ed25519 =
     \<lparr>sgk_from_bytes = last, sgk_to_bytes = (\<lambda>k. replicate 31 0 @ [k]),
      sgk_verifying_key = (\<lambda>k. k),
      sgk_sign = (\<lambda>k m. take 64 (k # m @ replicate 64 0)),
      vk_from_bytes = (\<lambda>b. Inr (last b)), vk_to_bytes = (\<lambda>k. replicate 31 0 @ [k]),
      vk_verify = (\<lambda>k m s. if s = take 64 (k # m @ replicate 64 0) then Inr () else Inl ''bad'')\<rparr>"

definition demo_brsa :: "(u8, u8, bytes) brsa" where
  "demo_brsa =
     \<lparr>brsa_generate = (\<lambda>r n. Inr (of_nat r, of_nat r)),
      brsa_blind = (\<lambda>pk r m. if length m < 4 then Inl ''short'' else Inr m),
      brsa_blind_message = rev,
      brsa_blind_sign = (\<lambda>sk m. if length m < 4 then Inl ''short'' else Inr (sk # m)),
      brsa_finalize = (\<lambda>pk bs b m.
        if bs = pk # rev b \<and> b = m then Inr (pk # m) else Inl ''invalid''),
      brsa_verify = (\<lambda>pk sig m. if sig = pk # m then Inr () else Inl ''invalid''),
      brsa_to_spki = (\<lambda>pk. Inr [pk]),
      brsa_from_spki = (\<lambda>b. case b of [pk] \<Rightarrow> Inr pk | _ \<Rightarrow> Inl ''spki''),
      brsa_from_pem = (\<lambda>t. case t of [c] \<Rightarrow> Inr (word_of_nat (of_char c)) | _ \<Rightarrow> Inl ''pem''),
      brsa_to_pem = (\<lambda>sk. Inr [char_of (unat sk)]),
      brsa_public_key = (\<lambda>sk. Inr sk)\<rparr>"

lemma demo_hex_value_digit: "n < 16 \<Longrightarrow> demo_hex_value (hex_digit n) = Some n"
  by (auto simp: demo_hex_value_def hex_digit_def Let_def)

lemma hex_digit_set: "n < 16 \<Longrightarrow> hex_digit n \<in> set ''0123456789abcdef''"
proof -
  have "\<forall>i \<in> set [0..<16]. hex_digit i \<in> set ''0123456789abcdef''" by code_simp
  then show "n < 16 \<Longrightarrow> ?thesis" by simp
qed

lemma unat_u8_nibbles: "unat (b :: u8) div 16 < 16 \<and> unat b mod 16 < 16"
proof -
  have "unat b < 2 ^ LENGTH(8)" by (rule unsigned_less)
  then show ?thesis by simp
qed

lemma hex_lower_set: "(\<And>n. n < 16 \<Longrightarrow> hex_digit n \<in> S) \<Longrightarrow> set (hex_lower bs) \<subseteq> S"
  using unat_u8_nibbles by (induction bs) (auto simp: hex_lower_def hex02_def)

lemma hex_laws_demo: "hex_laws demo_digests"
proof -
  have "demo_unhex (hex_lower bs) = Some bs" for bs
  proof (induction bs)
    case (Cons b bs)
    have "(of_nat (16 * (unat b div 16) + unat b mod 16) :: u8) = b"
      by (subst mult_div_mod_eq) simp
    with Cons show ?case
      using unat_u8_nibbles [of b] by (simp add: hex_lower_def hex02_def demo_hex_value_digit)
  qed (simp add: hex_lower_def)
  moreover have "length (hex_lower bs) = 2 * length bs" for bs
    by (induction bs) (auto simp: hex_lower_def hex02_def)
  moreover have "set (hex_lower bs) \<subseteq> set ''0123456789abcdef''" for bs
    by (rule hex_lower_set) (rule hex_digit_set)
  ultimately show ?thesis by (simp add: hex_laws_def demo_digests_def)
qed

lemma ed25519_laws_demo: "ed25519_laws demo_ed25519"
  by (auto simp: ed25519_laws_def demo_ed25519_def min_def)

lemma brsa_laws_demo: "brsa_laws demo_brsa k k"
  by (auto simp: brsa_laws_def demo_brsa_def split: if_splits)

lemma pem_laws_demo: "pem_laws demo_brsa"
proof -
  have "unat sk < 256" for sk :: u8
  proof -
    have "unat sk < 2 ^ LENGTH(8)" by (rule unsigned_less)
    then show ?thesis by simp
  qed
  then have "(word_of_nat (of_char (char_of (unat sk) :: char)) :: u8) = sk" for sk by simp
  then show ?thesis by (simp add: pem_laws_def demo_brsa_def)
qed

section \<open>Errors (\<open>error.rs\<close>)\<close>

datatype CoreError =
    SerialGeneration string
  | KeyGeneration string
  | Blinding string
  | Signing string
  | Unblinding string
  | Verification string
  | UnsupportedScheme u8
  | IdentityKeyGeneration string
  | IdentityPublicKeyInvalid string
  | IdentitySignatureInvalid string

fun core_error_to_string :: "CoreError \<Rightarrow> string" where
  "core_error_to_string (SerialGeneration e) =
     ''failed to generate a serial from the OS CSPRNG: '' @ e"
| "core_error_to_string (KeyGeneration e) = ''failed to generate a denomination keypair: '' @ e"
| "core_error_to_string (Blinding e) = ''failed to blind a serial for signing: '' @ e"
| "core_error_to_string (Signing e) = ''failed to blind-sign a blinded message: '' @ e"
| "core_error_to_string (Unblinding e) = ''failed to unblind a blind signature: '' @ e"
| "core_error_to_string (Verification e) =
     ''coin signature did not verify under the denomination key: '' @ e"
| "core_error_to_string (UnsupportedScheme i) =
     ''unsupported scheme_id '' @ nat_to_dec (unat i) @ ''; this crate implements only scheme 0''"
| "core_error_to_string (IdentityKeyGeneration e) =
     ''failed to generate an Ed25519 identity key from the OS CSPRNG: '' @ e"
| "core_error_to_string (IdentityPublicKeyInvalid e) =
     ''invalid Ed25519 identity public key: '' @ e"
| "core_error_to_string (IdentitySignatureInvalid e) =
     ''Ed25519 request signature did not verify: '' @ e"

section \<open>Serials (\<open>serial.rs\<close>)\<close>

text \<open>A serial wraps its 32 bytes; \<open>generate\<close> takes what the OS generator delivered.\<close>

datatype Serial = Serial bytes

definition serial_generate :: "string + bytes \<Rightarrow> CoreError + Serial" where
  "serial_generate draw = bind_result (map_err SerialGeneration draw) (\<lambda>b. Inr (Serial b))"

definition serial_from_bytes :: "bytes \<Rightarrow> Serial" where
  "serial_from_bytes b = Serial b"

primrec serial_as_bytes :: "Serial \<Rightarrow> bytes" where
  "serial_as_bytes (Serial b) = b"

section \<open>The coin scheme (\<open>scheme.rs\<close>)\<close>

definition MODULUS_BITS :: nat where
  "MODULUS_BITS = 3072"

definition SCHEME_ID_RSA_DETERMINISTIC :: u8 where
  "SCHEME_ID_RSA_DETERMINISTIC = 0"

record ('sk, 'pk) keypair =
  kp_pk :: 'pk
  kp_sk :: 'sk

definition generate_keypair :: "('sk, 'pk, 'br) brsa \<Rightarrow> nat \<Rightarrow> CoreError + ('sk, 'pk) keypair" where
  "generate_keypair R rng =
     bind_result (map_err KeyGeneration (brsa_generate R rng MODULUS_BITS))
       (\<lambda>(pk, sk). Inr \<lparr>kp_pk = pk, kp_sk = sk\<rparr>)"

definition ensure_supported_scheme :: "u8 \<Rightarrow> CoreError + unit" where
  "ensure_supported_scheme scheme_id =
     (if scheme_id = SCHEME_ID_RSA_DETERMINISTIC then Inr () else Inl (UnsupportedScheme scheme_id))"

definition blind :: "('sk, 'pk, 'br) brsa \<Rightarrow> 'pk \<Rightarrow> nat \<Rightarrow> Serial \<Rightarrow> CoreError + 'br" where
  "blind R pk rng serial = map_err Blinding (brsa_blind R pk rng (serial_as_bytes serial))"

definition sign_blinded :: "('sk, 'pk, 'br) brsa \<Rightarrow> 'sk \<Rightarrow> bytes \<Rightarrow> CoreError + bytes" where
  "sign_blinded R sk blinded = map_err Signing (brsa_blind_sign R sk blinded)"

definition unblind :: "('sk, 'pk, 'br) brsa \<Rightarrow> 'pk \<Rightarrow> bytes \<Rightarrow> 'br \<Rightarrow> Serial \<Rightarrow> CoreError + bytes" where
  "unblind R pk blind_sig blinding serial =
     map_err Unblinding (brsa_finalize R pk blind_sig blinding (serial_as_bytes serial))"

definition verify :: "('sk, 'pk, 'br) brsa \<Rightarrow> 'pk \<Rightarrow> Serial \<Rightarrow> bytes \<Rightarrow> CoreError + unit" where
  "verify R pk serial sig = map_err Verification (brsa_verify R pk sig (serial_as_bytes serial))"

section \<open>Identity keys and the canonical payload (\<open>auth.rs\<close>)\<close>

definition IDENTITY_SECRET_KEY_LEN :: nat where "IDENTITY_SECRET_KEY_LEN = 32"
definition IDENTITY_PUBLIC_KEY_LEN :: nat where "IDENTITY_PUBLIC_KEY_LEN = 32"
definition IDENTITY_SIGNATURE_LEN :: nat where "IDENTITY_SIGNATURE_LEN = 64"

lemmas [model_defs] =
  MODULUS_BITS_def SCHEME_ID_RSA_DETERMINISTIC_def IDENTITY_SECRET_KEY_LEN_def
  IDENTITY_PUBLIC_KEY_LEN_def IDENTITY_SIGNATURE_LEN_def

datatype 'sgk IdentityKeypair = IdentityKeypair (kp_signing: 'sgk)
datatype 'vk IdentityPublicKey = IdentityPublicKey (pk_verifying: 'vk)

definition identity_generate ::
  "('sgk, 'vk) ed25519 \<Rightarrow> string + bytes \<Rightarrow> CoreError + 'sgk IdentityKeypair" where
  "identity_generate D draw =
     bind_result (map_err IdentityKeyGeneration draw)
       (\<lambda>secret. Inr (IdentityKeypair (sgk_from_bytes D secret)))"

definition identity_from_secret_bytes ::
  "('sgk, 'vk) ed25519 \<Rightarrow> bytes \<Rightarrow> 'sgk IdentityKeypair" where
  "identity_from_secret_bytes D secret = IdentityKeypair (sgk_from_bytes D secret)"

definition identity_secret_bytes :: "('sgk, 'vk) ed25519 \<Rightarrow> 'sgk IdentityKeypair \<Rightarrow> bytes" where
  "identity_secret_bytes D kp = sgk_to_bytes D (kp_signing kp)"

definition identity_public_key ::
  "('sgk, 'vk) ed25519 \<Rightarrow> 'sgk IdentityKeypair \<Rightarrow> 'vk IdentityPublicKey" where
  "identity_public_key D kp = IdentityPublicKey (sgk_verifying_key D (kp_signing kp))"

definition identity_sign :: "('sgk, 'vk) ed25519 \<Rightarrow> 'sgk IdentityKeypair \<Rightarrow> bytes \<Rightarrow> bytes" where
  "identity_sign D kp message = sgk_sign D (kp_signing kp) message"

definition identity_from_bytes ::
  "('sgk, 'vk) ed25519 \<Rightarrow> bytes \<Rightarrow> CoreError + 'vk IdentityPublicKey" where
  "identity_from_bytes D b =
     map_err IdentityPublicKeyInvalid
       (bind_result (vk_from_bytes D b) (\<lambda>v. Inr (IdentityPublicKey v)))"

definition identity_to_bytes :: "('sgk, 'vk) ed25519 \<Rightarrow> 'vk IdentityPublicKey \<Rightarrow> bytes" where
  "identity_to_bytes D pk = vk_to_bytes D (pk_verifying pk)"

definition identity_verify ::
  "('sgk, 'vk) ed25519 \<Rightarrow> 'vk IdentityPublicKey \<Rightarrow> bytes \<Rightarrow> bytes \<Rightarrow> CoreError + unit" where
  "identity_verify D pk message sig =
     map_err IdentitySignatureInvalid (vk_verify D (pk_verifying pk) message sig)"

definition canonical_payload ::
  "digests \<Rightarrow> string \<Rightarrow> string \<Rightarrow> bytes \<Rightarrow> u64 \<Rightarrow> string \<Rightarrow> string" where
  "canonical_payload H mthd path body timestamp nonce =
     (let body_hash = hex_encode H (sha256 H body)
      in to_ascii_uppercase mthd @ ''|'' @ path @ ''|'' @ body_hash @ ''|'' @
         u64_to_string timestamp @ ''|'' @ nonce)"

section \<open>Properties\<close>

lemma ascii_upper_no_bar: "CHR ''|'' \<notin> set s \<Longrightarrow> CHR ''|'' \<notin> set (to_ascii_uppercase s)"
proof -
  have "ascii_upper c \<noteq> CHR ''|''" if "c \<noteq> CHR ''|''" for c
  proof (cases "97 \<le> (of_char c :: nat) \<and> of_char c \<le> (122 :: nat)")
    case True
    show ?thesis
    proof
      assume "ascii_upper c = CHR ''|''"
      then have "(of_char (ascii_upper c) :: nat) = 124" by simp
      with True show False by (auto simp: ascii_upper_def Let_def)
    qed
  next
    case False
    with that show ?thesis by (auto simp: ascii_upper_def Let_def)
  qed
  then show "CHR ''|'' \<notin> set s \<Longrightarrow> CHR ''|'' \<notin> set (to_ascii_uppercase s)"
    unfolding to_ascii_uppercase_def set_map by (metis imageE)
qed

lemma hex_no_bar: "hex_laws H \<Longrightarrow> CHR ''|'' \<notin> set (hex_encode H b)"
  unfolding hex_laws_def by (drule conjunct2, drule conjunct2, drule spec [of _ b]) auto

lemma str_trim_hex: "hex_laws H \<Longrightarrow> str_trim (hex_encode H b) = hex_encode H b"
proof (rule str_trim_id)
  fix w c
  assume "hex_laws H" and c: "w \<in> set whitespace" "c \<in> set w"
  then have "set (hex_encode H b) \<subseteq> set ''0123456789abcdef''" by (simp add: hex_laws_def)
  moreover have "\<forall>w \<in> set whitespace. \<forall>c \<in> set w. c \<notin> set ''0123456789abcdef''" by code_simp
  ultimately show "c \<notin> set (hex_encode H b)" using c by blast
qed

lemma hex_encode_inject: "hex_laws H \<Longrightarrow> hex_encode H a = hex_encode H b \<longleftrightarrow> a = b"
  unfolding hex_laws_def by (metis option.inject)

text \<open>The bars of a payload: four, and those of its method, path and nonce.\<close>

lemma bars_zero: "count_list xs c = 0 \<longleftrightarrow> c \<notin> set xs"
  by (induction xs) auto

lemma canonical_payload_bars:
  assumes "hex_laws H"
  shows "count_list (canonical_payload H m p b t n) CHR ''|'' =
    count_list (to_ascii_uppercase m) CHR ''|'' + count_list p CHR ''|'' + count_list n CHR ''|'' + 4"
proof -
  have "count_list (hex_encode H x) CHR ''|'' = 0" "count_list (u64_to_string t) CHR ''|'' = 0" for x
    using assms by (auto simp: bars_zero hex_no_bar u64_to_string_def nat_to_dec_no_bar)
  then show ?thesis by (simp add: canonical_payload_def Let_def)
qed

text \<open>
  C19: what a signed payload determines. If the method and the path of a request have no bar in
  them, then another request with the same payload has the same path, body digest, timestamp and
  nonce, and a method that differs at most in the case of ASCII letters, provided the nonce has
  no bar either, whatever the other request is, or else the other's method and path have none.
  The fields are joined by bars without any escaping, so the conditions cannot be left out:
  \<open>payload_collision\<close>. A bar is allowed in an HTTP path and in a nonce header; the nonces the
  clients draw are hex.
\<close>

theorem canonical_payload_inject:
  assumes hex: "hex_laws H"
    and bar: "CHR ''|'' \<notin> set m" "CHR ''|'' \<notin> set p"
    and other: "CHR ''|'' \<notin> set n \<or> CHR ''|'' \<notin> set m' \<and> CHR ''|'' \<notin> set p'"
    and eq: "canonical_payload H m p b t n = canonical_payload H m' p' b' t' n'"
  shows "to_ascii_uppercase m = to_ascii_uppercase m' \<and> p = p' \<and>
    sha256 H b = sha256 H b' \<and> t = t' \<and> n = n'"
proof -
  let ?h = "\<lambda>x. hex_encode H (sha256 H x)"
  have up: "CHR ''|'' \<notin> set (to_ascii_uppercase m)" using bar(1) by (rule ascii_upper_no_bar)
  have other': "CHR ''|'' \<notin> set (to_ascii_uppercase m') \<and> CHR ''|'' \<notin> set p'"
  proof (cases "CHR ''|'' \<in> set n")
    case True
    with other show ?thesis by (simp add: ascii_upper_no_bar)
  next
    case False
    with canonical_payload_bars [OF hex, of m p b t n] canonical_payload_bars [OF hex, of m' p' b' t' n'] eq up bar(2)
    show ?thesis by (simp flip: bars_zero)
  qed
  have bars: "CHR ''|'' \<notin> set (?h b)" "CHR ''|'' \<notin> set (?h b')"
    "CHR ''|'' \<notin> set (u64_to_string t)" "CHR ''|'' \<notin> set (u64_to_string t')"
    using hex by (auto simp: hex_no_bar u64_to_string_def nat_to_dec_no_bar)
  from eq have 1: "to_ascii_uppercase m @ CHR ''|'' # p @ CHR ''|'' # ?h b @ CHR ''|'' #
      u64_to_string t @ CHR ''|'' # n =
    to_ascii_uppercase m' @ CHR ''|'' # p' @ CHR ''|'' # ?h b' @ CHR ''|'' #
      u64_to_string t' @ CHR ''|'' # n'"
    by (simp add: canonical_payload_def Let_def)
  note 2 = append_sep_inject [OF up conjunct1 [OF other'] 1]
  note 3 = append_sep_inject [OF bar(2) conjunct2 [OF other'] conjunct2 [OF 2]]
  note 4 = append_sep_inject [OF bars(1,2) conjunct2 [OF 3]]
  note 5 = append_sep_inject [OF bars(3,4) conjunct2 [OF 4]]
  from 2 3 4 5 hex show ?thesis by (simp add: hex_encode_inject)
qed

text \<open>
  With a bar in a path and in a nonce, two requests for different paths have one payload: the rest
  of the longer path reads as the digest, the timestamp and the start of the nonce.
\<close>

lemma payload_collision:
  "canonical_payload H m p b t (n @ ''|'' @ hex_encode H (sha256 H b) @ ''|'' @ u64_to_string t @ ''|'' @ n') =
   canonical_payload H m (p @ ''|'' @ hex_encode H (sha256 H b) @ ''|'' @ u64_to_string t @ ''|'' @ n) b t n'"
  by (simp add: canonical_payload_def Let_def)

theorem canonical_payload_inject_witness:
  "canonical_payload demo_digests ''post'' ''/deposit'' [1] 7 ''a|b'' =
     canonical_payload demo_digests ''POST'' ''/deposit'' [1] 7 ''a|b'' \<and>
   to_ascii_uppercase ''post'' = to_ascii_uppercase ''POST'' \<and> ''/deposit'' = ''/deposit'' \<and>
   sha256 demo_digests [1] = sha256 demo_digests [1] \<and> (7 :: u64) = 7 \<and> ''a|b'' = ''a|b''"
proof -
  have "canonical_payload demo_digests ''post'' ''/deposit'' [1] 7 ''a|b'' =
    canonical_payload demo_digests ''POST'' ''/deposit'' [1] 7 ''a|b''"
    by code_simp
  with canonical_payload_inject [OF hex_laws_demo _ _ _ this] show ?thesis by simp
qed

end
