(* ===== verification/Proto.thy ===== *)
theory Proto
  imports Core
begin

text \<open>
  The crate \<open>digicash-proto\<close>: the denominations, the coin (\<open>coin.rs\<close>), the bank and registry
  messages (\<open>messages.rs\<close>, \<open>registry.rs\<close>) and the authentication headers (\<open>auth.rs\<close>).
  Fixed-size byte arrays (\<open>[u8; 32]\<close>) are byte lists; where their length matters it is a
  well-formedness condition.
\<close>

section \<open>Denominations and coins\<close>

definition DENOMINATIONS :: "u64 list" where
  "DENOMINATIONS = [1, 2, 4, 8, 16, 32, 64, 128, 256, 512, 1024, 2048, 4096, 8192]"

record Coin =
  scheme_id :: u8
  denomination_cents :: u64
  serial_number :: bytes
  signature :: bytes

section \<open>Bank messages\<close>

record WithdrawRequest =
  wr_account_id :: string
  wr_request_id :: string
  wr_denomination_cents :: u64
  wr_blinded_message :: bytes

record WithdrawResponse =
  blind_signature :: bytes

record DepositRequest =
  dr_coin :: Coin
  dr_account_id :: string
  dr_request_id :: string

datatype DepositRejection =
    DoubleSpend
  | InvalidSignature
  | UnknownDenomination
  | UnknownScheme
  | UnknownAccount
  | RequestIdReuse
  | RegistryDoubleSpend
  | ExposureCapExceeded

record DepositResponse =
  accepted :: bool
  reason :: "DepositRejection option"

record CreateAccountRequest =
  ca_account_id :: string
  initial_balance_cents :: u64

record BalanceResponse =
  bal_account_id :: string
  balance_cents :: u64

record RegisterRequest =
  reg_account_id :: string
  public_key_hex :: string

record RegisterResponse =
  client_cert_pem :: string
  client_key_pem :: string
  ca_cert_pem :: string

record ErrorResponse =
  error_text :: string

record DenominationKey =
  dk_denomination_cents :: u64
  dk_scheme_id :: u8
  public_key_spki :: bytes

record DenominationsResponse =
  denominations :: "DenominationKey list"

section \<open>Registry messages\<close>

record RegisterMemberRequest =
  rm_bank_id :: string
  rm_pubkey_hex :: string

record MemberInfo =
  mi_bank_id :: string
  mi_pubkey_hex :: string
  mi_is_admin :: bool

record SerialSubmission =
  ss_issuing_bank_id :: string
  ss_denomination_cents :: u64
  ss_scheme_id :: u8
  ss_serial_hex :: string
  ss_transcript :: string

datatype SerialOutcome = SerialAccepted | SerialDoubleSpend | SerialExposureCapExceeded

record SetCapRequest =
  sc_issuing_bank_id :: string
  sc_depositing_bank_id :: string
  sc_cap_cents :: u64

record CapInfo =
  ci_issuing_bank_id :: string
  ci_depositing_bank_id :: string
  ci_cap_cents :: u64

record SettlementClaimInfo =
  cl_issuing_bank_id :: string
  cl_depositing_bank_id :: string
  cl_net_amount_cents :: u64
  cl_window_end :: u64

record TranscriptEntry =
  te_bank_id :: string
  te_transcript :: string
  te_seen_at :: u64

record SerialResponse =
  sr_outcome :: SerialOutcome
  sr_transcripts :: "TranscriptEntry list"

section \<open>Authentication headers (\<open>auth.rs\<close>)\<close>

definition HEADER_ACCOUNT :: string where "HEADER_ACCOUNT = ''x-digicash-account''"
definition HEADER_TIMESTAMP :: string where "HEADER_TIMESTAMP = ''x-digicash-timestamp''"
definition HEADER_NONCE :: string where "HEADER_NONCE = ''x-digicash-nonce''"
definition HEADER_SIGNATURE :: string where "HEADER_SIGNATURE = ''x-digicash-signature''"

lemmas header_defs = HEADER_ACCOUNT_def HEADER_TIMESTAMP_def HEADER_NONCE_def HEADER_SIGNATURE_def

record AuthHeaders =
  ah_account_id :: string
  ah_timestamp :: u64
  ah_nonce :: string
  ah_signature :: string

datatype AuthHeaderError = Missing string | Malformed string

definition to_pairs :: "AuthHeaders \<Rightarrow> (string \<times> string) list" where
  "to_pairs a =
     [(HEADER_ACCOUNT, ah_account_id a),
      (HEADER_TIMESTAMP, u64_to_string (ah_timestamp a)),
      (HEADER_NONCE, ah_nonce a),
      (HEADER_SIGNATURE, ah_signature a)]"

definition require_header :: "(string \<Rightarrow> string option) \<Rightarrow> string \<Rightarrow> AuthHeaderError + string" where
  "require_header lookup header =
     ok_or (Missing header)
       (case lookup header of None \<Rightarrow> None | Some v \<Rightarrow> if v \<noteq> [] then Some v else None)"

definition from_lookup :: "(string \<Rightarrow> string option) \<Rightarrow> AuthHeaderError + AuthHeaders" where
  "from_lookup lookup =
     bind_result (require_header lookup HEADER_ACCOUNT) (\<lambda>account_id.
     bind_result (require_header lookup HEADER_TIMESTAMP) (\<lambda>ts.
     bind_result (ok_or (Malformed HEADER_TIMESTAMP) (parse_u64 ts)) (\<lambda>timestamp.
     bind_result (require_header lookup HEADER_NONCE) (\<lambda>nonce.
     bind_result (require_header lookup HEADER_SIGNATURE) (\<lambda>sig.
       Inr \<lparr>ah_account_id = account_id, ah_timestamp = timestamp, ah_nonce = nonce,
            ah_signature = sig\<rparr>)))))"

fun auth_header_error_to_string :: "AuthHeaderError \<Rightarrow> string" where
  "auth_header_error_to_string (Missing header) =
     ''missing or empty authentication header: '' @ header"
| "auth_header_error_to_string (Malformed header) =
     ''malformed authentication header: '' @ header"

section \<open>Properties\<close>

lemma headers_distinct [simp]:
  "HEADER_ACCOUNT \<noteq> HEADER_TIMESTAMP" "HEADER_ACCOUNT \<noteq> HEADER_NONCE"
  "HEADER_ACCOUNT \<noteq> HEADER_SIGNATURE" "HEADER_TIMESTAMP \<noteq> HEADER_NONCE"
  "HEADER_TIMESTAMP \<noteq> HEADER_SIGNATURE" "HEADER_NONCE \<noteq> HEADER_SIGNATURE"
  by (simp_all add: header_defs)

lemma require_header_Inr [simp]:
  "require_header lookup h = Inr v \<longleftrightarrow> lookup h = Some v \<and> v \<noteq> []"
  by (auto simp: require_header_def split: option.splits)

lemma require_header_Inl [simp]:
  "require_header lookup h = Inl e \<longleftrightarrow> (lookup h = None \<or> lookup h = Some []) \<and> e = Missing h"
  by (auto simp: require_header_def split: option.splits)

text \<open>What a successful parse says about the headers, in one fact.\<close>

lemma from_lookup_Inr:
  "from_lookup lookup = Inr a \<longleftrightarrow>
     lookup HEADER_ACCOUNT = Some (ah_account_id a) \<and> ah_account_id a \<noteq> [] \<and>
     (\<exists>ts. lookup HEADER_TIMESTAMP = Some ts \<and> ts \<noteq> [] \<and> parse_u64 ts = Some (ah_timestamp a)) \<and>
     lookup HEADER_NONCE = Some (ah_nonce a) \<and> ah_nonce a \<noteq> [] \<and>
     lookup HEADER_SIGNATURE = Some (ah_signature a) \<and> ah_signature a \<noteq> []"
  by (cases a) (auto simp: from_lookup_def bind_result_Inr)

text \<open>
  The authentication headers a client writes are read back unchanged by the server, provided
  account, nonce and signature are not empty.
\<close>

lemma auth_headers_round_trip:
  assumes "ah_account_id a \<noteq> []" and "ah_nonce a \<noteq> []" and "ah_signature a \<noteq> []"
  shows "from_lookup (map_of (to_pairs a)) = Inr (a :: AuthHeaders)"
  using assms by (simp add: from_lookup_Inr to_pairs_def headers_distinct [symmetric])

text \<open>
  C20: parsing fails exactly when a header is missing or empty, or the timestamp is not a decimal
  \<open>u64\<close>, and the error names the first offending header in the order account, timestamp, nonce,
  signature.
\<close>

theorem from_lookup_error:
  "from_lookup lookup = Inl e \<longleftrightarrow>
     (let absent = (\<lambda>h. lookup h = None \<or> lookup h = Some []) in
      if absent HEADER_ACCOUNT then e = Missing HEADER_ACCOUNT
      else if absent HEADER_TIMESTAMP then e = Missing HEADER_TIMESTAMP
      else if parse_u64 (the (lookup HEADER_TIMESTAMP)) = None then e = Malformed HEADER_TIMESTAMP
      else if absent HEADER_NONCE then e = Missing HEADER_NONCE
      else if absent HEADER_SIGNATURE then e = Missing HEADER_SIGNATURE
      else False)"
  by (auto simp: from_lookup_def bind_result_def Let_def require_header_def ok_or_def
      split: sum.splits option.splits)

lemma denominations_powers: "DENOMINATIONS = map (\<lambda>i. 2 ^ i) [0..<14]"
  by (simp add: DENOMINATIONS_def upt_rec)

end
