(* ===== verification/Wallet_Store.thy ===== *)
theory Wallet_Store
  imports Proto "HOL-Library.AList"
begin

text \<open>
  The wallet's error values (\<open>error.rs\<close>) and its local store (\<open>store.rs\<close>): coins by serial number
  and the registered identity. The embedded database \<open>sled\<close> and the JSON codec \<open>serde_json\<close> are
  not part of the repository: they are records of operations on the state \<open>'w\<close> of the machine the
  wallet runs on, with what the code relies on as predicates.
\<close>

section \<open>Errors (\<open>error.rs\<close>)\<close>

datatype WalletError =
    NotImplemented string
  | StoreError string
  | JsonError string
  | HttpError string string
  | IoError string
  | NoAccount
  | CorruptAccountId
  | WalletCore CoreError
  | KeyParse string
  | RandomError string
  | NoSuchDenomination u64
  | InsufficientCoins u64 u64
  | TlsError string
  | PemError string
  | NotRegistered
  | CorruptIdentity string
  | ClockError
  | ConfigError string

fun wallet_error_to_string :: "WalletError \<Rightarrow> string" where
  "wallet_error_to_string (NotImplemented x) = x @ '' is not implemented yet''"
| "wallet_error_to_string (StoreError e) = ''wallet store error: '' @ e"
| "wallet_error_to_string (JsonError e) = ''coin serialization error: '' @ e"
| "wallet_error_to_string (HttpError url source) = ''bank request to '' @ url @ '' failed: '' @ source"
| "wallet_error_to_string (IoError e) = ''bank response error: '' @ e"
| "wallet_error_to_string NoAccount = ''no account configured; run `account create <id>` first''"
| "wallet_error_to_string CorruptAccountId = ''stored account id is corrupt (not UTF-8)''"
| "wallet_error_to_string (WalletCore e) = ''cryptographic error: '' @ core_error_to_string e"
| "wallet_error_to_string (KeyParse e) = ''could not parse a bank public key: '' @ e"
| "wallet_error_to_string (RandomError e) = ''randomness error: '' @ e"
| "wallet_error_to_string (NoSuchDenomination d) =
     ''the bank does not serve denomination '' @ u64_to_string d @ '' cents''"
| "wallet_error_to_string (InsufficientCoins requested held) =
     ''cannot spend '' @ u64_to_string requested @ '' cents exactly from local coins (holding '' @
     u64_to_string held @ '' cents); re-withdraw the exact denominations''"
| "wallet_error_to_string (TlsError e) = ''TLS configuration error: '' @ e"
| "wallet_error_to_string (PemError e) = e"
| "wallet_error_to_string NotRegistered = ''wallet is not registered; run `account create <id>` first''"
| "wallet_error_to_string (CorruptIdentity e) = ''stored wallet identity is corrupt: '' @ e"
| "wallet_error_to_string ClockError = ''system clock is before the Unix epoch''"
| "wallet_error_to_string (ConfigError e) = ''configuration error: '' @ e"

section \<open>External crates\<close>

text \<open>\<open>sled\<close>: named trees of byte keys and byte values.\<close>

record 'w sled =
  sled_open :: "string \<Rightarrow> ('w, string, unit) op"
  sled_open_tree :: "string \<Rightarrow> ('w, string, unit) op"
  sled_insert :: "string \<Rightarrow> bytes \<Rightarrow> bytes \<Rightarrow> ('w, string, unit) op"
  sled_get :: "string \<Rightarrow> bytes \<Rightarrow> ('w, string, bytes option) op"
  sled_remove :: "string \<Rightarrow> bytes \<Rightarrow> ('w, string, bytes option) op"
  sled_iter :: "string \<Rightarrow> 'w \<Rightarrow> (string + bytes \<times> bytes) list"
  sled_flush :: "('w, string, unit) op"

text \<open>
  What the code relies on, over the contents \<open>ct\<close> of the trees: a successful write is visible and
  touches one key, a failed one happened or did not, reads tell the contents and change nothing,
  and an iteration without errors lists every entry once.
\<close>

definition writes :: "('w \<Rightarrow> string \<Rightarrow> bytes \<Rightarrow> bytes option) \<Rightarrow> string \<Rightarrow> bytes \<Rightarrow> bytes option
    \<Rightarrow> ('w, string, 'a) op \<Rightarrow> bool" where
  "writes ct t k v m \<longleftrightarrow>
     (\<forall>w r w'. m w = (r, w') \<longrightarrow>
        ct w' = (ct w)(t := (ct w t)(k := v)) \<or> ct w' = ct w \<and> (\<exists>e. r = Inl e))"

definition sled_laws :: "'w sled \<Rightarrow> ('w \<Rightarrow> string \<Rightarrow> bytes \<Rightarrow> bytes option) \<Rightarrow> bool" where
  "sled_laws S ct \<longleftrightarrow>
     (\<forall>t k v. writes ct t k (Some v) (sled_insert S t k v)) \<and>
     (\<forall>t k. writes ct t k None (sled_remove S t k)) \<and>
     (\<forall>t k w r w'. sled_remove S t k w = (Inr r, w') \<longrightarrow> r = ct w t k) \<and>
     (\<forall>t k w r w'. sled_get S t k w = (r, w') \<longrightarrow> ct w' = ct w \<and> (\<forall>x. r = Inr x \<longrightarrow> x = ct w t k)) \<and>
     (\<forall>t w kvs. sled_iter S t w = map Inr kvs \<longrightarrow> map_of kvs = ct w t \<and> distinct (map fst kvs)) \<and>
     (\<forall>w r w'. sled_flush S w = (r, w') \<longrightarrow> ct w' = ct w) \<and>
     (\<forall>p w r w'. sled_open S p w = (r, w') \<longrightarrow> ct w' = ct w) \<and>
     (\<forall>t w r w'. sled_open_tree S t w = (r, w') \<longrightarrow> ct w' = ct w)"

text \<open>\<open>serde_json\<close> on the types the wallet stores, and what is relied on: what was written reads back.\<close>

record coin_json =
  coin_to_vec :: "Coin \<Rightarrow> string + bytes"
  coin_from_slice :: "bytes \<Rightarrow> string + Coin"
  bundle_to_vec_pretty :: "Coin list \<Rightarrow> string + bytes"
  bundle_from_slice :: "bytes \<Rightarrow> string + Coin list"

definition json_laws :: "coin_json \<Rightarrow> bool" where
  "json_laws J \<longleftrightarrow>
     (\<forall>c b. coin_to_vec J c = Inr b \<longrightarrow> coin_from_slice J b = Inr c) \<and>
     (\<forall>cs b. bundle_to_vec_pretty J cs = Inr b \<longrightarrow> bundle_from_slice J b = Inr cs)"

subsection \<open>\<open>String::from_utf8\<close>\<close>

text \<open>
  The standard library's check: after a leading byte, the ranges of the continuation bytes that
  must follow.
\<close>

definition utf8_follow :: "u8 \<Rightarrow> (u8 \<times> u8) list option" where
  "utf8_follow b =
     (if b < 0x80 then Some []
      else if 0xC2 \<le> b \<and> b \<le> 0xDF then Some [(0x80, 0xBF)]
      else if b = 0xE0 then Some [(0xA0, 0xBF), (0x80, 0xBF)]
      else if b = 0xED then Some [(0x80, 0x9F), (0x80, 0xBF)]
      else if 0xE1 \<le> b \<and> b \<le> 0xEF then Some [(0x80, 0xBF), (0x80, 0xBF)]
      else if b = 0xF0 then Some [(0x90, 0xBF), (0x80, 0xBF), (0x80, 0xBF)]
      else if 0xF1 \<le> b \<and> b \<le> 0xF3 then Some [(0x80, 0xBF), (0x80, 0xBF), (0x80, 0xBF)]
      else if b = 0xF4 then Some [(0x80, 0x8F), (0x80, 0xBF), (0x80, 0xBF)]
      else None)"

fun utf8_run :: "(u8 \<times> u8) list \<Rightarrow> bytes \<Rightarrow> bool" where
  "utf8_run [] [] = True"
| "utf8_run ((lo, hi) # rs) [] = False"
| "utf8_run [] (b # bs) = (case utf8_follow b of None \<Rightarrow> False | Some rs \<Rightarrow> utf8_run rs bs)"
| "utf8_run ((lo, hi) # rs) (b # bs) = (lo \<le> b \<and> b \<le> hi \<and> utf8_run rs bs)"

definition bytes_str :: "bytes \<Rightarrow> string" where
  "bytes_str b = map (\<lambda>x. char_of (unat x)) b"

definition from_utf8 :: "bytes \<Rightarrow> string option" where
  "from_utf8 b = (if utf8_run [] b then Some (bytes_str b) else None)"

text \<open>Every Rust string is UTF-8.\<close>

abbreviation utf8 :: "string \<Rightarrow> bool" where
  "utf8 s \<equiv> utf8_run [] (str_bytes s)"

section \<open>The store (\<open>store.rs\<close>)\<close>

definition COINS_TREE :: string where "COINS_TREE = ''coins''"
definition META_TREE :: string where "META_TREE = ''meta''"
definition ACCOUNT_ID_KEY :: bytes where "ACCOUNT_ID_KEY = str_bytes ''account_id''"
definition IDENTITY_SECRET_KEY :: bytes where "IDENTITY_SECRET_KEY = str_bytes ''identity_secret''"
definition CLIENT_CERT_KEY :: bytes where "CLIENT_CERT_KEY = str_bytes ''client_cert_pem''"
definition CLIENT_KEY_KEY :: bytes where "CLIENT_KEY_KEY = str_bytes ''client_key_pem''"
definition CA_CERT_KEY :: bytes where "CA_CERT_KEY = str_bytes ''ca_cert_pem''"

lemmas tree_defs = COINS_TREE_def META_TREE_def
lemmas meta_key_defs = ACCOUNT_ID_KEY_def IDENTITY_SECRET_KEY_def CLIENT_CERT_KEY_def CLIENT_KEY_KEY_def CA_CERT_KEY_def

record StoredIdentity =
  si_account_id :: string
  si_secret :: bytes
  si_client_cert_pem :: string
  si_client_key_pem :: string
  si_ca_cert_pem :: string

definition store_open :: "'w sled \<Rightarrow> string \<Rightarrow> ('w, WalletError, unit) op" where
  "store_open S path =
     bind_op (map_err_op StoreError (sled_open S path)) (\<lambda>_.
     bind_op (map_err_op StoreError (sled_open_tree S COINS_TREE)) (\<lambda>_.
     bind_op (map_err_op StoreError (sled_open_tree S META_TREE)) (\<lambda>_.
       ret ())))"

definition set_account_id :: "'w sled \<Rightarrow> string \<Rightarrow> ('w, WalletError, unit) op" where
  "set_account_id S account_id =
     bind_op (map_err_op StoreError (sled_insert S META_TREE ACCOUNT_ID_KEY (str_bytes account_id))) (\<lambda>_.
     bind_op (map_err_op StoreError (sled_flush S)) (\<lambda>_.
       ret ()))"

definition stored_account_id :: "'w sled \<Rightarrow> ('w, WalletError, string option) op" where
  "stored_account_id S =
     bind_op (map_err_op StoreError (sled_get S META_TREE ACCOUNT_ID_KEY)) (\<lambda>found.
       case found of
         Some b \<Rightarrow> bind_op (of_result (ok_or CorruptAccountId (from_utf8 b))) (\<lambda>s. ret (Some s))
       | None \<Rightarrow> ret None)"

definition set_identity :: "'w sled \<Rightarrow> StoredIdentity \<Rightarrow> ('w, WalletError, unit) op" where
  "set_identity S identity =
     bind_op (map_err_op StoreError (sled_insert S META_TREE ACCOUNT_ID_KEY (str_bytes (si_account_id identity)))) (\<lambda>_.
     bind_op (map_err_op StoreError (sled_insert S META_TREE IDENTITY_SECRET_KEY (si_secret identity))) (\<lambda>_.
     bind_op (map_err_op StoreError (sled_insert S META_TREE CLIENT_CERT_KEY (str_bytes (si_client_cert_pem identity)))) (\<lambda>_.
     bind_op (map_err_op StoreError (sled_insert S META_TREE CLIENT_KEY_KEY (str_bytes (si_client_key_pem identity)))) (\<lambda>_.
     bind_op (map_err_op StoreError (sled_insert S META_TREE CA_CERT_KEY (str_bytes (si_ca_cert_pem identity)))) (\<lambda>_.
     bind_op (map_err_op StoreError (sled_flush S)) (\<lambda>_.
       ret ()))))))"

definition meta_string :: "'w sled \<Rightarrow> bytes \<Rightarrow> ('w, WalletError, string) op" where
  "meta_string S key =
     bind_op (map_err_op StoreError (sled_get S META_TREE key)) (\<lambda>found.
     bind_op (of_result (ok_or (CorruptIdentity ''identity record is incomplete'') found)) (\<lambda>b.
       of_result (ok_or (CorruptIdentity ''identity record is not UTF-8'') (from_utf8 b))))"

definition stored_identity :: "'w sled \<Rightarrow> ('w, WalletError, StoredIdentity option) op" where
  "stored_identity S =
     bind_op (stored_account_id S) (\<lambda>found.
       case found of None \<Rightarrow> ret None | Some account_id \<Rightarrow>
     bind_op (map_err_op StoreError (sled_get S META_TREE IDENTITY_SECRET_KEY)) (\<lambda>found.
       case found of None \<Rightarrow> ret None | Some secret \<Rightarrow>
         if length secret \<noteq> IDENTITY_SECRET_KEY_LEN then fail (CorruptIdentity ''secret key is the wrong length'')
         else
           bind_op (meta_string S CLIENT_CERT_KEY) (\<lambda>cert.
           bind_op (meta_string S CLIENT_KEY_KEY) (\<lambda>key.
           bind_op (meta_string S CA_CERT_KEY) (\<lambda>ca.
             ret (Some \<lparr>si_account_id = account_id, si_secret = secret, si_client_cert_pem = cert,
                        si_client_key_pem = key, si_ca_cert_pem = ca\<rparr>))))))"

definition put_coin :: "'w sled \<Rightarrow> coin_json \<Rightarrow> Coin \<Rightarrow> ('w, WalletError, unit) op" where
  "put_coin S J coin =
     bind_op (of_result (map_err JsonError (coin_to_vec J coin))) (\<lambda>b.
     bind_op (map_err_op StoreError (sled_insert S COINS_TREE (serial_number coin) b)) (\<lambda>_.
     bind_op (map_err_op StoreError (sled_flush S)) (\<lambda>_.
       ret ())))"

definition get_coin :: "'w sled \<Rightarrow> coin_json \<Rightarrow> bytes \<Rightarrow> ('w, WalletError, Coin option) op" where
  "get_coin S J serial =
     bind_op (map_err_op StoreError (sled_get S COINS_TREE serial)) (\<lambda>found.
       case found of
         Some b \<Rightarrow> bind_op (of_result (map_err JsonError (coin_from_slice J b))) (\<lambda>c. ret (Some c))
       | None \<Rightarrow> ret None)"

fun collect_coins :: "coin_json \<Rightarrow> (string + bytes \<times> bytes) list \<Rightarrow> Coin list \<Rightarrow> WalletError + Coin list" where
  "collect_coins J [] coins = Inr coins"
| "collect_coins J (entry # entries) coins =
     bind_result (map_err StoreError entry) (\<lambda>(_, b).
     bind_result (map_err JsonError (coin_from_slice J b)) (\<lambda>coin.
       collect_coins J entries (coins @ [coin])))"

definition list_coins :: "'w sled \<Rightarrow> coin_json \<Rightarrow> ('w, WalletError, Coin list) op" where
  "list_coins S J w = (collect_coins J (sled_iter S COINS_TREE w) [], w)"

definition remove_coin :: "'w sled \<Rightarrow> bytes \<Rightarrow> ('w, WalletError, bool) op" where
  "remove_coin S serial =
     bind_op (map_err_op StoreError (sled_remove S COINS_TREE serial)) (\<lambda>removed.
     bind_op (map_err_op StoreError (sled_flush S)) (\<lambda>_.
       ret (removed \<noteq> None)))"

section \<open>Strings and bytes\<close>

lemma bytes_str_bytes [simp]: "bytes_str (str_bytes s) = s"
proof -
  have "char_of (unat (word_of_nat (of_char c) :: u8)) = c" for c :: char
  proof -
    have "of_char c < (256 :: nat)" by simp
    then have "unat (word_of_nat (of_char c) :: u8) = of_char c" by (simp add: unat_of_nat)
    then show ?thesis by simp
  qed
  then show ?thesis by (simp add: bytes_str_def str_bytes_def map_idI)
qed

lemma from_utf8_str [simp]: "utf8 s \<Longrightarrow> from_utf8 (str_bytes s) = Some s"
  by (simp add: from_utf8_def)

text \<open>ASCII text is UTF-8.\<close>

lemma utf8_ascii: "\<forall>b \<in> set bs. b < 0x80 \<Longrightarrow> utf8_run [] bs"
  by (induction bs) (simp_all add: utf8_follow_def)

section \<open>The contents after an operation\<close>

lemma sled_lawsD:
  assumes "sled_laws S ct"
  shows "writes ct t k (Some v) (sled_insert S t k v)" and "writes ct t k None (sled_remove S t k)"
    and "sled_remove S t k w = (Inr x, w') \<Longrightarrow> x = ct w t k"
    and "sled_get S t k w = (r, w') \<Longrightarrow> ct w' = ct w"
    and "sled_get S t k w = (Inr x, w') \<Longrightarrow> x = ct w t k"
    and "sled_iter S t w = map Inr kvs \<Longrightarrow> map_of kvs = ct w t \<and> distinct (map fst kvs)"
    and "sled_flush S w = (q, w') \<Longrightarrow> ct w' = ct w"
proof -
  note L = assms [unfolded sled_laws_def]
  show "writes ct t k (Some v) (sled_insert S t k v)" by (rule L [THEN conjunct1, rule_format])
  show "writes ct t k None (sled_remove S t k)" by (rule L [THEN conjunct2, THEN conjunct1, rule_format])
  show "sled_remove S t k w = (Inr x, w') \<Longrightarrow> x = ct w t k" by (rule L [THEN conjunct2, THEN conjunct2, THEN conjunct1, rule_format])
  show "sled_get S t k w = (r, w') \<Longrightarrow> ct w' = ct w" by (rule L [THEN conjunct2, THEN conjunct2, THEN conjunct2, THEN conjunct1, rule_format, THEN conjunct1])
  show "sled_get S t k w = (Inr x, w') \<Longrightarrow> x = ct w t k"
    by (rule L [THEN conjunct2, THEN conjunct2, THEN conjunct2, THEN conjunct1, rule_format, THEN conjunct2, rule_format]) simp_all
  show "sled_iter S t w = map Inr kvs \<Longrightarrow> map_of kvs = ct w t \<and> distinct (map fst kvs)"
    by (rule L [THEN conjunct2, THEN conjunct2, THEN conjunct2, THEN conjunct2, THEN conjunct1, rule_format])
  show "sled_flush S w = (q, w') \<Longrightarrow> ct w' = ct w" by (rule L [THEN conjunct2, THEN conjunct2, THEN conjunct2, THEN conjunct2, THEN conjunct2, THEN conjunct1, rule_format])
qed

lemma writesD:
  assumes "writes ct t k v m" and "m w = (r, w')"
  shows "ct w' = (ct w)(t := (ct w t)(k := v)) \<or> ct w' = ct w \<and> (\<exists>e. r = Inl e)"
  using assms unfolding writes_def by blast

lemma writes_Inr: "writes ct t k v m \<Longrightarrow> m w = (Inr a, w') \<Longrightarrow> ct w' = (ct w)(t := (ct w t)(k := v))"
  by (auto dest: writesD)

text \<open>A write followed by a flush, with errors turned into the wallet's.\<close>

lemma write_flush:
  assumes "sled_laws S ct" and "writes ct t k v m"
    and run: "bind_op (map_err_op StoreError m) (\<lambda>x. bind_op (map_err_op StoreError (sled_flush S)) (\<lambda>_. ret (f x))) w = (r, w')"
  shows "ct w' = (ct w)(t := (ct w t)(k := v)) \<or> ct w' = ct w \<and> (\<exists>e. r = Inl (StoreError e))"
proof -
  obtain x w1 where x: "m w = (x, w1)" by fastforce
  show ?thesis
  proof (cases x)
    case (Inl e)
    with run x have "w' = w1" "r = Inl (StoreError e)" by (simp_all add: bind_op_def map_err_op_def)
    with writesD [OF assms(2) x] show ?thesis by auto
  next
    case (Inr a)
    have "ct w1 = (ct w)(t := (ct w t)(k := v))" using writes_Inr [OF assms(2)] x Inr by blast
    moreover obtain y where "sled_flush S w1 = (y, w')"
      using run x Inr by (auto simp: bind_op_def map_err_op_def catch_op_def split: prod.splits sum.splits)
    ultimately show ?thesis using sled_lawsD(7) [OF assms(1)] by auto
  qed
qed

lemma put_coin_run:
  assumes "sled_laws S ct" and "put_coin S J coin w = (r, w')"
  shows "ct w' = ct w \<and> (\<exists>e. r = Inl e) \<or>
    (\<exists>b. coin_to_vec J coin = Inr b \<and>
       ct w' = (ct w)(COINS_TREE := (ct w COINS_TREE)(serial_number coin \<mapsto> b)))"
proof (cases "coin_to_vec J coin")
  case (Inl e)
  with assms(2) show ?thesis by (auto simp: put_coin_def)
next
  case (Inr b)
  with assms(2) have "bind_op (map_err_op StoreError (sled_insert S COINS_TREE (serial_number coin) b))
      (\<lambda>_. bind_op (map_err_op StoreError (sled_flush S)) (\<lambda>_. ret ())) w = (r, w')" by (simp add: put_coin_def)
  from write_flush [OF assms(1) sled_lawsD(1) [OF assms(1)] this] Inr show ?thesis by blast
qed

lemma remove_coin_run:
  assumes "sled_laws S ct" and "remove_coin S serial w = (r, w')"
  shows "ct w' = ct w \<and> (\<exists>e. r = Inl e) \<or> ct w' = (ct w)(COINS_TREE := (ct w COINS_TREE)(serial := None))"
  using write_flush [OF assms(1) sled_lawsD(2) [OF assms(1)], of COINS_TREE serial "\<lambda>x. x \<noteq> None"] assms(2)
  unfolding remove_coin_def by blast

lemma remove_coin_Inr:
  assumes "sled_laws S ct" and "remove_coin S serial w = (Inr x, w')"
  shows "x \<longleftrightarrow> ct w COINS_TREE serial \<noteq> None"
  using assms sled_lawsD(3) [OF assms(1), of COINS_TREE serial]
  by (auto simp: remove_coin_def bind_op_Inr map_err_op_eq)

section \<open>The store as a map from serials to coins\<close>

definition held :: "coin_json \<Rightarrow> (string \<Rightarrow> bytes \<Rightarrow> bytes option) \<Rightarrow> bytes \<Rightarrow> Coin option" where
  "held J c k =
     (case c COINS_TREE k of None \<Rightarrow> None
      | Some b \<Rightarrow> (case coin_from_slice J b of Inr coin \<Rightarrow> Some coin | Inl _ \<Rightarrow> None))"

text \<open>Every entry is a coin, under its own serial number.\<close>

definition coins_wf :: "coin_json \<Rightarrow> (string \<Rightarrow> bytes \<Rightarrow> bytes option) \<Rightarrow> bool" where
  "coins_wf J c \<longleftrightarrow>
     (\<forall>k b. c COINS_TREE k = Some b \<longrightarrow> (\<exists>coin. coin_from_slice J b = Inr coin \<and> serial_number coin = k))"

lemma coins_wfD: "coins_wf J c \<Longrightarrow> c COINS_TREE k = Some b \<Longrightarrow> coin_from_slice J b = Inr x \<Longrightarrow> serial_number x = k"
  by (fastforce simp: coins_wf_def)

lemma held_put:
  assumes "json_laws J" and "coin_to_vec J coin = Inr b" and "coins_wf J c"
  shows "held J (c(COINS_TREE := (c COINS_TREE)(serial_number coin \<mapsto> b))) = (held J c)(serial_number coin \<mapsto> coin)"
    and "coins_wf J (c(COINS_TREE := (c COINS_TREE)(serial_number coin \<mapsto> b)))"
proof -
  have "coin_from_slice J b = Inr coin" using assms(1,2) by (simp add: json_laws_def)
  then show "held J (c(COINS_TREE := (c COINS_TREE)(serial_number coin \<mapsto> b))) = (held J c)(serial_number coin \<mapsto> coin)"
    "coins_wf J (c(COINS_TREE := (c COINS_TREE)(serial_number coin \<mapsto> b)))"
    using assms(3) by (auto simp: held_def coins_wf_def fun_eq_iff)
qed

lemma held_remove:
  "held J (c(COINS_TREE := (c COINS_TREE)(k := None))) = (held J c)(k := None)"
  "coins_wf J c \<Longrightarrow> coins_wf J (c(COINS_TREE := (c COINS_TREE)(k := None)))"
  by (auto simp: held_def coins_wf_def fun_eq_iff)

lemma held_serial: "coins_wf J c \<Longrightarrow> held J c k = Some coin \<Longrightarrow> serial_number coin = k"
  by (auto simp: held_def dest: coins_wfD split: option.splits sum.splits)

lemma held_dom: "coins_wf J c \<Longrightarrow> held J c k = None \<longleftrightarrow> c COINS_TREE k = None"
  unfolding held_def coins_wf_def by (cases "c COINS_TREE k") (fastforce split: sum.splits)+

lemma collect_coins_Inr:
  "collect_coins J entries acc = Inr coins \<Longrightarrow>
   \<exists>kvs cs. entries = map Inr kvs \<and> coins = acc @ cs \<and> list_all2 (\<lambda>(k, b) c. coin_from_slice J b = Inr c) kvs cs"
proof (induction entries arbitrary: acc)
  case (Cons entry entries)
  then obtain k b c where e: "entry = Inr (k, b)" "coin_from_slice J b = Inr c"
      "collect_coins J entries (acc @ [c]) = Inr coins" by (auto simp: bind_result_Inr)
  with Cons.IH obtain kvs cs where "entries = map Inr kvs" "coins = (acc @ [c]) @ cs"
      "list_all2 (\<lambda>(k, b) c. coin_from_slice J b = Inr c) kvs cs" by blast
  with e show ?case by (intro exI [of _ "(k, b) # kvs"] exI [of _ "c # cs"]) simp
qed simp

text \<open>The listing is one coin for each entry.\<close>

lemma list_coins_Inr:
  assumes "sled_laws S ct" and "coins_wf J (ct w)" and "list_coins S J w = (Inr coins, w')"
  shows "distinct (map serial_number coins) \<and> set coins = ran (held J (ct w)) \<and> w' = w"
proof -
  from assms(3) have "collect_coins J (sled_iter S COINS_TREE w) [] = Inr coins" and w': "w' = w"
    by (auto simp: list_coins_def)
  then obtain kvs where it: "sled_iter S COINS_TREE w = map Inr kvs"
    and all: "list_all2 (\<lambda>(k, b) c. coin_from_slice J b = Inr c) kvs coins" using collect_coins_Inr by fastforce
  from sled_lawsD(6) [OF assms(1) it] have m: "map_of kvs = ct w COINS_TREE" and d: "distinct (map fst kvs)" by auto
  have entry: "held J (ct w) k = Some c \<and> serial_number c = k" if "(k, b) \<in> set kvs" "coin_from_slice J b = Inr c" for k b c
    using that m map_of_eq_Some_iff [OF d, of k b] coins_wfD [OF assms(2)] by (simp add: held_def)
  have rel: "list_all2 (\<lambda>e c. held J (ct w) (fst e) = Some c \<and> serial_number c = fst e) kvs coins"
    using all by (rule list.rel_mono_strong) (auto dest: entry)
  then have "list_all2 (=) (map fst kvs) (map serial_number coins)"
    unfolding list.rel_map by (rule list.rel_mono_strong) auto
  with d have "distinct (map serial_number coins)" by (simp add: list.rel_eq)
  moreover have "c \<in> ran (held J (ct w))" if "c \<in> set coins" for c
  proof -
    from that obtain i where "i < length coins" "c = coins ! i" by (auto simp: in_set_conv_nth)
    with rel have "held J (ct w) (fst (kvs ! i)) = Some c"
      by (simp add: list_all2_conv_all_nth)
    then show ?thesis by (rule ranI)
  qed
  moreover have "c \<in> set coins" if "held J (ct w) k = Some c" for k c
  proof -
    from that obtain b where "map_of kvs k = Some b" "coin_from_slice J b = Inr c"
      by (auto simp: held_def m split: option.splits sum.splits)
    then have "(k, b) \<in> set kvs" by (simp add: map_of_SomeD)
    with rel that show ?thesis by (fastforce simp: list_all2_conv_all_nth in_set_conv_nth)
  qed
  ultimately show ?thesis using w' by (auto simp: ran_def)
qed

section \<open>What the store promises\<close>

lemma put_coin_map:
  assumes "sled_laws S ct" and "json_laws J" and "coins_wf J (ct w)" and "put_coin S J coin w = (r, w')"
  shows "coins_wf J (ct w') \<and>
    (held J (ct w') = (held J (ct w))(serial_number coin \<mapsto> coin) \<or> held J (ct w') = held J (ct w) \<and> (\<exists>e. r = Inl e))"
  using put_coin_run [OF assms(1,4)] assms(2,3) by (auto simp: held_put)

lemma get_coin_map:
  assumes "sled_laws S ct" and "get_coin S J serial w = (r, w')"
  shows "ct w' = ct w \<and> (\<forall>x. r = Inr x \<longrightarrow> x = held J (ct w) serial)"
proof -
  obtain x w1 where x: "sled_get S COINS_TREE serial w = (x, w1)" by fastforce
  then have w1: "ct w1 = ct w" by (rule sled_lawsD(4) [OF assms(1)])
  show ?thesis
  proof (cases x)
    case (Inl e)
    with assms(2) x w1 show ?thesis by (auto simp: get_coin_def bind_op_def map_err_op_def)
  next
    case (Inr v)
    with x have "v = ct w COINS_TREE serial" using sled_lawsD(5) [OF assms(1)] by blast
    with assms(2) x w1 Inr show ?thesis
      by (cases v; cases "coin_from_slice J (the v)")
        (auto simp: get_coin_def bind_op_def map_err_op_def held_def split: option.splits)
  qed
qed

lemma remove_coin_map:
  assumes "sled_laws S ct" and "coins_wf J (ct w)" and "remove_coin S serial w = (r, w')"
  shows "coins_wf J (ct w') \<and>
    (held J (ct w') = (held J (ct w))(serial := None) \<or> held J (ct w') = held J (ct w) \<and> (\<exists>e. r = Inl e)) \<and>
    (\<forall>x. r = Inr x \<longrightarrow> x = (held J (ct w) serial \<noteq> None))"
  using remove_coin_run [OF assms(1,3)] assms(2,3) remove_coin_Inr [OF assms(1)]
  by (auto simp: held_remove held_dom)

text \<open>
  C39: The store implements a map from serial numbers to coins. On a store whose entries are coins
  under their own serials, putting, getting, listing and removing are update, lookup, enumeration
  (each coin once) and deletion of that map; a call that fails has either done its whole effect or
  none of it, and the entries stay coins under their own serials.
\<close>

theorem store_refines_map:
  assumes "sled_laws S ct" and "json_laws J" and "coins_wf J (ct w)"
  shows "(\<forall>coin r w'. put_coin S J coin w = (r, w') \<longrightarrow> coins_wf J (ct w') \<and>
      (held J (ct w') = (held J (ct w))(serial_number coin \<mapsto> coin) \<or>
       held J (ct w') = held J (ct w) \<and> (\<exists>e. r = Inl e))) \<and>
    (\<forall>serial x w'. get_coin S J serial w = (Inr x, w') \<longrightarrow> ct w' = ct w \<and> x = held J (ct w) serial) \<and>
    (\<forall>coins w'. list_coins S J w = (Inr coins, w') \<longrightarrow>
      ct w' = ct w \<and> distinct (map serial_number coins) \<and> set coins = ran (held J (ct w))) \<and>
    (\<forall>serial r w'. remove_coin S serial w = (r, w') \<longrightarrow> coins_wf J (ct w') \<and>
      (held J (ct w') = (held J (ct w))(serial := None) \<or> held J (ct w') = held J (ct w) \<and> (\<exists>e. r = Inl e)) \<and>
      (\<forall>x. r = Inr x \<longrightarrow> x = (held J (ct w) serial \<noteq> None)))"
  using put_coin_map [OF assms] get_coin_map [OF assms(1)] list_coins_Inr [OF assms(1,3)]
    remove_coin_map [OF assms(1,3)] by blast

subsection \<open>The identity\<close>

lemma set_identity_Inr:
  assumes "sled_laws S ct" and "set_identity S idt w = (Inr (), w')"
  shows "ct w' META_TREE = (ct w META_TREE)
    (ACCOUNT_ID_KEY \<mapsto> str_bytes (si_account_id idt), IDENTITY_SECRET_KEY \<mapsto> si_secret idt,
     CLIENT_CERT_KEY \<mapsto> str_bytes (si_client_cert_pem idt), CLIENT_KEY_KEY \<mapsto> str_bytes (si_client_key_pem idt),
     CA_CERT_KEY \<mapsto> str_bytes (si_ca_cert_pem idt))"
proof -
  note ins = writes_Inr [OF sled_lawsD(1) [OF assms(1)]]
  from assms(2) obtain w1 w2 w3 w4 w5 u1 u2 u3 u4 u5 u6 where
    "sled_insert S META_TREE ACCOUNT_ID_KEY (str_bytes (si_account_id idt)) w = (Inr u1, w1)"
    "sled_insert S META_TREE IDENTITY_SECRET_KEY (si_secret idt) w1 = (Inr u2, w2)"
    "sled_insert S META_TREE CLIENT_CERT_KEY (str_bytes (si_client_cert_pem idt)) w2 = (Inr u3, w3)"
    "sled_insert S META_TREE CLIENT_KEY_KEY (str_bytes (si_client_key_pem idt)) w3 = (Inr u4, w4)"
    "sled_insert S META_TREE CA_CERT_KEY (str_bytes (si_ca_cert_pem idt)) w4 = (Inr u5, w5)"
    "sled_flush S w5 = (Inr u6, w')"
    unfolding set_identity_def bind_op_Inr map_err_op_eq by auto
  note run = this
  show ?thesis
    by (simp add: sled_lawsD(7) [OF assms(1) run(6)] ins [OF run(5)] ins [OF run(4)] ins [OF run(3)]
        ins [OF run(2)] ins [OF run(1)])
qed

lemma meta_keys_distinct:
  "distinct [ACCOUNT_ID_KEY, IDENTITY_SECRET_KEY, CLIENT_CERT_KEY, CLIENT_KEY_KEY, CA_CERT_KEY]"
  by (simp add: meta_key_defs)

text \<open>A computation that reads: its value follows from the contents, or the store fails.\<close>

definition reads :: "('w \<Rightarrow> 'c) \<Rightarrow> 'c \<Rightarrow> ('w, WalletError, 'a) op \<Rightarrow> 'a \<Rightarrow> bool" where
  "reads ct c m a \<longleftrightarrow>
     (\<forall>w r w'. ct w = c \<longrightarrow> m w = (r, w') \<longrightarrow> ct w' = c \<and> (r = Inr a \<or> (\<exists>e. r = Inl (StoreError e))))"

lemma reads_bind:
  assumes "reads ct c m a" and "reads ct c (f a) b"
  shows "reads ct c (bind_op m f) b"
  unfolding reads_def
proof (intro allI impI)
  fix w r w'
  assume c: "ct w = c" and run: "bind_op m f w = (r, w')"
  obtain x w1 where x: "m w = (x, w1)" by fastforce
  with assms(1) c have "ct w1 = c \<and> (x = Inr a \<or> (\<exists>e. x = Inl (StoreError e)))" unfolding reads_def by blast
  then show "ct w' = c \<and> (r = Inr b \<or> (\<exists>e. r = Inl (StoreError e)))"
    using run x assms(2) unfolding reads_def by (elim conjE disjE exE) (simp, auto)
qed

lemma reads_pure: "reads ct c (ret a) a" "reads ct c (of_result (Inr a)) a" "reads ct c (Pair (Inr a)) a"
  by (simp_all add: reads_def)

lemma reads_get:
  assumes "sled_laws S ct"
  shows "reads ct c (map_err_op StoreError (sled_get S t k)) (c t k)"
  unfolding reads_def
proof (intro allI impI)
  fix w r w'
  assume c: "ct w = c" and run: "map_err_op StoreError (sled_get S t k) w = (r, w')"
  obtain x where x: "sled_get S t k w = (x, w')" and r: "r = map_err StoreError x"
    using run by (auto simp: map_err_op_def catch_op_def map_err_def split: prod.splits sum.splits)
  have "ct w' = c" using sled_lawsD(4) [OF assms x] c by simp
  moreover have "x = Inr (c t k) \<or> (\<exists>e. x = Inl e)" using sled_lawsD(5) [OF assms] x c by (cases x) auto
  ultimately show "ct w' = c \<and> (r = Inr (c t k) \<or> (\<exists>e. r = Inl (StoreError e)))" using r by auto
qed

lemma reads_meta_string:
  "sled_laws S ct \<Longrightarrow> c META_TREE k = Some (str_bytes s) \<Longrightarrow> utf8 s \<Longrightarrow> reads ct c (meta_string S k) s"
  unfolding meta_string_def by (rule reads_bind [OF reads_get]) (simp_all add: bind_of_Inr reads_pure)

lemma reads_account_id:
  "sled_laws S ct \<Longrightarrow> c META_TREE ACCOUNT_ID_KEY = Some (str_bytes s) \<Longrightarrow> utf8 s \<Longrightarrow>
   reads ct c (stored_account_id S) (Some s)"
  unfolding stored_account_id_def by (rule reads_bind [OF reads_get]) (simp_all add: bind_of_Inr reads_pure)

text \<open>The identity record as it lies in the metadata tree.\<close>

definition identity_at :: "(bytes \<Rightarrow> bytes option) \<Rightarrow> StoredIdentity \<Rightarrow> bool" where
  "identity_at t idt \<longleftrightarrow>
     t ACCOUNT_ID_KEY = Some (str_bytes (si_account_id idt)) \<and> t IDENTITY_SECRET_KEY = Some (si_secret idt) \<and>
     t CLIENT_CERT_KEY = Some (str_bytes (si_client_cert_pem idt)) \<and>
     t CLIENT_KEY_KEY = Some (str_bytes (si_client_key_pem idt)) \<and>
     t CA_CERT_KEY = Some (str_bytes (si_ca_cert_pem idt))"

text \<open>The strings of an identity are Rust strings and its secret is an array of 32 bytes.\<close>

definition identity_ok :: "StoredIdentity \<Rightarrow> bool" where
  "identity_ok idt \<longleftrightarrow> utf8 (si_account_id idt) \<and> utf8 (si_client_cert_pem idt) \<and>
     utf8 (si_client_key_pem idt) \<and> utf8 (si_ca_cert_pem idt) \<and> length (si_secret idt) = 32"

lemma reads_identity:
  assumes "sled_laws S ct" and "identity_at (c META_TREE) idt" and "identity_ok idt"
  shows "reads ct c (stored_identity S) (Some idt)"
proof -
  from assms(2,3) have "reads ct c (stored_account_id S) (Some (si_account_id idt))"
    "reads ct c (map_err_op StoreError (sled_get S META_TREE IDENTITY_SECRET_KEY)) (Some (si_secret idt))"
    "reads ct c (meta_string S CLIENT_CERT_KEY) (si_client_cert_pem idt)"
    "reads ct c (meta_string S CLIENT_KEY_KEY) (si_client_key_pem idt)"
    "reads ct c (meta_string S CA_CERT_KEY) (si_ca_cert_pem idt)"
    using reads_account_id [OF assms(1)] reads_meta_string [OF assms(1)] reads_get [OF assms(1), of c]
    unfolding identity_at_def identity_ok_def by metis+
  note parts = this
  have len: "length (si_secret idt) = IDENTITY_SECRET_KEY_LEN" using assms(3) by (simp add: identity_ok_def model_defs)
  show ?thesis
    unfolding stored_identity_def
    by (rule reads_bind [OF parts(1)], simp only: option.case, rule reads_bind [OF parts(2)],
        simp only: option.case len not_True_eq_False simp_thms if_False, rule reads_bind [OF parts(3)],
        rule reads_bind [OF parts(4)], rule reads_bind [OF parts(5)], cases idt, simp add: reads_pure)
qed

text \<open>
  C40: A registered identity survives: once \<open>set_identity\<close> has returned, \<open>identity\<close> gives back
  exactly the account id, secret and PEM texts that were stored, or reports that the database
  failed; it never reports the record corrupt or missing.
\<close>

theorem identity_round_trip:
  assumes "sled_laws S ct" and "identity_ok idt"
    and "set_identity S idt w = (Inr (), w')" and "stored_identity S w' = (r, w'')"
  shows "r = Inr (Some idt) \<or> (\<exists>e. r = Inl (StoreError e))"
proof -
  have "identity_at (ct w' META_TREE) idt"
    using set_identity_Inr [OF assms(1,3)] meta_keys_distinct by (simp add: identity_at_def)
  from reads_identity [where c = "ct w'", OF assms(1) this assms(2)] assms(4) show ?thesis unfolding reads_def by blast
qed

section \<open>Concrete runs\<close>

text \<open>
  A database in memory that never fails, and a codec for coins of small denominations (and bundles
  of at most one coin), which satisfy the laws.
\<close>

record demo_machine =
  dm_trees :: "string \<Rightarrow> (bytes \<times> bytes) list"

definition demo_trees :: "'x demo_machine_scheme \<Rightarrow> string \<Rightarrow> bytes \<Rightarrow> bytes option" where
  "demo_trees w t k = map_of (dm_trees w t) k"

definition demo_sled :: "'x demo_machine_scheme sled" where
  "demo_sled =
     \<lparr>sled_open = (\<lambda>_. ret ()), sled_open_tree = (\<lambda>_. ret ()),
      sled_insert = (\<lambda>t k v w. (Inr (), w\<lparr>dm_trees := (dm_trees w)(t := (k, v) # dm_trees w t)\<rparr>)),
      sled_get = (\<lambda>t k w. (Inr (map_of (dm_trees w t) k), w)),
      sled_remove = (\<lambda>t k w. (Inr (map_of (dm_trees w t) k),
        w\<lparr>dm_trees := (dm_trees w)(t := AList.delete k (dm_trees w t))\<rparr>)),
      sled_iter = (\<lambda>t w. map Inr (AList.clearjunk (dm_trees w t))),
      sled_flush = ret ()\<rparr>"

lemma inj_map_Inr: "map Inr xs = map Inr ys \<longleftrightarrow> xs = ys"
  by (rule inj_map_eq_map) simp

lemma sled_laws_demo: "sled_laws demo_sled demo_trees"
  unfolding sled_laws_def writes_def
  by (auto simp: demo_sled_def demo_trees_def fun_eq_iff inj_map_Inr map_of_clearjunk distinct_clearjunk
      AList.delete_conv')

definition demo_encode :: "Coin \<Rightarrow> bytes" where
  "demo_encode c = scheme_id c # ucast (denomination_cents c) # of_nat (length (serial_number c)) #
     serial_number c @ signature c"

fun demo_decode :: "bytes \<Rightarrow> string + Coin" where
  "demo_decode (s # d # n # b) =
     Inr \<lparr>scheme_id = s, denomination_cents = ucast d, serial_number = take (unat n) b, signature = drop (unat n) b\<rparr>"
| "demo_decode _ = Inl ''eof''"

definition demo_small :: "Coin \<Rightarrow> bool" where
  "demo_small c \<longleftrightarrow> unat (denomination_cents c) < 256 \<and> length (serial_number c) < 256"

definition demo_json :: coin_json where
  "demo_json =
     \<lparr>coin_to_vec = (\<lambda>c. if demo_small c then Inr (demo_encode c) else Inl ''large''),
      coin_from_slice = demo_decode,
      bundle_to_vec_pretty = (\<lambda>cs. case cs of [] \<Rightarrow> Inr []
         | [c] \<Rightarrow> if demo_small c then Inr (demo_encode c) else Inl ''large'' | _ \<Rightarrow> Inl ''large''),
      bundle_from_slice = (\<lambda>b. if b = [] then Inr [] else bind_result (demo_decode b) (\<lambda>c. Inr [c]))\<rparr>"

lemma demo_decode_encode: "demo_small c \<Longrightarrow> demo_decode (demo_encode c) = Inr c"
proof -
  assume small: "demo_small c"
  then have "unat (of_nat (length (serial_number c)) :: u8) = length (serial_number c)"
    by (simp add: demo_small_def unat_of_nat)
  moreover have "ucast (ucast (denomination_cents c) :: u8) = denomination_cents c"
  proof -
    have "unat (ucast (denomination_cents c) :: u8) = unat (denomination_cents c)"
      using small by (simp add: demo_small_def unsigned_ucast_eq take_bit_nat_eq_self)
    moreover have "unat (ucast b :: u64) = unat b" for b :: u8
    proof -
      have "unat b < 2 ^ LENGTH(8)" by (rule unsigned_less)
      then have "unat b < 2 ^ 64" by simp
      then show ?thesis by (simp add: unsigned_ucast_eq take_bit_nat_eq_self)
    qed
    ultimately show ?thesis by (simp add: word_unat_eq_iff)
  qed
  ultimately show ?thesis by (simp add: demo_encode_def)
qed

lemma json_laws_demo: "json_laws demo_json"
  unfolding json_laws_def
  by (auto simp: demo_json_def demo_decode_encode split: if_splits list.splits) (simp_all add: demo_encode_def)

definition demo_empty :: demo_machine where
  "demo_empty = \<lparr>dm_trees = (\<lambda>_. [])\<rparr>"

definition demo_small_coin :: Coin where
  "demo_small_coin = \<lparr>scheme_id = 0, denomination_cents = 64, serial_number = replicate 32 7, signature = [1, 2]\<rparr>"

lemma demo_empty_wf: "coins_wf demo_json (demo_trees demo_empty)"
  by (simp add: coins_wf_def demo_trees_def demo_empty_def)

theorem store_refines_map_witness:
  "held demo_json (demo_trees (snd (put_coin demo_sled demo_json demo_small_coin demo_empty))) (replicate 32 7) =
     Some demo_small_coin"
proof -
  obtain w' where put: "put_coin demo_sled demo_json demo_small_coin demo_empty = (Inr (), w')"
    by (simp add: put_coin_def demo_sled_def demo_json_def demo_small_def demo_small_coin_def map_err_op_def catch_op_def)
  with store_refines_map [OF sled_laws_demo json_laws_demo demo_empty_wf]
  have "held demo_json (demo_trees w') = (held demo_json (demo_trees demo_empty))(serial_number demo_small_coin \<mapsto> demo_small_coin)"
    by blast
  with put show ?thesis by (simp add: demo_small_coin_def)
qed

definition demo_identity :: StoredIdentity where
  "demo_identity = \<lparr>si_account_id = ''bob'', si_secret = replicate 31 0 @ [3], si_client_cert_pem = ''cert'',
     si_client_key_pem = ''key'', si_ca_cert_pem = ''ca''\<rparr>"

lemma demo_identity_ok: "identity_ok demo_identity"
  unfolding identity_ok_def by (intro conjI utf8_ascii) (simp_all add: demo_identity_def str_bytes_def)

theorem identity_round_trip_witness:
  "fst (stored_identity demo_sled (snd (set_identity demo_sled demo_identity demo_empty))) = Inr (Some demo_identity)"
proof -
  obtain w' where set: "set_identity demo_sled demo_identity demo_empty = (Inr (), w')"
    by (simp add: set_identity_def demo_sled_def map_err_op_def catch_op_def)
  obtain r w'' where got: "stored_identity demo_sled w' = (r, w'')" by fastforce
  have "r \<noteq> Inl (StoreError e)" for e
    using got by (auto simp: stored_identity_def stored_account_id_def meta_string_def demo_sled_def map_err_op_def
        catch_op_def bind_op_def ok_or_def split: option.splits if_splits)
  with identity_round_trip [OF sled_laws_demo demo_identity_ok set got] set got show ?thesis by auto
qed

end
