(* ===== verification/Postgres.thy ===== *)
theory Postgres
  imports Prelude "HOL-Library.AList"
begin

text \<open>
  The database as the bank and the registry use it. Tables are lists of keyed rows, one row per
  primary key, in the order a scan returns them; the SQL statements the sources contain
  (\<open>INSERT ... ON CONFLICT DO NOTHING\<close>, keyed \<open>UPDATE\<close>, \<open>SELECT ... WHERE key = $1\<close>,
  \<open>DELETE ... WHERE\<close>) are functions on them.

  The Postgres server and the network to it can fail at any call. The state carries a script of
  what happens to the calls still to come: a call succeeds (\<open>Ack\<close>), is lost before it takes
  effect (\<open>Lost\<close>), or takes effect while its acknowledgement is lost (\<open>Unacked\<close>). Once the
  script is used up, calls succeed. Every theorem that mentions no script holds for all of them.
  A transaction is atomic: its writes become visible together at the commit, and not at all when
  it is dropped, fails, or loses its commit. The definition \<open>transaction\<close> runs it with nothing in
  between. The server does not promise that: at its default level, READ COMMITTED, every statement
  sees what others have committed by then, and it is the locks of the bank's transactions
  (\<open>SELECT ... FOR UPDATE\<close>, unique keys and row updates) that make their writes come out as if alone. \<open>transaction_between\<close> is a transaction whose
  reads are separated from its writes by the commits of others; the registry's transactions that
  decide on what they read without a lock are stated with it.
\<close>

section \<open>Faults and errors\<close>

datatype fault = Ack | Lost | Unacked

datatype pg_error =
    Connection_Lost
  | Unique_Violation string
  | Check_Violation string
  | Bigint_Out_Of_Range
  | Config_Error string

record pg =
  faults :: "fault list"

definition next_fault :: "'x pg_scheme \<Rightarrow> fault \<times> 'x pg_scheme" where
  "next_fault s =
     (case faults s of [] \<Rightarrow> (Ack, s) | f # fs \<Rightarrow> (f, s\<lparr>faults := fs\<rparr>))"

text \<open>A predicate or observation of the tables does not look at the script.\<close>

definition fault_free :: "('x pg_scheme \<Rightarrow> 'a) \<Rightarrow> bool" where
  "fault_free P \<longleftrightarrow> (\<forall>s fs. P (s\<lparr>faults := fs\<rparr>) = P s)"

lemma next_fault_Nil [simp]: "faults s = [] \<Longrightarrow> next_fault s = (Ack, s)"
  by (simp add: next_fault_def)

lemma next_fault_Cons: "faults s = f # fs \<Longrightarrow> next_fault s = (f, s\<lparr>faults := fs\<rparr>)"
  by (simp add: next_fault_def)

lemma next_fault_faults: "next_fault s = (f, s') \<Longrightarrow> \<exists>fs. s' = s\<lparr>faults := fs\<rparr>"
  by (cases "faults s") (auto simp: next_fault_def intro: exI [of _ "[]"])

lemma next_fault_keeps:
  "fault_free P \<Longrightarrow> next_fault s = (f, s') \<Longrightarrow> P s' = P s"
  by (auto simp: fault_free_def dest: next_fault_faults)

section \<open>Statements, connections and transactions\<close>

text \<open>
  A statement maps the tables to a result and new tables, or to the error the server raises.
\<close>

type_synonym ('s, 'a) stmt = "'s \<Rightarrow> pg_error + 'a \<times> 's"

text \<open>\<open>pool.get().await?\<close>: a connection from the pool, or the pool error.\<close>

definition pool_get :: "'e \<Rightarrow> ('x pg_scheme, 'e, unit) op" where
  "pool_get pool s = (case next_fault s of (f, s') \<Rightarrow> if f = Ack then (Inr (), s') else (Inl pool, s'))"

text \<open>\<open>execute(...).await?\<close> and \<open>query(...).await?\<close> on a connection or inside a transaction.\<close>

definition execute :: "(pg_error \<Rightarrow> 'e) \<Rightarrow> ('x pg_scheme, 'a) stmt \<Rightarrow> ('x pg_scheme, 'e, 'a) op" where
  "execute db st s =
     (case next_fault s of (f, s1) \<Rightarrow>
        if f = Lost then (Inl (db Connection_Lost), s1)
        else (case st s1 of
                Inl e \<Rightarrow> (Inl (db e), s1)
              | Inr (a, s2) \<Rightarrow> if f = Ack then (Inr a, s2) else (Inl (db Connection_Lost), s2)))"

definition query :: "(pg_error \<Rightarrow> 'e) \<Rightarrow> ('x pg_scheme \<Rightarrow> 'a) \<Rightarrow> ('x pg_scheme, 'e, 'a) op" where
  "query db q s =
     (case next_fault s of (f, s1) \<Rightarrow>
        if f = Ack then (Inr (q s1), s1) else (Inl (db Connection_Lost), s1))"

text \<open>
  How a transaction body ends: with \<open>tx.commit().await?\<close>, or by returning early, which drops the
  transaction and rolls it back. An error in the body drops it too.
\<close>

datatype 'a tx_end = Commit 'a | Rollback 'a

definition rollback :: "'x pg_scheme \<Rightarrow> 'x pg_scheme \<Rightarrow> 'x pg_scheme" where
  "rollback s s' = s\<lparr>faults := faults s'\<rparr>"

definition transaction :: "(pg_error \<Rightarrow> 'e) \<Rightarrow> ('x pg_scheme, 'e, 'a tx_end) op
    \<Rightarrow> ('x pg_scheme, 'e, 'a) op" where
  "transaction db body s =
     (case next_fault s of (f0, s0) \<Rightarrow>
        if f0 \<noteq> Ack then (Inl (db Connection_Lost), s0)
        else (case body s0 of
            (Inl e, s1) \<Rightarrow> (Inl e, rollback s0 s1)
          | (Inr (Rollback a), s1) \<Rightarrow> (Inr a, rollback s0 s1)
          | (Inr (Commit a), s1) \<Rightarrow>
              (case next_fault s1 of
                 (Ack, s2) \<Rightarrow> (Inr a, s2)
               | (Lost, s2) \<Rightarrow> (Inl (db Connection_Lost), rollback s0 s2)
               | (Unacked, s2) \<Rightarrow> (Inl (db Connection_Lost), s2))))"

lemma pool_get_ok [simp]: "faults s = [] \<Longrightarrow> pool_get pool s = (Inr (), s)"
  by (simp add: pool_get_def)

lemma execute_ok [simp]:
  "faults s = [] \<Longrightarrow> execute db st s =
     (case st s of Inl e \<Rightarrow> (Inl (db e), s) | Inr (a, s') \<Rightarrow> (Inr a, s'))"
  by (simp add: execute_def split: sum.splits)

lemma query_ok [simp]: "faults s = [] \<Longrightarrow> query db q s = (Inr (q s), s)"
  by (simp add: query_def)

lemma rollback_ok [simp]: "faults s = faults s' \<Longrightarrow> rollback s s' = s"
  by (simp add: rollback_def)

lemma transaction_commit_ok:
  "faults s = [] \<Longrightarrow> body s = (Inr (Commit a), s') \<Longrightarrow> faults s' = [] \<Longrightarrow>
   transaction db body s = (Inr a, s')"
  by (simp add: transaction_def)

lemma transaction_rollback_ok:
  "faults s = [] \<Longrightarrow> body s = (Inr (Rollback a), s') \<Longrightarrow> faults s' = [] \<Longrightarrow>
   transaction db body s = (Inr a, s)"
  by (simp add: transaction_def)

lemma transaction_error_ok:
  "faults s = [] \<Longrightarrow> body s = (Inl e, s') \<Longrightarrow> faults s' = [] \<Longrightarrow>
   transaction db body s = (Inl e, s)"
  by (simp add: transaction_def)

lemmas transaction_ok = transaction_commit_ok transaction_rollback_ok transaction_error_ok

text \<open>
  At READ COMMITTED: the reads of a transaction, then \<open>others\<close>, the effect on the tables of what
  other connections commit meanwhile, then its writes on the tables they left. The reads change
  nothing; the writes run as a transaction whose begin has been acknowledged. The script is this
  connection's own, so \<open>others\<close> neither sees nor uses it.
\<close>

definition committed :: "('x pg_scheme \<Rightarrow> 'x pg_scheme) \<Rightarrow> 'x pg_scheme \<Rightarrow> 'x pg_scheme" where
  "committed others s = (others (s\<lparr>faults := []\<rparr>))\<lparr>faults := faults s\<rparr>"

definition transaction_between :: "(pg_error \<Rightarrow> 'e) \<Rightarrow> ('x pg_scheme \<Rightarrow> 'x pg_scheme) \<Rightarrow> ('x pg_scheme, 'e, 'r) op
    \<Rightarrow> ('r \<Rightarrow> ('x pg_scheme, 'e, 'a tx_end) op) \<Rightarrow> ('x pg_scheme, 'e, 'a) op" where
  "transaction_between db others reads writes s =
     (case next_fault s of (f0, s0) \<Rightarrow>
        if f0 \<noteq> Ack then (Inl (db Connection_Lost), s0)
        else (case reads s0 of
            (Inl e, s1) \<Rightarrow> (Inl e, rollback s0 s1)
          | (Inr x, s1) \<Rightarrow> transaction db (writes x) ((committed others s1)\<lparr>faults := Ack # faults s1\<rparr>)))"

section \<open>Hoare rules\<close>

lemma keeps_pool_get [wp, intro]: "fault_free I \<Longrightarrow> keeps I (pool_get pool)"
  by (auto simp: pool_get_def keeps_def next_fault_keeps split: prod.splits)

lemma keeps_query [wp, intro]: "fault_free I \<Longrightarrow> keeps I (query db q)"
  by (auto simp: query_def keeps_def next_fault_keeps split: prod.splits)

lemma keeps_execute [wp, intro]:
  assumes "fault_free I" and "\<And>s a s'. I s \<Longrightarrow> st s = Inr (a, s') \<Longrightarrow> I s'"
  shows "keeps I (execute db st)"
proof (rule keepsI)
  fix s r s'
  assume I: "I s" and run: "execute db st s = (r, s')"
  obtain f s1 where n: "next_fault s = (f, s1)" by fastforce
  with assms(1) I have I1: "I s1" by (auto dest: next_fault_keeps)
  show "I s'"
  proof (cases "st s1")
    case (Inl e)
    with n run I1 show ?thesis by (auto simp: execute_def split: if_splits)
  next
    case (Inr p)
    then obtain a s2 where p: "st s1 = Inr (a, s2)" by (cases p) auto
    with I1 have "I s2" by (rule assms(2))
    with n run p I1 show ?thesis by (auto simp: execute_def split: if_splits)
  qed
qed

text \<open>
  A transaction keeps an observation of the tables when its body does so on the committing path:
  the intermediate states are never seen.
\<close>

lemma keeps_transaction:
  assumes ff: "fault_free I"
    and body: "\<And>s a s'. I s \<Longrightarrow> body s = (Inr (Commit a), s') \<Longrightarrow> I s'"
  shows "keeps I (transaction db body)"
proof (rule keepsI)
  fix s r s'
  assume I: "I s" and run: "transaction db body s = (r, s')"
  obtain f0 s0 where n: "next_fault s = (f0, s0)" by fastforce
  with ff I have I0: "I s0" by (auto dest: next_fault_keeps)
  then have roll: "I (rollback s0 t)" for t
    using ff by (simp add: rollback_def fault_free_def)
  obtain q s1 where b: "body s0 = (q, s1)" by fastforce
  show "I s'"
  proof (cases "\<exists>a. q = Inr (Commit a)")
    case True
    then obtain a where q: "q = Inr (Commit a)" by blast
    with I0 b have I1: "I s1" by (auto intro: body)
    obtain f s2 where n2: "next_fault s1 = (f, s2)" by fastforce
    with ff I1 have "I s2" by (auto dest: next_fault_keeps)
    with run n b q n2 I0 roll show ?thesis
      by (cases f) (auto simp: transaction_def split: if_splits)
  next
    case False
    with run n b I0 roll show ?thesis
      by (auto simp: transaction_def split: if_splits sum.splits tx_end.splits)
  qed
qed

lemma keeps_transaction_body [wp, intro]:
  "fault_free I \<Longrightarrow> keeps I body \<Longrightarrow> keeps I (transaction db body)"
  by (rule keeps_transaction) (auto dest: keepsD)

text \<open>Success of a transaction means that its body committed or rolled back with that result.\<close>

lemma transaction_Inr:
  assumes "transaction db body s = (Inr a, s')"
  obtains (commit) fs s1 fs' where "body (s\<lparr>faults := fs\<rparr>) = (Inr (Commit a), s1)" "s' = s1\<lparr>faults := fs'\<rparr>"
  | (rolled) fs s1 fs' where "body (s\<lparr>faults := fs\<rparr>) = (Inr (Rollback a), s1)" "s' = s\<lparr>faults := fs'\<rparr>"
proof -
  obtain f0 s0 where n: "next_fault s = (f0, s0)" by fastforce
  then obtain fs where s0: "s0 = s\<lparr>faults := fs\<rparr>" by (auto dest: next_fault_faults)
  obtain q s1 where b: "body s0 = (q, s1)" by fastforce
  obtain f s2 where n2: "next_fault s1 = (f, s2)" by fastforce
  then obtain fs' where s2: "s2 = s1\<lparr>faults := fs'\<rparr>" by (auto dest: next_fault_faults)
  have "q = Inr (Commit a) \<and> s' = s2 \<or> q = Inr (Rollback a) \<and> s' = rollback s0 s1"
    using assms n b n2
    by (auto simp: transaction_def split: if_splits sum.splits tx_end.splits fault.splits)
  then show thesis
  proof
    assume "q = Inr (Commit a) \<and> s' = s2"
    with b s0 s2 commit show thesis by blast
  next
    assume "q = Inr (Rollback a) \<and> s' = rollback s0 s1"
    with b s0 rolled show thesis by (auto simp: rollback_def)
  qed
qed

lemma hoare_pool_get:
  "fault_free P \<Longrightarrow> (\<And>s. P s \<Longrightarrow> E pool s) \<Longrightarrow> hoare P (pool_get pool) (\<lambda>_. P) E"
  by (auto simp: hoare_def pool_get_def next_fault_keeps split: prod.splits)

lemma hoare_query:
  assumes "fault_free P" and "fault_free q" and "\<And>s e. P s \<Longrightarrow> E e s"
  shows "hoare P (query db q) (\<lambda>a s. P s \<and> a = q s) E"
  using assms by (auto simp: hoare_def query_def next_fault_keeps split: prod.splits)

lemma hoare_execute:
  assumes ff: "fault_free P"
    and st: "\<And>s a s'. P s \<Longrightarrow> st s = Inr (a, s') \<Longrightarrow> Q a s'"
    and E: "\<And>e s. P s \<Longrightarrow> E e s" "\<And>a e s. Q a s \<Longrightarrow> E e s"
  shows "hoare P (execute db st) Q E"
proof -
  have "P s \<Longrightarrow> execute db st s = (r, s') \<Longrightarrow> (case r of Inl e \<Rightarrow> E e s' | Inr a \<Rightarrow> Q a s')" for s r s'
  proof -
    assume P: "P s" and run: "execute db st s = (r, s')"
    obtain f s1 where n: "next_fault s = (f, s1)" by fastforce
    with ff P have P1: "P s1" by (auto dest: next_fault_keeps)
    then have "Q a t \<and> E e t" if "st s1 = Inr (a, t)" for a t e
      using st [OF P1 that] E(2) by blast
    with run n P1 E(1) show ?thesis by (auto simp: execute_def split: if_splits sum.splits)
  qed
  then show ?thesis by (fastforce simp: hoare_def split: prod.splits sum.splits)
qed

lemma hoare_transaction:
  assumes ff: "fault_free P" "\<And>a. fault_free (Q a)"
    and commit: "\<And>s a s'. P s \<Longrightarrow> body s = (Inr (Commit a), s') \<Longrightarrow> Q a s'"
    and rolled: "\<And>s a s'. P s \<Longrightarrow> body s = (Inr (Rollback a), s') \<Longrightarrow> Q a s"
    and E: "\<And>e s. P s \<Longrightarrow> E e s" "\<And>a e s. Q a s \<Longrightarrow> E e s"
  shows "hoare P (transaction db body) Q E"
proof (rule hoareI)
  fix s a s'
  assume P: "P s" and run: "transaction db body s = (Inr a, s')"
  have P': "P (s\<lparr>faults := fs\<rparr>)" for fs using P ff(1) by (simp add: fault_free_def)
  show "Q a s'"
    using run
  proof (rule transaction_Inr)
    fix fs s1 fs'
    assume "body (s\<lparr>faults := fs\<rparr>) = (Inr (Commit a), s1)" "s' = s1\<lparr>faults := fs'\<rparr>"
    with commit [OF P'] ff(2) show "Q a s'" by (auto simp: fault_free_def)
  next
    fix fs s1 fs'
    assume "body (s\<lparr>faults := fs\<rparr>) = (Inr (Rollback a), s1)" "s' = s\<lparr>faults := fs'\<rparr>"
    with rolled [OF P'] ff(2) show "Q a s'" by (fastforce simp: fault_free_def)
  qed
next
  fix s e s'
  assume P: "P s" and run: "transaction db body s = (Inl e, s')"
  obtain f0 s0 where n: "next_fault s = (f0, s0)" by fastforce
  with ff P have P0: "P s0" by (auto dest: next_fault_keeps)
  then have roll: "E e (rollback s0 t)" for t
    using ff E by (simp add: rollback_def fault_free_def)
  obtain q s1 where b: "body s0 = (q, s1)" by fastforce
  obtain f s2 where n2: "next_fault s1 = (f, s2)" by fastforce
  have "E e s2" if "q = Inr (Commit a)" for a
  proof -
    from commit [OF P0] b that have "Q a s1" by blast
    with n2 ff(2) have "Q a s2" using next_fault_keeps by blast
    then show ?thesis by (rule E(2))
  qed
  with run n b n2 P0 E(1) roll show "E e s'"
    by (auto simp: transaction_def split: if_splits sum.splits tx_end.splits fault.splits)
qed

text \<open>The usual way to verify a transaction: a triple for its body that says how it ends.\<close>

lemma hoare_transaction_body:
  assumes ff: "fault_free P" "\<And>a. fault_free (Q a)"
    and body: "hoare P body
      (\<lambda>x s. case x of Commit a \<Rightarrow> Q a s | Rollback a \<Rightarrow> \<forall>s0. P s0 \<longrightarrow> Q a s0) (\<lambda>_ _. True)"
    and E: "\<And>e s. P s \<Longrightarrow> E e s" "\<And>a e s. Q a s \<Longrightarrow> E e s"
  shows "hoare P (transaction db body) Q E"
  using ff
proof (rule hoare_transaction)
  show "Q a s'" if "P s" "body s = (Inr (Commit a), s')" for s a s'
    using hoare_Inr [OF body that] by simp
  show "Q a s" if "P s" "body s = (Inr (Rollback a), s')" for s a s'
    using hoare_Inr [OF body that] that(1) by simp
qed (use E in blast)+

text \<open>Equal up to the fault script.\<close>

definition same_tables :: "'x pg_scheme \<Rightarrow> 'x pg_scheme \<Rightarrow> bool" where
  "same_tables h s \<longleftrightarrow> s\<lparr>faults := []\<rparr> = h\<lparr>faults := []\<rparr>"

lemma same_tables_refl [simp]: "same_tables s s"
  by (simp add: same_tables_def)

lemma same_tables_faults [simp]: "same_tables h (s\<lparr>faults := fs\<rparr>) = same_tables h s"
  by (simp add: same_tables_def)

lemma fault_free_same [simp]: "fault_free (same_tables h)"
  by (simp add: fault_free_def)

lemma same_tablesD: "same_tables h s \<Longrightarrow> \<exists>fs. s = h\<lparr>faults := fs\<rparr>"
proof -
  assume "same_tables h s"
  then have "s\<lparr>faults := []\<rparr>\<lparr>faults := faults s\<rparr> = h\<lparr>faults := []\<rparr>\<lparr>faults := faults s\<rparr>"
    by (simp only: same_tables_def)
  then have "s = h\<lparr>faults := faults s\<rparr>" by simp
  then show ?thesis by (rule exI)
qed

lemma same_tables_trans: "same_tables h s \<Longrightarrow> same_tables s t \<Longrightarrow> same_tables h t"
  by (simp add: same_tables_def)

lemma committed_id [simp]: "committed (\<lambda>s. s) s = s"
  by (simp add: committed_def)

lemma committed_same: "same_tables h s \<Longrightarrow> same_tables (committed others h) (committed others s)"
  by (simp add: committed_def same_tables_def)

text \<open>With no commits of others in between, it is the transaction.\<close>

lemma transaction_between_alone:
  assumes "\<And>h. keeps (same_tables h) reads"
  shows "transaction_between db (\<lambda>s. s) reads writes s = transaction db (bind_op reads writes) s"
proof -
  obtain f0 s0 where n: "next_fault s = (f0, s0)" by fastforce
  obtain r s1 where reads: "reads s0 = (r, s1)" by fastforce
  have "same_tables s0 s1" using keepsD [OF assms same_tables_refl reads] .
  then obtain fs where s1: "s1 = s0\<lparr>faults := fs\<rparr>" by (blast dest: same_tablesD)
  then have "rollback s1 t = rollback s0 t" for t by (simp add: rollback_def)
  with n reads show ?thesis
    by (auto simp: transaction_between_def transaction_def bind_op_def next_fault_def [of "_\<lparr>faults := Ack # _\<rparr>"]
        split: sum.splits prod.splits tx_end.splits fault.splits)
qed

lemma transaction_between_ok:
  assumes "faults s = []" and "reads s = (Inr x, s)"
  shows "transaction_between db others reads writes s = transaction db (writes x) (committed others s)"
proof -
  have "faults (committed others s) = []" using assms(1) by (simp add: committed_def)
  then have "(committed others s)\<lparr>faults := []\<rparr> = committed others s" "next_fault (committed others s) = (Ack, committed others s)"
    "next_fault ((committed others s)\<lparr>faults := Ack # fs\<rparr>) = (Ack, (committed others s)\<lparr>faults := fs\<rparr>)" for fs
    by (simp_all add: next_fault_def)
  with assms show ?thesis by (simp add: transaction_between_def transaction_def)
qed

text \<open>
  Its Hoare rule: the reads establish what they return about the tables \<open>h\<close> they saw, the writes
  start on the tables others have left.
\<close>

lemma hoare_transaction_between:
  assumes reads: "hoare (same_tables h) reads (\<lambda>x s. R x \<and> same_tables h s) (\<lambda>_ _. True)"
    and writes: "\<And>x. R x \<Longrightarrow> hoare (same_tables (committed others h)) (transaction db (writes x)) Q E"
    and E: "\<And>e s. same_tables h s \<Longrightarrow> E e s"
  shows "hoare (same_tables h) (transaction_between db others reads writes) Q E"
proof -
  have "case transaction_between db others reads writes s of (Inr a, s') \<Rightarrow> Q a s' | (Inl e, s') \<Rightarrow> E e s'"
    if s: "same_tables h s" for s
  proof -
    obtain f0 s0 where n: "next_fault s = (f0, s0)" by fastforce
    with s have s0: "same_tables h s0" using next_fault_keeps [OF fault_free_same n] by blast
    obtain r s1 where run: "reads s0 = (r, s1)" by fastforce
    show ?thesis
    proof (cases r)
      case (Inl e)
      have "same_tables h (rollback s0 s1)" using s0 by (simp add: rollback_def)
      with n run Inl s0 E show ?thesis by (simp add: transaction_between_def)
    next
      case (Inr x)
      with hoare_Inr [OF reads s0] run have x: "R x" "same_tables h s1" by auto
      from committed_same [OF x(2), of others]
      have "same_tables (committed others h) ((committed others s1)\<lparr>faults := Ack # faults s1\<rparr>)" by simp
      with writes [OF x(1)] n run Inr s0 E show ?thesis
        by (auto simp: transaction_between_def hoare_def split: prod.splits sum.splits)
    qed
  qed
  then show ?thesis by (fastforce simp: hoare_def split: prod.splits sum.splits)
qed

text \<open>What a successful statement did.\<close>

lemma pool_get_Inr: "pool_get pool s = (Inr a, s') \<Longrightarrow> \<exists>fs. s' = s\<lparr>faults := fs\<rparr>"
  by (auto simp: pool_get_def split: prod.splits if_splits dest: next_fault_faults)

lemma query_Inr: "query db q s = (Inr a, s') \<Longrightarrow> \<exists>fs. s' = s\<lparr>faults := fs\<rparr> \<and> a = q s'"
  by (auto simp: query_def split: prod.splits if_splits dest: next_fault_faults)

lemma execute_Inr: "execute db st s = (Inr a, s') \<Longrightarrow> \<exists>fs. st (s\<lparr>faults := fs\<rparr>) = Inr (a, s')"
  by (auto simp: execute_def split: prod.splits if_splits sum.splits dest: next_fault_faults)

section \<open>Keyed tables\<close>

type_synonym ('k, 'v) table = "('k \<times> 'v) list"

text \<open>\<open>SELECT ... WHERE key = $1\<close>, as \<open>query_opt\<close> returns it.\<close>

abbreviation select_key :: "('k, 'v) table \<Rightarrow> 'k \<Rightarrow> 'v option" where
  "select_key t k \<equiv> map_of t k"

text \<open>
  \<open>INSERT ... ON CONFLICT DO NOTHING\<close> returns the number of rows inserted; a plain \<open>INSERT\<close> of
  an existing key is a unique violation.
\<close>

definition insert_row :: "'k \<Rightarrow> 'v \<Rightarrow> ('k, 'v) table \<Rightarrow> nat \<times> ('k, 'v) table" where
  "insert_row k v t = (if k \<in> fst ` set t then (0, t) else (1, t @ [(k, v)]))"

text \<open>Keyed \<open>UPDATE\<close>: the number of rows changed and the new table.\<close>

definition update_row :: "'k \<Rightarrow> ('v \<Rightarrow> 'v) \<Rightarrow> ('k, 'v) table \<Rightarrow> nat \<times> ('k, 'v) table" where
  "update_row k g t =
     ((if k \<in> fst ` set t then 1 else 0), map (\<lambda>(k', v). (k', if k' = k then g v else v)) t)"

text \<open>\<open>DELETE ... WHERE p\<close>.\<close>

definition delete_rows :: "('k \<Rightarrow> 'v \<Rightarrow> bool) \<Rightarrow> ('k, 'v) table \<Rightarrow> ('k, 'v) table" where
  "delete_rows p t = filter (\<lambda>(k, v). \<not> p k v) t"

text \<open>One row per primary key.\<close>

definition keyed :: "('k, 'v) table \<Rightarrow> bool" where
  "keyed t \<longleftrightarrow> distinct (map fst t)"

lemma insert_row_new: "map_of t k = None \<Longrightarrow> insert_row k v t = (1, t @ [(k, v)])"
  by (auto simp: insert_row_def map_of_eq_None_iff)

lemma insert_row_old: "map_of t k = Some w \<Longrightarrow> insert_row k v t = (0, t)"
  by (force simp: insert_row_def dest: map_of_SomeD)

lemma select_insert_row:
  "map_of (snd (insert_row k v t)) k' =
     (if k' = k \<and> map_of t k = None then Some v else map_of t k')"
  by (cases "map_of t k") (auto simp: insert_row_new insert_row_old map_add_def split: option.splits)

lemma select_update_row:
  "map_of (snd (update_row k g t)) k' = (if k' = k then map_option g (map_of t k) else map_of t k')"
  by (induction t) (auto simp: update_row_def)

lemma keys_update_row [simp]: "map fst (snd (update_row k g t)) = map fst t"
  by (induction t) (auto simp: update_row_def)

lemma update_row_count: "fst (update_row k g t) = (case map_of t k of None \<Rightarrow> 0 | Some _ \<Rightarrow> 1)"
  by (force simp: update_row_def map_of_eq_None_iff split: option.splits dest: map_of_SomeD)

lemma keyed_insert_row [simp]: "keyed t \<Longrightarrow> keyed (snd (insert_row k v t))"
  by (auto simp: keyed_def insert_row_def)

lemma insert_row_keyed: "insert_row k v t = (n, t') \<Longrightarrow> keyed t \<Longrightarrow> keyed t'"
  by (metis keyed_insert_row snd_conv)

lemma keyed_update_row [simp]: "keyed (snd (update_row k g t)) = keyed t"
  by (simp add: keyed_def)

lemma keyed_delete_rows [simp]: "keyed t \<Longrightarrow> keyed (delete_rows p t)"
  by (simp add: keyed_def delete_rows_def distinct_map_filter)

lemma keyed_Nil [simp]: "keyed []"
  by (simp add: keyed_def)

lemma select_delete_rows:
  assumes "keyed t"
  shows "map_of (delete_rows p t) k =
    (case map_of t k of None \<Rightarrow> None | Some v \<Rightarrow> if p k v then None else Some v)"
  using assms
  by (induction t)
    (force simp: keyed_def delete_rows_def map_of_eq_None_iff split: option.splits)+

text \<open>Sums over a column, and how the statements change them.\<close>

definition sum_rows :: "('k \<Rightarrow> 'v \<Rightarrow> int) \<Rightarrow> ('k, 'v) table \<Rightarrow> int" where
  "sum_rows f t = (\<Sum>(k, v) \<leftarrow> t. f k v)"

lemma sum_rows_simps [simp]:
  "sum_rows f [] = 0"
  "sum_rows f ((k, v) # t) = f k v + sum_rows f t"
  "sum_rows f (t @ u) = sum_rows f t + sum_rows f u"
  by (simp_all add: sum_rows_def)

lemma sum_rows_insert_new:
  "map_of t k = None \<Longrightarrow> sum_rows f (snd (insert_row k v t)) = sum_rows f t + f k v"
  by (simp add: insert_row_new)

lemma update_row_absent: "map_of t k = None \<Longrightarrow> snd (update_row k g t) = t"
  by (induction t) (auto simp: update_row_def split: if_splits)

lemma update_row_compose:
  "snd (update_row k g (snd (update_row k f t))) = snd (update_row k (\<lambda>v. g (f v)) t)"
  by (induction t) (auto simp: update_row_def)

lemma update_row_same:
  assumes "\<And>v. map_of t k = Some v \<Longrightarrow> g v = v" and "keyed t"
  shows "snd (update_row k g t) = t"
  using assms by (auto simp: update_row_def keyed_def map_of_is_SomeI intro!: map_idI)

lemma update_row_last:
  "map_of t k = None \<Longrightarrow> snd (update_row k g (t @ [(k, v)])) = t @ [(k, g v)]"
  using update_row_absent [of t k g] by (simp add: update_row_def)

lemma sum_rows_update:
  assumes "keyed t" and "map_of t k = Some v"
  shows "sum_rows f (snd (update_row k g t)) = sum_rows f t - f k v + f k (g v)"
  using assms
proof (induction t)
  case (Cons p t)
  obtain k' v' where p: "p = (k', v')" by fastforce
  show ?case
  proof (cases "k' = k")
    case True
    with Cons.prems p have "map_of t k = None" by (simp add: keyed_def map_of_eq_None_iff)
    then have "snd (update_row k g t) = t" by (rule update_row_absent)
    with True Cons.prems p show ?thesis by (simp add: update_row_def)
  next
    case False
    with Cons p show ?thesis by (simp add: keyed_def update_row_def)
  qed
qed simp

text \<open>A sum over a table is a sum over any finite set of keys that has all of its keys.\<close>

lemma sum_rows_keys:
  assumes "keyed t" and "finite A" and "fst ` set t \<subseteq> A"
  shows "sum_rows f t = (\<Sum>k \<in> A. case map_of t k of None \<Rightarrow> 0 | Some v \<Rightarrow> f k v)"
proof -
  let ?g = "\<lambda>k. case map_of t k of None \<Rightarrow> 0 | Some v \<Rightarrow> f k v"
  have dist: "distinct t" "inj_on fst (set t)" using assms(1) by (auto simp: keyed_def distinct_map)
  have "sum_rows f t = (\<Sum>r \<leftarrow> t. ?g (fst r))"
    unfolding sum_rows_def using assms(1)
    by (intro arg_cong [where f = sum_list] map_cong) (auto simp: keyed_def)
  also have "\<dots> = (\<Sum>r \<in> set t. ?g (fst r))"
    using dist(1) by (simp add: sum_list_distinct_conv_sum_set)
  also have "\<dots> = (\<Sum>k \<in> fst ` set t. ?g k)"
    using sum.reindex [OF dist(2), of ?g] by simp
  also have "\<dots> = (\<Sum>k \<in> A. ?g k)"
  proof (rule sum.mono_neutral_left [OF assms(2,3)])
    show "\<forall>k \<in> A - fst ` set t. ?g k = 0" by (metis DiffD2 map_of_eq_None_iff option.case(1))
  qed
  finally show ?thesis .
qed

text \<open>
  The contract of a table keyed by its primary key, as clients use it: inserting is first-wins.
\<close>

locale first_wins =
  fixes register :: "'k \<Rightarrow> 'v \<Rightarrow> 's \<Rightarrow> nat \<times> 's"
    and lookup :: "'s \<Rightarrow> 'k \<Rightarrow> 'v option"
  assumes register_count: "fst (register k v s) = (if lookup s k = None then 1 else 0)"
    and register_lookup: "lookup (snd (register k v s)) k' =
      (if k' = k \<and> lookup s k = None then Some v else lookup s k')"
begin

lemma register_once:
  "fst (register k v s) = 1 \<Longrightarrow> fst (register k w (snd (register k v s))) = 0"
  by (simp add: register_count register_lookup split: if_splits)

lemma register_stable:
  "lookup s k = Some v \<Longrightarrow> lookup (snd (register k' w s)) k = Some v"
  by (auto simp: register_lookup)

lemma register_wins:
  "fst (register k v s) = 1 \<Longrightarrow> lookup (snd (register k v s)) k = Some v"
  by (simp add: register_count register_lookup split: if_splits)

end

interpretation row_insert: first_wins insert_row map_of
proof
  show "fst (insert_row k v t) = (if map_of t k = None then 1 else 0)" for k v and t :: "('a, 'b) table"
    by (simp add: insert_row_def map_of_eq_None_iff)
qed (rule select_insert_row)

end
