(* ===== verification/Nonces.thy ===== *)
theory Nonces
  imports Postgres
begin

text \<open>
  The anti-replay table both services keep, \<open>nonce_store\<close>, and the contract their authentication
  relies on. The bank and the registry run the same two statements on it: the guarded upsert that
  records a nonce unless it is still live, and the purge of what has expired.
\<close>

section \<open>The statements\<close>

text \<open>
  \<open>INSERT ... ON CONFLICT (nonce) DO UPDATE ... WHERE nonce_store.expires_at <= now\<close>: the number
  of rows inserted or updated.
\<close>

definition upsert_nonce :: "string \<Rightarrow> int \<Rightarrow> int \<Rightarrow> (string, int) table \<Rightarrow> nat \<times> (string, int) table" where
  "upsert_nonce nonce expiry now t =
     (case select_key t nonce of
        None \<Rightarrow> insert_row nonce expiry t
      | Some e \<Rightarrow> if e \<le> now then update_row nonce (\<lambda>_. expiry) t else (0, t))"

text \<open>\<open>DELETE FROM nonce_store WHERE expires_at <= now\<close>.\<close>

definition unexpired :: "int \<Rightarrow> (string, int) table \<Rightarrow> (string, int) table" where
  "unexpired now t = delete_rows (\<lambda>_ expires_at. expires_at \<le> now) t"

text \<open>What a check leaves of the table it recorded into: that table, possibly purged.\<close>

definition purged :: "int \<Rightarrow> (string, int) table \<Rightarrow> (string, int) table \<Rightarrow> bool" where
  "purged now t t' \<longleftrightarrow> t' = t \<or> t' = unexpired now t"

lemma upsert_nonce_keyed: "keyed t \<Longrightarrow> keyed (snd (upsert_nonce n e now t))"
  by (simp add: upsert_nonce_def split: option.split)

lemma upsert_nonce_live:
  assumes "map_of t n = Some e" and "now < e"
  shows "map_of (snd (upsert_nonce m x now t)) n = Some e \<and> (m = n \<longrightarrow> fst (upsert_nonce m x now t) = 0)"
  using assms
  by (cases "map_of t m") (auto simp: upsert_nonce_def insert_row_new map_add_def select_update_row)

lemma upsert_nonce_fresh:
  assumes "fst (upsert_nonce n x now t) = 1"
  shows "map_of (snd (upsert_nonce n x now t)) n = Some x"
  using assms
  by (cases "map_of t n")
    (auto simp: upsert_nonce_def insert_row_new map_add_def select_update_row split: if_splits)

lemma purged_keyed: "keyed t \<Longrightarrow> purged now t t' \<Longrightarrow> keyed t'"
  by (auto simp: purged_def unexpired_def)

lemma purged_live: "keyed t \<Longrightarrow> map_of t n = Some e \<Longrightarrow> now < e \<Longrightarrow> purged now t t' \<Longrightarrow> map_of t' n = Some e"
  by (auto simp: purged_def unexpired_def select_delete_rows)

lemma purged_refl [simp, intro]: "purged now t t"
  by (simp add: purged_def)

lemma purged_again: "purged now t t' \<Longrightarrow> purged now t (unexpired now t')"
  by (auto simp: purged_def unexpired_def delete_rows_def)

text \<open>The shape of a service's check: connection, upsert, counter, occasional purge, verdict.\<close>

lemma hoare_nonce_check:
  assumes pool: "hoare P pool (\<lambda>_. P) E" and rec: "hoare P recording (\<lambda>k s. k = n \<and> R s) E"
    and ops: "keeps R ops" and purge: "\<And>a. keeps R (purge a)" and E: "\<And>e s. R s \<Longrightarrow> E e s"
  shows "hoare P (bind_op pool (\<lambda>_. bind_op recording (\<lambda>k. bind_op ops (\<lambda>a. bind_op (purge a) (\<lambda>_.
    ret (k = (1 :: nat))))))) (\<lambda>b s. b = (n = 1) \<and> R s) E"
  by (rule hoare_bind [OF pool], rule hoare_bind [OF rec], rule hoare_pure,
      rule hoare_bind [OF hoare_keeps_err [OF ops E]], assumption,
      rule hoare_bind [OF hoare_keeps_err [OF purge E]], assumption, rule hoare_ret) simp

section \<open>The contract\<close>

text \<open>
  What a service's nonce check does to its table, whatever the database does to the calls: it
  leaves the table alone without reporting the nonce as fresh, or it upserts, reports freshness
  only if a row was written, and may purge. This gives the anti-replay contract.
\<close>

locale nonce_table =
  fixes check :: "string \<Rightarrow> u64 \<Rightarrow> u64 \<Rightarrow> ('s, 'e, bool) op"
    and store :: "'s \<Rightarrow> (string, int) table"
  assumes check_run: "check n now ttl s = (r, s') \<Longrightarrow>
    store s' = store s \<and> r \<noteq> Inr True \<or>
    purged (uint now) (snd (upsert_nonce n (uint now + uint ttl) (uint now) (store s))) (store s') \<and>
      (r = Inr True \<longrightarrow> fst (upsert_nonce n (uint now + uint ttl) (uint now) (store s)) = 1)"

sublocale nonce_table \<subseteq> nonce_guard check "\<lambda>s. map_of (store s)" "\<lambda>s. keyed (store s)"
proof
  fix s n m r s' e and now ttl :: u64
  let ?u = "\<lambda>k. upsert_nonce k (uint now + uint ttl) (uint now) (store s)"
  assume wf: "keyed (store s)"
  then have k: "keyed (snd (?u k))" for k by (rule upsert_nonce_keyed)
  show "keyed (store s')" if "check n now ttl s = (r, s')"
    using check_run [OF that] wf purged_keyed [OF k] by auto
  show "map_of (store s') n = Some (uint now + uint ttl)"
    if "check n now ttl s = (Inr True, s')" "0 < uint ttl"
  proof -
    from check_run [OF that(1)] have "purged (uint now) (snd (?u n)) (store s')" "fst (?u n) = 1" by auto
    from purged_live [OF k upsert_nonce_fresh [OF this(2)] _ this(1)] that(2) show ?thesis by simp
  qed
  assume live: "map_of (store s) n = Some e" "uint now < e"
  show "map_of (store s') n = Some e" if "check m now ttl s = (r, s')"
  proof -
    have "map_of (snd (?u m)) n = Some e" using upsert_nonce_live [OF live] by blast
    then show ?thesis using check_run [OF that] live purged_live [OF k] by metis
  qed
  show "r \<noteq> Inr True" if "check n now ttl s = (r, s')"
  proof -
    have "fst (?u n) = 0" using upsert_nonce_live [OF live] by blast
    then show ?thesis using check_run [OF that] by auto
  qed
qed

end
