(* ===== verification/Http_Auth.thy ===== *)
theory Http_Auth
  imports Proto Nonces
begin

text \<open>
  What the two services' request-signing middleware share (\<open>auth.rs\<close> of the bank and of the
  registry, which are the same text up to the key lookup): the limits, the rejection values, the
  signature decoding, and the contract a handler can rely on behind the middleware.
\<close>

section \<open>Requests and rejections\<close>

text \<open>
  A request as the middleware sees it: method, URI path, the headers whose values are text, and
  the body, absent when the connection fails while it is read.
\<close>

record http_request =
  rq_method :: string
  rq_path :: string
  rq_header :: "string \<Rightarrow> string option"
  rq_body :: "bytes option"

definition MAX_BODY_BYTES :: int where "MAX_BODY_BYTES = 1048576"
definition MAX_TIMESTAMP_SKEW_SECS :: u64 where "MAX_TIMESTAMP_SKEW_SECS = 60"
definition NONCE_TTL_SECS :: u64 where "NONCE_TTL_SECS = 120"

text \<open>\<open>axum::body::to_bytes\<close> with its limit.\<close>

definition to_bytes :: "bytes option \<Rightarrow> int \<Rightarrow> bytes option" where
  "to_bytes body limit =
     (case body of None \<Rightarrow> None | Some b \<Rightarrow> if int (length b) \<le> limit then Some b else None)"

text \<open>
  A rejection: the status and the message, which is either a literal text or the rendering of an
  error value, kept as the value.
\<close>

record 'e AuthRejection =
  rj_status :: int
  rj_message :: "string + 'e"

definition unauthorized :: "string \<Rightarrow> 'e AuthRejection" where
  "unauthorized msg = \<lparr>rj_status = 401, rj_message = Inl msg\<rparr>"

definition bad_request :: "string \<Rightarrow> 'e AuthRejection" where
  "bad_request msg = \<lparr>rj_status = 400, rj_message = Inl msg\<rparr>"

definition headers_rejection :: "AuthHeaderError \<Rightarrow> 'e AuthRejection" where
  "headers_rejection e = \<lparr>rj_status = 400, rj_message = Inl (auth_header_error_to_string e)\<rparr>"

definition internal :: "'e \<Rightarrow> 'e AuthRejection" where
  "internal e = \<lparr>rj_status = 500, rj_message = Inr e\<rparr>"

definition decode_signature :: "digests \<Rightarrow> string \<Rightarrow> 'e AuthRejection + bytes" where
  "decode_signature H hex_signature =
     bind_result (ok_or (unauthorized ''signature is not valid hex'') (hex_decode H hex_signature)) (\<lambda>b.
       if length b = IDENTITY_SIGNATURE_LEN then Inr b
       else Inl (unauthorized ''signature is not 64 bytes''))"

text \<open>The window check on the timestamp, with the saturating additions of the source.\<close>

definition outside_window :: "u64 \<Rightarrow> u64 \<Rightarrow> bool" where
  "outside_window timestamp now \<longleftrightarrow>
     u64_saturating_add timestamp MAX_TIMESTAMP_SKEW_SECS < now \<or>
     timestamp > u64_saturating_add now MAX_TIMESTAMP_SKEW_SECS"

lemma decode_signature_Inr:
  "decode_signature H x = Inr b \<longleftrightarrow> hex_decode H x = Some b \<and> length b = IDENTITY_SIGNATURE_LEN"
  by (auto simp: decode_signature_def bind_result_Inr split: if_splits)

lemma within_window: "\<not> outside_window ts now \<longleftrightarrow> \<bar>uint ts - uint now\<bar> \<le> 60"
proof -
  have "uint (60 :: u64) = 60" by simp
  moreover have "uint ts < 2 ^ LENGTH(64)" "uint now < 2 ^ LENGTH(64)" by (rule uint_bounded)+
  ultimately show ?thesis
    unfolding outside_window_def word_less_def uint_saturating_add MAX_TIMESTAMP_SKEW_SECS_def
    by (auto simp: min_def)
qed

section \<open>Verifying a signed request\<close>

text \<open>
  The check both middlewares make, over a service's key lookup and nonce check: \<open>absent\<close> is the
  message for a caller without a key, \<open>wrap\<close> the identity handed to the handler.
\<close>

definition signed_request ::
  "digests \<Rightarrow> ('sgk, 'vk) ed25519 \<Rightarrow> (string \<Rightarrow> 'a) \<Rightarrow> string
   \<Rightarrow> (string \<Rightarrow> ('s, 'e, 'vk IdentityPublicKey option) op) \<Rightarrow> (string \<Rightarrow> u64 \<Rightarrow> u64 \<Rightarrow> ('s, 'e, bool) op)
   \<Rightarrow> u64 \<Rightarrow> http_request \<Rightarrow> ('s, 'e AuthRejection, 'a \<times> http_request) op" where
  "signed_request H D wrap absent lookup check now rq =
     bind_op (of_result (ok_or (bad_request ''request body too large or unreadable'')
                (to_bytes (rq_body rq) MAX_BODY_BYTES))) (\<lambda>body.
     bind_op (of_result (map_err headers_rejection (from_lookup (rq_header rq)))) (\<lambda>auth.
     bind_op (map_err_op internal (lookup (ah_account_id auth))) (\<lambda>found.
     bind_op (of_result (ok_or (unauthorized absent) found)) (\<lambda>pubkey.
     if outside_window (ah_timestamp auth) now
     then fail (unauthorized ''request timestamp outside the accepted window'')
     else
       bind_op (of_result (decode_signature H (ah_signature auth))) (\<lambda>sig.
       let payload = canonical_payload H (rq_method rq) (rq_path rq) body (ah_timestamp auth) (ah_nonce auth) in
       bind_op (of_result (map_err (\<lambda>_. unauthorized ''signature verification failed'')
                  (identity_verify D pubkey (str_bytes payload) sig))) (\<lambda>_.
       bind_op (map_err_op internal (check (ah_nonce auth) now NONCE_TTL_SECS)) (\<lambda>fresh.
       if \<not> fresh then fail (unauthorized ''nonce already used (replay)'')
       else ret (wrap (ah_account_id auth), rq\<lparr>rq_body := Some body\<rparr>))))))))"

text \<open>One verification, taken apart: everything that held when it accepted.\<close>

lemma signed_request_Inr:
  assumes "signed_request H D wrap absent lookup check now rq s = (Inr (x, rq'), s')"
  obtains auth body pk sig s1 where
    "to_bytes (rq_body rq) MAX_BODY_BYTES = Some body" "from_lookup (rq_header rq) = Inr auth"
    "lookup (ah_account_id auth) s = (Inr (Some pk), s1)"
    "\<not> outside_window (ah_timestamp auth) now"
    "hex_decode H (ah_signature auth) = Some sig" "length sig = IDENTITY_SIGNATURE_LEN"
    "identity_verify D pk (str_bytes (canonical_payload H (rq_method rq) (rq_path rq) body
       (ah_timestamp auth) (ah_nonce auth))) sig = Inr ()"
    "check (ah_nonce auth) now NONCE_TTL_SECS s1 = (Inr True, s')"
    "x = wrap (ah_account_id auth)" "rq' = rq\<lparr>rq_body := Some body\<rparr>"
  using assms
  by (auto simp: signed_request_def Let_def bind_op_Inr map_err_op_eq decode_signature_Inr split: if_splits)

text \<open>A request signed with the registered key, in the window and with a fresh nonce, is accepted.\<close>

lemma signed_request_ok:
  assumes "hex_laws H" and "ed25519_laws D"
    and "rq_body rq = Some body" and "length body \<le> 2 ^ 20" and "from_lookup (rq_header rq) = Inr auth"
    and "lookup (ah_account_id auth) s = (Inr (Some (IdentityPublicKey (sgk_verifying_key D k))), s1)"
    and "ah_signature auth = hex_encode H (sgk_sign D k
      (str_bytes (canonical_payload H (rq_method rq) (rq_path rq) body (ah_timestamp auth) (ah_nonce auth))))"
    and "\<bar>uint (ah_timestamp auth) - uint now\<bar> \<le> 60"
    and "check (ah_nonce auth) now NONCE_TTL_SECS s1 = (Inr True, s2)"
  shows "signed_request H D wrap absent lookup check now rq s = (Inr (wrap (ah_account_id auth), rq), s2)"
proof -
  from assms(1,2) have laws: "\<And>b. hex_decode H (hex_encode H b) = Some b" "\<And>m. length (sgk_sign D k m) = 64"
    "\<And>m. vk_verify D (sgk_verifying_key D k) m (sgk_sign D k m) = Inr ()"
    by (simp_all add: hex_laws_def ed25519_laws_def)
  have body: "to_bytes (rq_body rq) MAX_BODY_BYTES = Some body"
    using assms(3,4) by (simp add: to_bytes_def MAX_BODY_BYTES_def)
  have same: "rq\<lparr>rq_body := Some body\<rparr> = rq" using assms(3) by (cases rq) simp
  have win: "\<not> outside_window (ah_timestamp auth) now" using assms(8) by (simp add: within_window)
  have idt: "map_err_op internal (lookup (ah_account_id auth)) s =
      (Inr (Some (IdentityPublicKey (sgk_verifying_key D k))), s1)" by (simp add: map_err_op_eq assms(6))
  have non: "map_err_op internal (check (ah_nonce auth) now NONCE_TTL_SECS) s1 = (Inr True, s2)"
    by (simp add: map_err_op_eq assms(9))
  show ?thesis
    using assms(5) laws win by (simp add: signed_request_def body idt non same assms(7) decode_signature_def
        identity_verify_def model_defs Let_def)
qed

section \<open>The contract of the middleware\<close>

text \<open>
  A stretch of service up to time \<open>tmax\<close>: authentications of other requests, and anything that
  leaves the nonce table alone.
\<close>

inductive served :: "(u64 \<Rightarrow> 'q \<Rightarrow> ('s, 'f, 'a) op) \<Rightarrow> ('s \<Rightarrow> 't) \<Rightarrow> int \<Rightarrow> 's \<Rightarrow> 's \<Rightarrow> bool"
  for authenticate store tmax where
  served_refl: "served authenticate store tmax s s"
| served_request: "served authenticate store tmax s s1 \<Longrightarrow> uint now \<le> tmax \<Longrightarrow>
    authenticate now rq s1 = (r, s2) \<Longrightarrow> served authenticate store tmax s s2"
| served_other: "served authenticate store tmax s s1 \<Longrightarrow> store s2 = store s1 \<Longrightarrow>
    served authenticate store tmax s s2"

locale authenticator = nonce_table check store
  for check :: "string \<Rightarrow> u64 \<Rightarrow> u64 \<Rightarrow> ('s, 'e, bool) op" and store +
  fixes authenticate :: "u64 \<Rightarrow> http_request \<Rightarrow> ('s, 'f, 'a) op"
  assumes auth_run: "authenticate now rq s = (r, s') \<Longrightarrow>
      store s' = store s \<and> (\<forall>x. r \<noteq> Inr x) \<or>
      (\<exists>auth s1 b. from_lookup (rq_header rq) = Inr auth \<and> store s1 = store s \<and>
         check (ah_nonce auth) now NONCE_TTL_SECS s1 = (b, s') \<and> (\<forall>x. r = Inr x \<longrightarrow> b = Inr True))"
    and auth_window: "authenticate now rq s = (Inr x, s') \<Longrightarrow> from_lookup (rq_header rq) = Inr auth \<Longrightarrow>
      \<bar>uint (ah_timestamp auth) - uint now\<bar> \<le> 60"
begin

lemma auth_keyed: "authenticate now rq s = (r, s') \<Longrightarrow> keyed (store s) \<Longrightarrow> keyed (store s')"
  by (drule auth_run) (metis check_wf)

lemma auth_live:
  "authenticate now rq s = (r, s') \<Longrightarrow> keyed (store s) \<Longrightarrow> map_of (store s) n = Some e \<Longrightarrow>
   uint now < e \<Longrightarrow> map_of (store s') n = Some e"
  by (drule auth_run) (metis check_live)

lemma served_live:
  "served authenticate store tmax s s' \<Longrightarrow> keyed (store s) \<Longrightarrow> map_of (store s) n = Some e \<Longrightarrow> tmax < e \<Longrightarrow>
   keyed (store s') \<and> map_of (store s') n = Some e"
proof (induction rule: served.induct)
  case (served_request s s1 now rq r s2)
  then show ?case by (metis auth_keyed auth_live order.strict_trans1)
qed auto

lemma accepted_nonce:
  assumes "authenticate now rq s = (Inr x, s')" and "keyed (store s)" and "from_lookup (rq_header rq) = Inr auth"
  shows "map_of (store s') (ah_nonce auth) = Some (uint now + 120)"
proof -
  from auth_run [OF assms(1)] assms(3) obtain s1 where
    "store s1 = store s" "check (ah_nonce auth) now NONCE_TTL_SECS s1 = (Inr True, s')" by auto
  with assms(2) check_fresh [of s1 "ah_nonce auth" now NONCE_TTL_SECS s'] show ?thesis
    by (simp add: NONCE_TTL_SECS_def)
qed

text \<open>
  A request is accepted again only at the last instant its timestamp is in the window, and only
  if it was dated as far into the future as the window allows.
\<close>

lemma replay:
  assumes k: "keyed (store s)" and first: "authenticate t rq s = (Inr x, s1)"
    and mid: "served authenticate store (uint t') s1 s2" and le: "uint t \<le> uint t'"
    and second: "authenticate t' rq s2 = (Inr y, s3)" and hdr: "from_lookup (rq_header rq) = Inr auth"
  shows "uint t' = uint t + 120 \<and> uint (ah_timestamp auth) = uint t + 60"
proof -
  have win: "\<bar>uint (ah_timestamp auth) - uint t\<bar> \<le> 60" "\<bar>uint (ah_timestamp auth) - uint t'\<bar> \<le> 60"
    using auth_window [OF first hdr] auth_window [OF second hdr] by auto
  have "\<not> uint t' < uint t + 120"
  proof
    assume early: "uint t' < uint t + 120"
    have "keyed (store s1)" using auth_keyed [OF first k] .
    with served_live [OF mid this accepted_nonce [OF first k hdr] early]
    have live: "keyed (store s2)" "map_of (store s2) (ah_nonce auth) = Some (uint t + 120)" by auto
    from auth_run [OF second] hdr obtain s4 where
      "store s4 = store s2" "check (ah_nonce auth) t' NONCE_TTL_SECS s4 = (Inr True, s3)" by auto
    with check_replay [of s4 "ah_nonce auth" "uint t + 120" t' NONCE_TTL_SECS "Inr True" s3] live early
    show False by simp
  qed
  with win show ?thesis by linarith
qed

end

text \<open>A service whose key lookup leaves the nonces alone is an authenticator.\<close>

locale request_auth = nonce_table check store
  for check :: "string \<Rightarrow> u64 \<Rightarrow> u64 \<Rightarrow> ('s, 'e, bool) op" and store +
  fixes lookup :: "string \<Rightarrow> ('s, 'e, 'vk IdentityPublicKey option) op"
  assumes lookup_store: "lookup a s = (r, s') \<Longrightarrow> store s' = store s"
begin

lemma signed_run:
  assumes "signed_request H D wrap absent lookup check now rq s = (r, s')"
  shows "store s' = store s \<and> (\<forall>x. r \<noteq> Inr x) \<or>
    (\<exists>auth s1 b. from_lookup (rq_header rq) = Inr auth \<and> store s1 = store s \<and>
       check (ah_nonce auth) now NONCE_TTL_SECS s1 = (b, s') \<and> (\<forall>x. r = Inr x \<longrightarrow> b = Inr True))"
proof (cases r)
  case (Inr p)
  then show ?thesis
    using assms by (cases p) (auto elim!: signed_request_Inr dest: lookup_store)
next
  case (Inl e)
  with assms show ?thesis
    by (auto simp: signed_request_def Let_def bind_op_Inl map_err_op_eq split: if_splits dest: lookup_store)
qed

end

sublocale request_auth \<subseteq> signed: authenticator check store "signed_request H D wrap absent lookup check"
  for H D wrap absent
proof
  fix now rq s r s'
  show "signed_request H D wrap absent lookup check now rq s = (r, s') \<Longrightarrow>
    store s' = store s \<and> (\<forall>x. r \<noteq> Inr x) \<or>
    (\<exists>auth s1 b. from_lookup (rq_header rq) = Inr auth \<and> store s1 = store s \<and>
       check (ah_nonce auth) now NONCE_TTL_SECS s1 = (b, s') \<and> (\<forall>x. r = Inr x \<longrightarrow> b = Inr True))"
    by (rule signed_run)
next
  fix now rq s x s' auth
  show "signed_request H D wrap absent lookup check now rq s = (Inr x, s') \<Longrightarrow> from_lookup (rq_header rq) = Inr auth \<Longrightarrow>
      \<bar>uint (ah_timestamp auth) - uint now\<bar> \<le> 60"
    by (cases x) (auto elim!: signed_request_Inr simp: within_window)
qed

section \<open>A signed request\<close>

text \<open>A request signed by bob's key 3.\<close>

definition demo_headers :: "string \<Rightarrow> u64 \<Rightarrow> string \<Rightarrow> bytes \<Rightarrow> AuthHeaders" where
  "demo_headers path ts nonce body =
     \<lparr>ah_account_id = ''bob'', ah_timestamp = ts, ah_nonce = nonce,
      ah_signature = hex_encode demo_digests (sgk_sign demo_ed25519 3
        (str_bytes (canonical_payload demo_digests ''POST'' path body ts nonce)))\<rparr>"

definition demo_signed :: "string \<Rightarrow> u64 \<Rightarrow> string \<Rightarrow> bytes \<Rightarrow> http_request" where
  "demo_signed path ts nonce body =
     \<lparr>rq_method = ''POST'', rq_path = path, rq_header = map_of (to_pairs (demo_headers path ts nonce body)),
      rq_body = Some body\<rparr>"

lemma demo_signed_simps [simp]:
  "rq_method (demo_signed p ts n b) = ''POST''" "rq_path (demo_signed p ts n b) = p"
  "rq_body (demo_signed p ts n b) = Some b"
  by (simp_all add: demo_signed_def)

lemma demo_from_lookup:
  "n \<noteq> [] \<Longrightarrow> from_lookup (rq_header (demo_signed p ts n b)) = Inr (demo_headers p ts n b)"
proof -
  have "length (hex_encode demo_digests (sgk_sign demo_ed25519 3 m)) = 128" for m
    using hex_laws_demo ed25519_laws_demo by (simp add: hex_laws_def ed25519_laws_def)
  then have "hex_encode demo_digests (sgk_sign demo_ed25519 3 m) \<noteq> []" for m by (metis length_0_conv zero_neq_numeral)
  then show "n \<noteq> [] \<Longrightarrow> ?thesis"
    by (simp add: from_lookup_Inr demo_signed_def demo_headers_def to_pairs_def headers_distinct [symmetric])
qed

end
