(* ===== verification/Wallet_Client.thy ===== *)
theory Wallet_Client
  imports Wallet_Store Http_Auth
begin

text \<open>
  The wallet's HTTP clients (\<open>client.rs\<close>): building the TLS configuration from PEM texts, signing a
  request under the wallet's identity, and the typed calls to the bank. The TLS stack (\<open>rustls\<close>,
  \<open>rustls_pemfile\<close>), the HTTP agent (\<open>ureq\<close>), the clock, the random source and the JSON of the
  messages are arguments; operations run on the state \<open>'w\<close> of the machine.
\<close>

section \<open>External crates\<close>

record ('cert, 'pkey, 'roots, 'cfg) rustls =
  pem_certs :: "string \<Rightarrow> (string + 'cert) list"
  pem_private_key :: "string \<Rightarrow> string + 'pkey option"
  roots_empty :: 'roots
  roots_add :: "'cert \<Rightarrow> 'roots \<Rightarrow> string + 'roots"
  tls_versions :: "string + unit"
  tls_no_client_auth :: "'roots \<Rightarrow> 'cfg"
  tls_client_auth :: "'roots \<Rightarrow> 'cert list \<Rightarrow> 'pkey \<Rightarrow> string + 'cfg"

text \<open>A request as it is handed to the agent.\<close>

record outgoing =
  og_method :: string
  og_url :: string
  og_headers :: "(string \<times> string) list"
  og_body :: bytes

text \<open>
  The calls of the machine: the clock, \<open>n\<close> random bytes, a seed for the blinding generator, files,
  and the agent's round trips, which give the response body or the error of a failed transport or
  a status other than 2xx.
\<close>

record ('cfg, 'w) platform =
  os_now :: "('w, string, u64) op"
  os_random :: "nat \<Rightarrow> ('w, string, bytes) op"
  os_rng :: "'w \<Rightarrow> nat \<times> 'w"
  file_read :: "string \<Rightarrow> ('w, string, bytes) op"
  file_write :: "string \<Rightarrow> bytes \<Rightarrow> ('w, string, unit) op"
  http_send :: "'cfg \<Rightarrow> outgoing \<Rightarrow> ('w, string, bytes) op"
  http_send_register :: "'cfg \<Rightarrow> string \<Rightarrow> RegisterRequest \<Rightarrow> ('w, string, bytes) op"

record wire_json =
  create_to_vec :: "CreateAccountRequest \<Rightarrow> string + bytes"
  withdraw_to_vec :: "WithdrawRequest \<Rightarrow> string + bytes"
  deposit_to_vec :: "DepositRequest \<Rightarrow> string + bytes"
  register_from_json :: "bytes \<Rightarrow> string + RegisterResponse"
  balance_from_json :: "bytes \<Rightarrow> string + BalanceResponse"
  denominations_from_json :: "bytes \<Rightarrow> string + DenominationsResponse"
  withdraw_from_json :: "bytes \<Rightarrow> string + WithdrawResponse"
  deposit_from_json :: "bytes \<Rightarrow> string + DepositResponse"

section \<open>TLS configuration\<close>

fun add_roots :: "('cert, 'pkey, 'roots, 'cfg) rustls \<Rightarrow> (string + 'cert) list \<Rightarrow> 'roots \<Rightarrow> bool
    \<Rightarrow> WalletError + 'roots \<times> bool" where
  "add_roots T [] roots seen = Inr (roots, seen)"
| "add_roots T (cert # certs) roots seen =
     bind_result (map_err IoError cert) (\<lambda>c.
     bind_result (map_err TlsError (roots_add T c roots)) (\<lambda>roots'.
       add_roots T certs roots' True))"

definition roots_from_pem :: "('cert, 'pkey, 'roots, 'cfg) rustls \<Rightarrow> string \<Rightarrow> WalletError + 'roots" where
  "roots_from_pem T pem =
     bind_result (add_roots T (pem_certs T pem) (roots_empty T) False) (\<lambda>(roots, seen).
       if \<not> seen then Inl (PemError ''CA certificate PEM held no certificate'') else Inr roots)"

fun collect_results :: "('e + 'a) list \<Rightarrow> 'e + 'a list" where
  "collect_results [] = Inr []"
| "collect_results (r # rs) = bind_result r (\<lambda>a. bind_result (collect_results rs) (\<lambda>as. Inr (a # as)))"

definition certs_from_pem :: "('cert, 'pkey, 'roots, 'cfg) rustls \<Rightarrow> string \<Rightarrow> WalletError + 'cert list" where
  "certs_from_pem T pem =
     bind_result (map_err IoError (collect_results (pem_certs T pem))) (\<lambda>certs.
       if certs = [] then Inl (PemError ''client certificate PEM held no certificate'') else Inr certs)"

definition key_from_pem :: "('cert, 'pkey, 'roots, 'cfg) rustls \<Rightarrow> string \<Rightarrow> WalletError + 'pkey" where
  "key_from_pem T pem =
     bind_result (map_err IoError (pem_private_key T pem))
       (ok_or (PemError ''client key PEM held no private key''))"

section \<open>Clients\<close>

record 'cfg EnrollClient =
  ec_base_url :: string
  ec_agent :: 'cfg

definition enroll_client_new ::
  "('cert, 'pkey, 'roots, 'cfg) rustls \<Rightarrow> string \<Rightarrow> string \<Rightarrow> WalletError + 'cfg EnrollClient" where
  "enroll_client_new T base_url ca_pem =
     bind_result (map_err TlsError (tls_versions T)) (\<lambda>_.
     bind_result (roots_from_pem T ca_pem) (\<lambda>roots.
       Inr \<lparr>ec_base_url = base_url, ec_agent = tls_no_client_auth T roots\<rparr>))"

definition enroll_register ::
  "('cfg, 'w) platform \<Rightarrow> wire_json \<Rightarrow> 'cfg EnrollClient \<Rightarrow> RegisterRequest \<Rightarrow> ('w, WalletError, RegisterResponse) op" where
  "enroll_register P W client req =
     (let url = ec_base_url client @ ''/register'' in
      bind_op (map_err_op (HttpError url) (http_send_register P (ec_agent client) url req)) (\<lambda>response.
        of_result (map_err IoError (register_from_json W response))))"

record ('sgk, 'cfg) BankClient =
  bc_base_url :: string
  bc_account_id :: string
  bc_keypair :: "'sgk IdentityKeypair"
  bc_agent :: 'cfg

definition bank_client_new ::
  "('cert, 'pkey, 'roots, 'cfg) rustls \<Rightarrow> string \<Rightarrow> string \<Rightarrow> 'sgk IdentityKeypair \<Rightarrow> string \<Rightarrow> string \<Rightarrow> string
   \<Rightarrow> WalletError + ('sgk, 'cfg) BankClient" where
  "bank_client_new T base_url account_id keypair ca_pem cert_pem key_pem =
     bind_result (map_err TlsError (tls_versions T)) (\<lambda>_.
     bind_result (roots_from_pem T ca_pem) (\<lambda>roots.
     bind_result (certs_from_pem T cert_pem) (\<lambda>certs.
     bind_result (key_from_pem T key_pem) (\<lambda>key.
     bind_result (map_err TlsError (tls_client_auth T roots certs key)) (\<lambda>config.
       Inr \<lparr>bc_base_url = base_url, bc_account_id = account_id, bc_keypair = keypair, bc_agent = config\<rparr>)))))"

section \<open>Signed requests\<close>

definition now_unix :: "('cfg, 'w) platform \<Rightarrow> ('w, WalletError, u64) op" where
  "now_unix P = map_err_op (\<lambda>_. ClockError) (os_now P)"

definition random_nonce :: "('cfg, 'w) platform \<Rightarrow> digests \<Rightarrow> ('w, WalletError, string) op" where
  "random_nonce P H =
     bind_op (map_err_op RandomError (os_random P 16)) (\<lambda>b. ret (hex_encode H b))"

record SignedAuth =
  sa_timestamp :: string
  sa_nonce :: string
  sa_signature :: string

definition sign ::
  "('cfg, 'w) platform \<Rightarrow> digests \<Rightarrow> ('sgk, 'vk) ed25519 \<Rightarrow> ('sgk, 'cfg) BankClient \<Rightarrow> string \<Rightarrow> string \<Rightarrow> bytes
   \<Rightarrow> ('w, WalletError, SignedAuth) op" where
  "sign P H D client mthd path body =
     bind_op (now_unix P) (\<lambda>timestamp.
     bind_op (random_nonce P H) (\<lambda>nonce.
     let payload = canonical_payload H mthd path body timestamp nonce;
         sig = hex_encode H (identity_sign D (bc_keypair client) (str_bytes payload))
     in ret \<lparr>sa_timestamp = u64_to_string timestamp, sa_nonce = nonce, sa_signature = sig\<rparr>))"

text \<open>The four headers a signed request carries.\<close>

definition auth_pairs :: "string \<Rightarrow> SignedAuth \<Rightarrow> (string \<times> string) list" where
  "auth_pairs account_id auth =
     [(HEADER_ACCOUNT, account_id), (HEADER_TIMESTAMP, sa_timestamp auth), (HEADER_NONCE, sa_nonce auth),
      (HEADER_SIGNATURE, sa_signature auth)]"

definition signed_post ::
  "('cfg, 'w) platform \<Rightarrow> digests \<Rightarrow> ('sgk, 'vk) ed25519 \<Rightarrow> ('q \<Rightarrow> string + bytes) \<Rightarrow> (bytes \<Rightarrow> string + 'p)
   \<Rightarrow> ('sgk, 'cfg) BankClient \<Rightarrow> string \<Rightarrow> 'q \<Rightarrow> ('w, WalletError, 'p) op" where
  "signed_post P H D to_vec from_json client path req =
     bind_op (of_result (map_err JsonError (to_vec req))) (\<lambda>body.
     bind_op (sign P H D client ''POST'' path body) (\<lambda>auth.
     let url = bc_base_url client @ path in
     bind_op (map_err_op (HttpError url) (http_send P (bc_agent client)
       \<lparr>og_method = ''POST'', og_url = url,
        og_headers = (''content-type'', ''application/json'') # auth_pairs (bc_account_id client) auth,
        og_body = body\<rparr>)) (\<lambda>response.
       of_result (map_err IoError (from_json response)))))"

definition signed_get ::
  "('cfg, 'w) platform \<Rightarrow> digests \<Rightarrow> ('sgk, 'vk) ed25519 \<Rightarrow> (bytes \<Rightarrow> string + 'p)
   \<Rightarrow> ('sgk, 'cfg) BankClient \<Rightarrow> string \<Rightarrow> ('w, WalletError, 'p) op" where
  "signed_get P H D from_json client path =
     bind_op (sign P H D client ''GET'' path []) (\<lambda>auth.
     let url = bc_base_url client @ path in
     bind_op (map_err_op (HttpError url) (http_send P (bc_agent client)
       \<lparr>og_method = ''GET'', og_url = url, og_headers = auth_pairs (bc_account_id client) auth, og_body = []\<rparr>)) (\<lambda>response.
       of_result (map_err IoError (from_json response))))"

definition client_create_account where
  "client_create_account P W H D client req =
     signed_post P H D (create_to_vec W) (balance_from_json W) client ''/accounts'' req"

definition client_balance where
  "client_balance P W H D client account_id =
     signed_get P H D (balance_from_json W) client (''/accounts/'' @ account_id @ ''/balance'')"

definition client_denominations where
  "client_denominations P W H D client = signed_get P H D (denominations_from_json W) client ''/denominations''"

definition client_withdraw where
  "client_withdraw P W H D client req =
     signed_post P H D (withdraw_to_vec W) (withdraw_from_json W) client ''/withdraw'' req"

definition client_deposit where
  "client_deposit P W H D client req =
     signed_post P H D (deposit_to_vec W) (deposit_from_json W) client ''/deposit'' req"

end
