(* ===== verification/Wallet_Coins.thy ===== *)
theory Wallet_Coins
  imports Proto
begin

text \<open>
  The coin arithmetic of the wallet (\<open>wallet.rs\<close>, \<open>decompose\<close> and \<open>select_exact\<close>): how an amount
  is split into denominations before a withdrawal, and how held coins are chosen to make an
  amount exactly. Amounts are \<open>u64\<close> words. The inner loop of the split is a \<open>while\<close> that would
  not end on a zero denomination, so it is a partial function; that it returns is proved.
\<close>

section \<open>Operations\<close>

text \<open>\<open>while remaining >= denomination { coins.push(denomination); remaining -= denomination }\<close>.\<close>

partial_function (option) push_while :: "u64 \<Rightarrow> u64 \<Rightarrow> u64 list \<Rightarrow> (u64 \<times> u64 list) option" where
  "push_while denomination remaining coins =
     (if denomination \<le> remaining then push_while denomination (remaining - denomination) (coins @ [denomination])
      else Some (remaining, coins))"

fun decompose_loop :: "u64 list \<Rightarrow> u64 \<Rightarrow> u64 list \<Rightarrow> u64 list option" where
  "decompose_loop [] remaining coins = Some coins"
| "decompose_loop (denomination # rest) remaining coins =
     Option.bind (push_while denomination remaining coins)
       (\<lambda>(remaining', coins'). decompose_loop rest remaining' coins')"

definition decompose :: "u64 \<Rightarrow> u64 list option" where
  "decompose amount_cents = decompose_loop (rev DENOMINATIONS) amount_cents []"

text \<open>
  \<open>sort_unstable_by_key(Reverse(denomination))\<close> is an argument: some permutation in descending
  order of denomination.
\<close>

fun select_loop :: "Coin list \<Rightarrow> u64 \<Rightarrow> Coin list \<Rightarrow> u64 \<times> Coin list" where
  "select_loop [] remaining selected = (remaining, selected)"
| "select_loop (coin # coins) remaining selected =
     (if denomination_cents coin \<le> remaining then
        let remaining' = remaining - denomination_cents coin; selected' = selected @ [coin] in
        if remaining' = 0 then (remaining', selected') else select_loop coins remaining' selected'
      else select_loop coins remaining selected)"

definition select_exact :: "(Coin list \<Rightarrow> Coin list) \<Rightarrow> Coin list \<Rightarrow> u64 \<Rightarrow> Coin list option" where
  "select_exact sort_unstable coins amount =
     (case select_loop (sort_unstable coins) amount [] of
        (remaining, selected) \<Rightarrow> if remaining = 0 then Some selected else None)"

definition sort_laws :: "(Coin list \<Rightarrow> Coin list) \<Rightarrow> bool" where
  "sort_laws sort_unstable \<longleftrightarrow>
     (\<forall>cs. mset (sort_unstable cs) = mset cs \<and>
           sorted_wrt (\<lambda>c d. denomination_cents d \<le> denomination_cents c) (sort_unstable cs))"

text \<open>\<open>u64::MAX\<close> caps the total that an error reports.\<close>

definition held_total :: "Coin list \<Rightarrow> u64" where
  "held_total held = fold (\<lambda>c acc. u64_saturating_add acc (denomination_cents c)) held 0"

section \<open>The inner loop\<close>

lemma uint_minus: "b \<le> a \<Longrightarrow> uint (a - b) = uint a - uint (b :: u64)"
  by (simp add: uint_sub_lem word_le_def)

lemma push_while_eq:
  assumes "0 < uint d"
  shows "push_while d r cs = Some (word_of_int (uint r mod uint d), cs @ replicate (nat (uint r div uint d)) d)"
  using assms
proof (induction "nat (uint r)" arbitrary: r cs rule: less_induct)
  case less
  show ?case
  proof (cases "d \<le> r")
    case True
    then have le: "uint d \<le> uint r" by (simp add: word_le_def)
    have r': "uint (r - d) = uint r - uint d" using True by (rule uint_minus)
    with less.prems have "uint (r - d) < uint r" by simp
    then have "nat (uint (r - d)) < nat (uint r)" by (simp only: nat_less_eq_zless uint_ge_0)
    note IH = less.hyps [OF this less.prems]
    have "(uint r - uint d) mod uint d = uint r mod uint d" by (simp add: mod_diff_right_eq [symmetric])
    moreover have "(uint r - uint d) div uint d = uint r div uint d - 1" using less.prems
      by (metis diff_add_cancel div_add_self2 add_diff_cancel_right' less_irrefl)
    moreover have "0 < uint r div uint d" using le less.prems by (simp add: pos_imp_zdiv_pos_iff)
    then have "nat (uint r div uint d) = Suc (nat (uint r div uint d - 1))" by simp
    ultimately show ?thesis
      using IH True by (subst push_while.simps) (simp add: r' replicate_append_same [symmetric])
  next
    case False
    then have "uint r < uint d" by (simp add: word_le_def)
    then have "uint r mod uint d = uint r" "uint r div uint d = 0" by simp_all
    with False show ?thesis by (subst push_while.simps) simp
  qed
qed

section \<open>The split is the binary representation\<close>

text \<open>
  The reference: as many of the largest denomination as fit, then one coin for every set bit of
  the rest, from the highest.
\<close>

definition binary_coins :: "u64 \<Rightarrow> u64 list" where
  "binary_coins n =
     replicate (nat (uint n div 8192)) 8192 @ map (\<lambda>i. 2 ^ i) (filter (bit n) (rev [0..<13]))"

lemma uint_pow2: "k < 64 \<Longrightarrow> uint (2 ^ k :: u64) = 2 ^ k"
proof -
  assume "k < 64"
  then have "(2 :: int) ^ k < 2 ^ 64" by (rule power_strict_increasing) simp
  moreover have "(2 ^ k :: u64) = word_of_int (2 ^ k)" by simp
  then have "uint (2 ^ k :: u64) = 2 ^ k mod 2 ^ LENGTH(64)" by (simp only: uint_word_of_int)
  ultimately show ?thesis by simp
qed

lemma word_mod_pow2: "word_of_int (uint r mod 2 ^ k) = take_bit k (r :: u64)"
  by (simp add: unsigned_take_bit_eq [symmetric] take_bit_eq_mod [symmetric])

lemma decompose_bits:
  assumes "uint r < 2 ^ k" and "k < 64"
  shows "decompose_loop (rev (map (\<lambda>i. 2 ^ i) [0..<k])) r cs =
    Some (cs @ map (\<lambda>i. 2 ^ i) (filter (bit r) (rev [0..<k])))"
  using assms
proof (induction k arbitrary: r cs)
  case (Suc k)
  let ?r = "take_bit k r" and ?q = "uint r div 2 ^ k"
  have two: "uint (2 ^ k :: u64) = 2 ^ k" using Suc.prems(2) by (intro uint_pow2) simp
  have "?q < 2"
  proof (rule ccontr)
    assume "\<not> ?q < 2"
    then have "2 * 2 ^ k \<le> ?q * 2 ^ k" by (intro mult_right_mono) simp_all
    also have "\<dots> \<le> uint r" by (simp add: minus_mod_eq_div_mult [symmetric])
    finally show False using Suc.prems(1) by simp
  qed
  moreover have "0 \<le> ?q" by (simp add: pos_imp_zdiv_nonneg_iff)
  moreover have "bit (uint r) k = bit r k" using Suc.prems(2) by (simp add: bit_uint_iff)
  then have "odd ?q \<longleftrightarrow> bit r k" by (simp only: bit_iff_odd [of "uint r"])
  ultimately have q: "replicate (nat ?q) (2 ^ k) = (if bit r k then [2 ^ k] else [] :: u64 list)"
    by (cases "?q = 0"; cases "?q = 1") auto
  have "uint ?r < 2 ^ k" by (simp add: unsigned_take_bit_eq)
  with Suc.prems(2) have IH: "decompose_loop (rev (map (\<lambda>i. 2 ^ i) [0..<k])) ?r cs' =
      Some (cs' @ map (\<lambda>i. 2 ^ i) (filter (bit ?r) (rev [0..<k])))" for cs'
    by (intro Suc.IH) simp_all
  have "filter (bit ?r) (rev [0..<k]) = filter (bit r) (rev [0..<k])"
    by (rule filter_cong) (auto simp: bit_take_bit_iff)
  then show ?case
    using push_while_eq [of "2 ^ k" r cs] IH by (simp add: two q word_mod_pow2)
qed simp

lemma decompose_binary: "decompose n = Some (binary_coins n)"
proof -
  have dens: "rev DENOMINATIONS = 8192 # rev (map (\<lambda>i. 2 ^ i) [0..<13])"
    by (simp add: DENOMINATIONS_def upt_rec)
  let ?r = "take_bit 13 n"
  have "push_while 8192 n [] = Some (?r, replicate (nat (uint n div 8192)) 8192)"
    using push_while_eq [of 8192 n "[]"] word_mod_pow2 [of n 13] by simp
  moreover have "uint ?r = uint n mod 2 ^ 13" unfolding unsigned_take_bit_eq by (rule take_bit_eq_mod)
  then have "uint ?r < 2 ^ 13" by simp
  then have "decompose_loop (rev (map (\<lambda>i. 2 ^ i) [0..<13])) ?r cs =
      Some (cs @ map (\<lambda>i. 2 ^ i) (filter (bit ?r) (rev [0..<13])))" for cs by (rule decompose_bits) simp
  moreover have "filter (bit ?r) (rev [0..<13]) = filter (bit n) (rev [0..<13])"
    by (rule filter_cong) (auto simp: bit_take_bit_iff)
  ultimately show ?thesis by (simp only: decompose_def dens binary_coins_def decompose_loop.simps bind.bind_lunit prod.case)
qed

subsection \<open>Its value and its length\<close>

lemma sum_bits: "(\<Sum>i \<leftarrow> filter (bit n) [0..<k]. 2 ^ i) = take_bit k (n :: int)"
  by (induction k) (simp_all add: take_bit_Suc_from_most)

lemma sum_list_rev_map: "sum_list (map f (rev xs)) = sum_list (map f xs :: int list)"
  by (induction xs) simp_all

lemma binary_coins_value: "(\<Sum>c \<leftarrow> binary_coins n. uint c) = uint n"
proof -
  have bits: "filter (bit n) (rev [0..<13]) = rev (filter (bit (uint n)) [0..<13])"
    unfolding rev_filter by (rule filter_cong) (auto simp: bit_uint_iff)
  have "(\<Sum>c \<leftarrow> map (\<lambda>i. 2 ^ i :: u64) (filter (bit n) (rev [0..<13])). uint c) = (\<Sum>i \<leftarrow> filter (bit (uint n)) [0..<13]. 2 ^ i)"
    unfolding bits map_map comp_def sum_list_rev_map
    by (intro arg_cong [where f = sum_list] map_cong) (auto simp: uint_pow2)
  also have "\<dots> = uint n mod 8192" by (simp add: sum_bits take_bit_eq_mod)
  finally show ?thesis by (simp add: binary_coins_def sum_list_replicate)
qed

lemma binary_coins_set: "set (binary_coins n) \<subseteq> set DENOMINATIONS"
proof -
  have "set DENOMINATIONS = (\<lambda>i. 2 ^ i) ` {0..<14}" by (simp add: denominations_powers)
  moreover have "(8192 :: u64) \<in> (\<lambda>i. 2 ^ i) ` {0..<14}" by (rule image_eqI [of _ _ 13]) simp_all
  ultimately show ?thesis by (auto simp: binary_coins_def)
qed

text \<open>The least number of coins, by halving.\<close>

fun fewest :: "nat \<Rightarrow> nat \<Rightarrow> nat" where
  "fewest 0 n = n"
| "fewest (Suc k) n = n mod 2 + fewest k (n div 2)"

lemma fewest_add: "i \<le> k \<Longrightarrow> fewest k (n + 2 ^ i) \<le> fewest k n + 1"
proof (induction k arbitrary: i n)
  case (Suc k)
  show ?case
  proof (cases i)
    case 0
    with Suc.IH [of 0 "n div 2"] show ?thesis by (cases "even n") (auto elim!: evenE oddE)
  next
    case (Suc j)
    with Suc.IH [of j "n div 2"] Suc.prems show ?thesis by (simp add: add.commute)
  qed
qed simp

lemma fewest_bits: "fewest k n = n div 2 ^ k + length (filter (bit n) [0..<k])"
proof (induction k arbitrary: n)
  case (Suc k)
  have "filter (bit n) [0..<Suc k] = (if odd n then [0] else []) @ map Suc (filter (bit (n div 2)) [0..<k])"
    by (simp add: upt_conv_Cons map_Suc_upt [symmetric] filter_map comp_def bit_0 bit_Suc del: upt_Suc)
  with Suc show ?case by (simp add: div_mult2_eq [symmetric] mod_2_eq_odd)
qed simp

lemma binary_coins_length: "length (binary_coins n) = fewest 13 (unat n)"
proof -
  have "filter (bit n) [0..<13] = filter (bit (unat n)) [0..<13]"
    by (rule filter_cong) (auto simp: bit_unsigned_iff)
  moreover have "nat (uint n div 8192) = unat n div 8192" by (simp add: nat_div_distrib)
  ultimately show ?thesis
    by (simp add: binary_coins_def fewest_bits rev_filter [symmetric] del: upt_conv_Cons)
qed

lemma fewest_least:
  assumes "set ds \<subseteq> set DENOMINATIONS"
  shows "fewest 13 (nat (\<Sum>d \<leftarrow> ds. uint d)) \<le> length ds"
  using assms
proof (induction ds)
  case (Cons d ds)
  then obtain i where i: "i < 14" "d = 2 ^ i" by (auto simp: denominations_powers simp del: upt_conv_Cons)
  moreover have "0 \<le> (\<Sum>x \<leftarrow> ds. uint x)" by (rule sum_list_nonneg) auto
  ultimately have "nat (\<Sum>x \<leftarrow> d # ds. uint x) = nat (\<Sum>x \<leftarrow> ds. uint x) + 2 ^ i"
    by (simp add: uint_pow2 nat_add_distrib nat_power_eq)
  with fewest_add [of i 13 "nat (\<Sum>x \<leftarrow> ds. uint x)"] Cons i show ?case by simp
qed (simp add: numeral_eq_Suc)

section \<open>Selection\<close>

definition value_of :: "Coin list \<Rightarrow> int" where
  "value_of cs = (\<Sum>c \<leftarrow> cs. uint (denomination_cents c))"

lemma value_of_simps [simp]:
  "value_of [] = 0" "value_of (c # cs) = uint (denomination_cents c) + value_of cs"
  "value_of (cs @ ds) = value_of cs + value_of ds"
  by (simp_all add: value_of_def)

lemma value_of_mset: "mset cs = mset ds \<Longrightarrow> value_of cs = value_of ds"
  unfolding value_of_def by (metis mset_map sum_mset_sum_list)

lemma value_of_nonneg: "0 \<le> value_of cs"
  by (induction cs) simp_all

text \<open>Whatever the loop picks is there, in order, and what it leaves open is the rest of the amount.\<close>

lemma select_loop_run:
  "select_loop cs r sel = (r', sel') \<Longrightarrow>
   \<exists>ps. sel' = sel @ ps \<and> mset ps \<subseteq># mset cs \<and> uint r = value_of ps + uint r'"
proof (induction cs r sel arbitrary: r' sel' rule: select_loop.induct)
  case (2 c cs r sel)
  let ?d = "denomination_cents c"
  show ?case
  proof (cases "?d \<le> r")
    case True
    then have r: "uint (r - ?d) = uint r - uint ?d" by (rule uint_minus)
    show ?thesis
    proof (cases "r - ?d = 0")
      case True
      with 2(3) \<open>?d \<le> r\<close> r show ?thesis by (intro exI [of _ "[c]"]) auto
    next
      case False
      with 2(3) True have "select_loop cs (r - ?d) (sel @ [c]) = (r', sel')" by (simp add: Let_def)
      from 2(1) [OF True refl refl False this] obtain ps where
        "sel' = (sel @ [c]) @ ps" "mset ps \<subseteq># mset cs" "uint (r - ?d) = value_of ps + uint r'" by blast
      with r show ?thesis by (intro exI [of _ "c # ps"]) simp
    qed
  next
    case False
    have "mset cs \<subseteq># mset (c # cs)" by simp
    with False 2(2) [OF False, of r' sel'] 2(3) show ?thesis
      using subset_mset.order_trans by fastforce
  qed
qed simp

text \<open>
  Powers of two in descending order can be cut so that a prefix has exactly the value of a larger
  power of two, if there is enough of them.
\<close>

lemma prefix_hits:
  fixes xs :: "int list"
  assumes "sorted_wrt (\<lambda>a b. b dvd a) xs" and "\<forall>x \<in> set xs. 0 < x \<and> x dvd d \<and> x dvd p"
    and "p \<le> d" and "d \<le> p + sum_list xs"
  shows "\<exists>ys zs. xs = ys @ zs \<and> p + sum_list ys = d"
  using assms
proof (induction xs arbitrary: p)
  case (Cons x xs)
  show ?case
  proof (cases "p = d")
    case True
    then show ?thesis by (intro exI [of _ "[]"] exI [of _ "x # xs"]) simp
  next
    case False
    have "x dvd d - p" using Cons.prems(2) by (simp add: dvd_diff)
    with False Cons.prems(3) have "x \<le> d - p" by (intro zdvd_imp_le) simp_all
    moreover have "\<forall>y \<in> set xs. 0 < y \<and> y dvd d \<and> y dvd p + x" using Cons.prems(1,2) by (auto intro: dvd_add)
    ultimately obtain ys zs where "xs = ys @ zs" "(p + x) + sum_list ys = d"
      using Cons.IH [of "p + x"] Cons.prems by auto
    then show ?thesis by (intro exI [of _ "x # ys"] exI [of _ zs]) simp
  qed
qed simp

text \<open>Coins of the denominations, in descending order, each a multiple of the next.\<close>

abbreviation minted :: "Coin list \<Rightarrow> bool" where
  "minted cs \<equiv> \<forall>c \<in> set cs. denomination_cents c \<in> set DENOMINATIONS"

lemma minted_dvd:
  assumes "d \<in> set DENOMINATIONS" and "e \<in> set DENOMINATIONS" and "d \<le> e"
  shows "uint d dvd uint e \<and> 0 < uint d"
proof -
  from assms(1,2) obtain i j where i: "i < 14" "d = 2 ^ i" and j: "j < 14" "e = 2 ^ j"
    by (auto simp: denominations_powers simp del: upt_conv_Cons)
  then have "(2 :: int) ^ i \<le> 2 ^ j" using assms(3) by (simp add: word_le_def uint_pow2)
  then have "i \<le> j" by simp
  with i j show ?thesis by (simp add: uint_pow2 le_imp_power_dvd)
qed

lemma exchange:
  assumes "minted (c # S)" and "\<forall>s \<in> set S. denomination_cents s \<le> denomination_cents c"
    and "uint (denomination_cents c) \<le> value_of S"
  shows "\<exists>T. mset T \<subseteq># mset S \<and> value_of T = value_of S - uint (denomination_cents c)"
proof -
  define L where "L = sort_key (\<lambda>s. - uint (denomination_cents s)) S"
  have L: "mset L = mset S" "set L = set S" by (simp_all add: L_def)
  have "sorted (map (\<lambda>s. - uint (denomination_cents s)) L)" unfolding L_def by (rule sorted_sort_key)
  then have "sorted_wrt (\<lambda>a b. uint (denomination_cents b) \<le> uint (denomination_cents a)) L"
    by (simp add: sorted_map)
  then have "sorted_wrt (\<lambda>a b. uint (denomination_cents b) dvd uint (denomination_cents a)) L"
    by (rule sorted_wrt_mono_rel [rotated]) (use assms(1) L(2) minted_dvd in \<open>auto simp: word_le_def\<close>)
  then have 1: "sorted_wrt (\<lambda>a b. b dvd a) (map (\<lambda>s. uint (denomination_cents s)) L)" by (simp add: sorted_wrt_map)
  have 2: "\<forall>x \<in> set (map (\<lambda>s. uint (denomination_cents s)) L). 0 < x \<and> x dvd uint (denomination_cents c) \<and> x dvd 0"
    using assms(1,2) L(2) minted_dvd by auto
  have "value_of L = value_of S" using L(1) by (rule value_of_mset)
  then have 3: "uint (denomination_cents c) \<le> 0 + sum_list (map (\<lambda>s. uint (denomination_cents s)) L)"
    using assms(3) by (simp add: value_of_def)
  from prefix_hits [OF 1 2 _ 3] obtain ys zs where
    cut: "map (\<lambda>s. uint (denomination_cents s)) L = ys @ zs" "sum_list ys = uint (denomination_cents c)" by auto
  define T where "T = drop (length ys) L"
  have "map (\<lambda>s. uint (denomination_cents s)) T = zs" using cut(1) by (simp add: T_def drop_map [symmetric])
  then have "value_of T = value_of L - uint (denomination_cents c)"
    using cut by (simp add: value_of_def)
  moreover have "mset T \<subseteq># mset S"
    unfolding L(1) [symmetric] T_def by (metis append_take_drop_id mset_append mset_subset_eq_add_right)
  ultimately show ?thesis using \<open>value_of L = value_of S\<close> by auto
qed

lemma select_loop_complete:
  assumes "sorted_wrt (\<lambda>c d. denomination_cents d \<le> denomination_cents c) cs" and "minted cs"
    and "mset S \<subseteq># mset cs" and "value_of S = uint r"
  shows "fst (select_loop cs r sel) = 0"
  using assms
proof (induction cs arbitrary: r sel S)
  case Nil
  then have "uint r = 0" by simp
  then have "r = 0" by (simp only: uint_0_iff)
  then show ?case by simp
next
  case (Cons c cs)
  let ?d = "denomination_cents c"
  have with_c: "mset (remove1 c S) \<subseteq># mset cs" "value_of S = uint ?d + value_of (remove1 c S)" if "c \<in> set S"
  proof -
    have "mset S = mset (c # remove1 c S)" using that by simp
    then show "value_of S = uint ?d + value_of (remove1 c S)" by (metis value_of_mset value_of_simps(2))
    show "mset (remove1 c S) \<subseteq># mset cs"
      using Cons.prems(3) by (simp add: subset_eq_diff_conv)
  qed
  have without: "mset S \<subseteq># mset cs" if "c \<notin> set S"
    using that Cons.prems(3) by (simp add: subseteq_mset_def) (metis count_mset_0_iff le0)
  show ?case
  proof (cases "?d \<le> r")
    case True
    then have r: "uint (r - ?d) = uint r - uint ?d" by (rule uint_minus)
    have "\<exists>T. mset T \<subseteq># mset cs \<and> value_of T = uint (r - ?d)"
    proof (cases "c \<in> set S")
      case True
      with with_c r Cons.prems(4) show ?thesis by (intro exI [of _ "remove1 c S"]) simp
    next
      case False
      then have S: "set S \<subseteq> set cs" using without by (metis set_mset_mono set_mset_mset)
      have "uint ?d \<le> value_of S" using True Cons.prems(4) by (simp add: word_le_def)
      moreover have "minted (c # S)" "\<forall>s \<in> set S. denomination_cents s \<le> ?d" using S Cons.prems(1,2) by auto
      ultimately obtain T where "mset T \<subseteq># mset S" "value_of T = value_of S - uint ?d"
        using exchange [of c S] by blast
      with without [OF False] r Cons.prems(4) show ?thesis
        by (intro exI [of _ T]) (auto intro: subset_mset.order_trans)
    qed
    then obtain T where "mset T \<subseteq># mset cs" "value_of T = uint (r - ?d)" by blast
    with Cons.IH [of T "r - ?d"] Cons.prems(1,2) True show ?thesis by (auto simp: Let_def)
  next
    case False
    then have "uint r < uint ?d" by (simp add: word_le_def)
    then have "c \<notin> set S" using with_c(2) Cons.prems(4) value_of_nonneg [of "remove1 c S"] by fastforce
    with without Cons.IH [of S r] Cons.prems False show ?thesis by simp
  qed
qed

section \<open>What the wallet relies on\<close>

text \<open>
  C32: Splitting an amount always returns, for every \<open>u64\<close> amount; the coins are all of the
  denominations the bank signs, they are worth exactly the amount, and they are in descending
  order: repeated coins of the largest denomination, then one per set bit of the rest.
\<close>

theorem decompose_terminates:
  "\<exists>coins. decompose amount = Some coins \<and> coins = binary_coins amount \<and>
     (\<Sum>c \<leftarrow> coins. uint c) = uint amount \<and> set coins \<subseteq> set DENOMINATIONS"
  using decompose_binary binary_coins_value binary_coins_set by blast

text \<open>
  C33: The greedy split uses the fewest coins: any other choice of denominations with the same
  value has at least as many.
\<close>

theorem decompose_optimal:
  assumes "decompose amount = Some coins"
    and "set ds \<subseteq> set DENOMINATIONS" and "(\<Sum>d \<leftarrow> ds. uint d) = uint amount"
  shows "length coins \<le> length ds"
proof -
  have "coins = binary_coins amount" using assms(1) by (simp add: decompose_binary)
  then have "length coins = fewest 13 (unat amount)" by (simp add: binary_coins_length)
  also have "\<dots> \<le> length ds" using fewest_least [OF assms(2)] assms(3) by simp
  finally show ?thesis .
qed

lemma decompose_576: "decompose 576 = Some [512, 64]"
  by (simp add: decompose_binary binary_coins_def upt_rec)

theorem decompose_optimal_witness: "length [512, 64 :: u64] \<le> length (replicate 9 64 :: u64 list)"
  by (rule decompose_optimal [OF decompose_576]) (simp_all add: DENOMINATIONS_def sum_list_replicate)

text \<open>
  C31: The greedy selection is sound and complete. When it selects, the coins are among those
  held (none twice) and are worth exactly the amount; when it gives up, no choice of the held coins
  has that value. The coins are of the system's denominations; the sort is any that sorts.
\<close>

theorem select_exact_correct:
  assumes "sort_laws sort_unstable" and "minted coins"
  shows "case select_exact sort_unstable coins amount of
      Some selected \<Rightarrow> mset selected \<subseteq># mset coins \<and> value_of selected = uint amount
    | None \<Rightarrow> \<forall>S. mset S \<subseteq># mset coins \<longrightarrow> value_of S \<noteq> uint amount"
proof -
  let ?cs = "sort_unstable coins"
  have cs: "mset ?cs = mset coins" "sorted_wrt (\<lambda>c d. denomination_cents d \<le> denomination_cents c) ?cs"
    using assms(1) by (simp_all add: sort_laws_def)
  then have "minted ?cs" using assms(2) by (metis set_mset_mset)
  obtain r sel where run: "select_loop ?cs amount [] = (r, sel)" by (cases "select_loop ?cs amount []")
  then have "mset sel \<subseteq># mset coins" "uint amount = value_of sel + uint r"
    using select_loop_run [OF run] cs(1) by auto
  moreover have "r = 0" if "mset S \<subseteq># mset coins" "value_of S = uint amount" for S
    using select_loop_complete [OF cs(2) \<open>minted ?cs\<close>, of S amount "[]"] that cs(1) run by simp
  ultimately show ?thesis by (auto simp: select_exact_def run)
qed

definition demo_coin :: "u64 \<Rightarrow> Coin" where
  "demo_coin d = \<lparr>scheme_id = 0, denomination_cents = d, serial_number = replicate 32 7, signature = []\<rparr>"

lemma sort_laws_example: "sort_laws (sort_key (\<lambda>c. - uint (denomination_cents c)))"
proof -
  have "sorted_wrt (\<lambda>c d. denomination_cents d \<le> denomination_cents c) (sort_key (\<lambda>c. - uint (denomination_cents c)) cs)"
    for cs :: "Coin list"
    using sorted_sort_key [of "\<lambda>c. - uint (denomination_cents c)" cs] by (simp add: sorted_map word_le_def)
  then show ?thesis by (simp add: sort_laws_def)
qed

lemmas select_demo_simps = select_exact_def demo_coin_def DENOMINATIONS_def

theorem select_exact_correct_witness:
  "mset [demo_coin 512, demo_coin 64] \<subseteq># mset [demo_coin 64, demo_coin 512] \<and>
   value_of [demo_coin 512, demo_coin 64] = 576 \<and>
   (\<nexists>S. mset S \<subseteq># mset [demo_coin 64, demo_coin 512] \<and> value_of S = 100)"
  using select_exact_correct [OF sort_laws_example, of "[demo_coin 64, demo_coin 512]" 576]
    select_exact_correct [OF sort_laws_example, of "[demo_coin 64, demo_coin 512]" 100]
  by (simp add: select_demo_simps)

end
