(* ===== verification/Wallet_Ops.thy ===== *)
theory Wallet_Ops
  imports Wallet_Client Wallet_Coins
begin

text \<open>
  The wallet's operations (\<open>wallet.rs\<close>): registering an identity, opening an account, withdrawing
  coins from the bank, spending them into a bundle file without the bank, and depositing a bundle.
  The database, the codecs, TLS and the machine are the arguments of \<open>Wallet_Store\<close> and
  \<open>Wallet_Client\<close>, collected in one record; what an operation may rely on of them is stated over the
  contents \<open>ct\<close> of the store and the contents \<open>fl\<close> of the files.
\<close>

section \<open>Operations\<close>

record ('sk, 'pk, 'br, 'sgk, 'vk, 'cert, 'pkey, 'roots, 'cfg, 'w) wallet_env =
  we_sled :: "'w sled"
  we_json :: coin_json
  we_wire :: wire_json
  we_os :: "('cfg, 'w) platform"
  we_tls :: "('cert, 'pkey, 'roots, 'cfg) rustls"
  we_hex :: digests
  we_ed :: "('sgk, 'vk) ed25519"
  we_rsa :: "('sk, 'pk, 'br) brsa"
  we_sort :: "Coin list \<Rightarrow> Coin list"

record WalletDepositOutcome =
  do_denomination_cents :: u64
  do_accepted :: bool
  do_reason :: "DepositRejection option"

datatype Wallet = Wallet (bank_url: string)

definition wallet_open :: "('sk, 'pk, 'br, 'sgk, 'vk, 'cert, 'pkey, 'roots, 'cfg, 'w) wallet_env
    \<Rightarrow> string \<Rightarrow> string \<Rightarrow> ('w, WalletError, Wallet) op" where
  "wallet_open E url store_path =
     bind_op (store_open (we_sled E) store_path) (\<lambda>_. ret (Wallet url))"

text \<open>A draw of \<open>n\<close> random bytes handed to a constructor of the core crate.\<close>

definition with_draw :: "('cfg, 'w) platform \<Rightarrow> nat \<Rightarrow> (string + bytes \<Rightarrow> CoreError + 'a) \<Rightarrow> ('w, WalletError, 'a) op" where
  "with_draw P n f w = (case os_random P n w of (draw, w') \<Rightarrow> (map_err WalletCore (f draw), w'))"

definition wallet_register ::
  "('sk, 'pk, 'br, 'sgk, 'vk, 'cert, 'pkey, 'roots, 'cfg, 'w) wallet_env \<Rightarrow> string \<Rightarrow> string \<Rightarrow> string
   \<Rightarrow> ('w, WalletError, unit) op" where
  "wallet_register E account_id ca_pem enroll_url =
     bind_op (with_draw (we_os E) IDENTITY_SECRET_KEY_LEN (identity_generate (we_ed E))) (\<lambda>keypair.
     bind_op (of_result (enroll_client_new (we_tls E) enroll_url ca_pem)) (\<lambda>enroll.
     bind_op (enroll_register (we_os E) (we_wire E) enroll
       \<lparr>reg_account_id = account_id,
        public_key_hex = hex_encode (we_hex E) (identity_to_bytes (we_ed E) (identity_public_key (we_ed E) keypair))\<rparr>) (\<lambda>response.
     bind_op (set_identity (we_sled E)
       \<lparr>si_account_id = account_id, si_secret = identity_secret_bytes (we_ed E) keypair,
        si_client_cert_pem = client_cert_pem response, si_client_key_pem = client_key_pem response,
        si_ca_cert_pem = ca_cert_pem response\<rparr>) (\<lambda>_.
       ret ()))))"

definition wallet_client ::
  "('sk, 'pk, 'br, 'sgk, 'vk, 'cert, 'pkey, 'roots, 'cfg, 'w) wallet_env \<Rightarrow> Wallet
   \<Rightarrow> ('w, WalletError, ('sgk, 'cfg) BankClient \<times> string) op" where
  "wallet_client E wallet =
     bind_op (stored_identity (we_sled E)) (\<lambda>found.
     bind_op (of_result (ok_or NotRegistered found)) (\<lambda>identity.
     bind_op (of_result (bank_client_new (we_tls E) (bank_url wallet) (si_account_id identity)
       (identity_from_secret_bytes (we_ed E) (si_secret identity)) (si_ca_cert_pem identity)
       (si_client_cert_pem identity) (si_client_key_pem identity))) (\<lambda>client.
       ret (client, si_account_id identity))))"

definition wallet_create_account ::
  "('sk, 'pk, 'br, 'sgk, 'vk, 'cert, 'pkey, 'roots, 'cfg, 'w) wallet_env \<Rightarrow> Wallet \<Rightarrow> u64
   \<Rightarrow> ('w, WalletError, BalanceResponse) op" where
  "wallet_create_account E wallet initial =
     bind_op (wallet_client E wallet) (\<lambda>(client, account_id).
       client_create_account (we_os E) (we_wire E) (we_hex E) (we_ed E) client
         \<lparr>ca_account_id = account_id, initial_balance_cents = initial\<rparr>)"

definition wallet_balance ::
  "('sk, 'pk, 'br, 'sgk, 'vk, 'cert, 'pkey, 'roots, 'cfg, 'w) wallet_env \<Rightarrow> Wallet
   \<Rightarrow> ('w, WalletError, BalanceResponse) op" where
  "wallet_balance E wallet =
     bind_op (wallet_client E wallet) (\<lambda>(client, account_id).
       client_balance (we_os E) (we_wire E) (we_hex E) (we_ed E) client account_id)"

text \<open>The loop over the published keys; the hash map is a map.\<close>

fun parse_keys :: "('sk, 'pk, 'br) brsa \<Rightarrow> DenominationKey list \<Rightarrow> (u64 \<rightharpoonup> 'pk) \<Rightarrow> WalletError + (u64 \<rightharpoonup> 'pk)" where
  "parse_keys R [] keys = Inr keys"
| "parse_keys R (key # rest) keys =
     (if dk_scheme_id key \<noteq> SCHEME_ID_RSA_DETERMINISTIC then parse_keys R rest keys
      else bind_result (map_err KeyParse (brsa_from_spki R (public_key_spki key))) (\<lambda>pk.
             parse_keys R rest (keys(dk_denomination_cents key \<mapsto> pk))))"

definition bank_public_keys ::
  "('sk, 'pk, 'br, 'sgk, 'vk, 'cert, 'pkey, 'roots, 'cfg, 'w) wallet_env \<Rightarrow> ('sgk, 'cfg) BankClient
   \<Rightarrow> ('w, WalletError, u64 \<rightharpoonup> 'pk) op" where
  "bank_public_keys E client =
     bind_op (client_denominations (we_os E) (we_wire E) (we_hex E) (we_ed E) client) (\<lambda>response.
       of_result (parse_keys (we_rsa E) (denominations response) Map.empty))"

definition new_request_id :: "('cfg, 'w) platform \<Rightarrow> ('w, WalletError, string) op" where
  "new_request_id P = bind_op (map_err_op RandomError (os_random P 16)) (\<lambda>b. ret (hex_lower b))"

text \<open>\<open>blind\<close> with the default generator: it draws its seed from the machine.\<close>

definition blind_default :: "('sk, 'pk, 'br, 'sgk, 'vk, 'cert, 'pkey, 'roots, 'cfg, 'w) wallet_env \<Rightarrow> 'pk \<Rightarrow> Serial
    \<Rightarrow> ('w, WalletError, 'br) op" where
  "blind_default E pk serial w =
     (case os_rng (we_os E) w of (rng, w') \<Rightarrow> (map_err WalletCore (blind (we_rsa E) pk rng serial), w'))"

text \<open>The body of the withdrawal loop: one coin.\<close>

definition withdraw_coin ::
  "('sk, 'pk, 'br, 'sgk, 'vk, 'cert, 'pkey, 'roots, 'cfg, 'w) wallet_env \<Rightarrow> ('sgk, 'cfg) BankClient \<Rightarrow> string
   \<Rightarrow> (u64 \<rightharpoonup> 'pk) \<Rightarrow> u64 \<Rightarrow> ('w, WalletError, Coin) op" where
  "withdraw_coin E client account_id keys denom =
     bind_op (of_result (ok_or (NoSuchDenomination denom) (keys denom))) (\<lambda>pk.
     bind_op (with_draw (we_os E) 32 serial_generate) (\<lambda>serial.
     bind_op (blind_default E pk serial) (\<lambda>blinding.
     bind_op (new_request_id (we_os E)) (\<lambda>request_id.
     bind_op (client_withdraw (we_os E) (we_wire E) (we_hex E) (we_ed E) client
       \<lparr>wr_account_id = account_id, wr_request_id = request_id, wr_denomination_cents = denom,
        wr_blinded_message = brsa_blind_message (we_rsa E) blinding\<rparr>) (\<lambda>response.
     bind_op (of_result (map_err WalletCore (unblind (we_rsa E) pk (blind_signature response) blinding serial))) (\<lambda>sig.
     bind_op (of_result (map_err WalletCore (verify (we_rsa E) pk serial sig))) (\<lambda>_.
     let coin = \<lparr>scheme_id = SCHEME_ID_RSA_DETERMINISTIC, denomination_cents = denom,
                 serial_number = serial_as_bytes serial, signature = sig\<rparr> in
     bind_op (put_coin (we_sled E) (we_json E) coin) (\<lambda>_.
       ret coin))))))))"

fun withdraw_loop ::
  "('sk, 'pk, 'br, 'sgk, 'vk, 'cert, 'pkey, 'roots, 'cfg, 'w) wallet_env \<Rightarrow> ('sgk, 'cfg) BankClient \<Rightarrow> string
   \<Rightarrow> (u64 \<rightharpoonup> 'pk) \<Rightarrow> u64 list \<Rightarrow> Coin list \<Rightarrow> ('w, WalletError, Coin list) op" where
  "withdraw_loop E client account_id keys [] coins = ret coins"
| "withdraw_loop E client account_id keys (denom # denoms) coins =
     bind_op (withdraw_coin E client account_id keys denom) (\<lambda>coin.
       withdraw_loop E client account_id keys denoms (coins @ [coin]))"

text \<open>The split always returns (\<open>decompose_binary\<close>), so its value is taken.\<close>

definition wallet_withdraw ::
  "('sk, 'pk, 'br, 'sgk, 'vk, 'cert, 'pkey, 'roots, 'cfg, 'w) wallet_env \<Rightarrow> Wallet \<Rightarrow> u64
   \<Rightarrow> ('w, WalletError, Coin list) op" where
  "wallet_withdraw E wallet amount =
     bind_op (wallet_client E wallet) (\<lambda>(client, account_id).
     bind_op (bank_public_keys E client) (\<lambda>keys.
       withdraw_loop E client account_id keys (the (decompose amount)) []))"

definition stored_coins ::
  "('sk, 'pk, 'br, 'sgk, 'vk, 'cert, 'pkey, 'roots, 'cfg, 'w) wallet_env \<Rightarrow> ('w, WalletError, Coin list) op" where
  "stored_coins E = list_coins (we_sled E) (we_json E)"

fun remove_coins :: "'w sled \<Rightarrow> Coin list \<Rightarrow> ('w, WalletError, unit) op" where
  "remove_coins S [] = ret ()"
| "remove_coins S (coin # coins) =
     bind_op (remove_coin S (serial_number coin)) (\<lambda>_. remove_coins S coins)"

definition wallet_spend ::
  "('sk, 'pk, 'br, 'sgk, 'vk, 'cert, 'pkey, 'roots, 'cfg, 'w) wallet_env \<Rightarrow> u64 \<Rightarrow> string
   \<Rightarrow> ('w, WalletError, Coin list) op" where
  "wallet_spend E amount out_path =
     bind_op (list_coins (we_sled E) (we_json E)) (\<lambda>coins.
     let total = held_total coins in
     bind_op (of_result (ok_or (InsufficientCoins amount total) (select_exact (we_sort E) coins amount))) (\<lambda>selected.
     bind_op (of_result (map_err JsonError (bundle_to_vec_pretty (we_json E) selected))) (\<lambda>bundle.
     bind_op (map_err_op IoError (file_write (we_os E) out_path bundle)) (\<lambda>_.
     bind_op (remove_coins (we_sled E) selected) (\<lambda>_.
       ret selected)))))"

fun deposit_loop ::
  "('sk, 'pk, 'br, 'sgk, 'vk, 'cert, 'pkey, 'roots, 'cfg, 'w) wallet_env \<Rightarrow> ('sgk, 'cfg) BankClient \<Rightarrow> string
   \<Rightarrow> Coin list \<Rightarrow> WalletDepositOutcome list \<Rightarrow> ('w, WalletError, WalletDepositOutcome list) op" where
  "deposit_loop E client account_id [] outcomes = ret outcomes"
| "deposit_loop E client account_id (coin # coins) outcomes =
     bind_op (new_request_id (we_os E)) (\<lambda>request_id.
     bind_op (client_deposit (we_os E) (we_wire E) (we_hex E) (we_ed E) client
       \<lparr>dr_coin = coin, dr_account_id = account_id, dr_request_id = request_id\<rparr>) (\<lambda>response.
       deposit_loop E client account_id coins
         (outcomes @ [\<lparr>do_denomination_cents = denomination_cents coin, do_accepted = accepted response,
                       do_reason = reason response\<rparr>])))"

definition wallet_deposit ::
  "('sk, 'pk, 'br, 'sgk, 'vk, 'cert, 'pkey, 'roots, 'cfg, 'w) wallet_env \<Rightarrow> Wallet \<Rightarrow> string
   \<Rightarrow> ('w, WalletError, WalletDepositOutcome list) op" where
  "wallet_deposit E wallet bundle_path =
     bind_op (wallet_client E wallet) (\<lambda>(client, account_id).
     bind_op (map_err_op IoError (file_read (we_os E) bundle_path)) (\<lambda>b.
     bind_op (of_result (map_err JsonError (bundle_from_slice (we_json E) b))) (\<lambda>coins.
       deposit_loop E client account_id coins [])))"

section \<open>What the operations rely on of the machine\<close>

text \<open>An operation that touches neither the store nor the files.\<close>

definition leaves :: "('w \<Rightarrow> 'c) \<Rightarrow> ('w \<Rightarrow> 'f) \<Rightarrow> ('w, 'e, 'a) op \<Rightarrow> bool" where
  "leaves ct fl m \<longleftrightarrow> (\<forall>c f. keeps (\<lambda>w. ct w = c \<and> fl w = f) m)"

text \<open>
  The machine: the store obeys the laws of \<open>sled\<close>; time, randomness, the network and reading a file
  leave store and files alone; a write changes the file it names and no other. That files and store
  are apart means that the paths written lie outside the store's own directory: \<open>spend --out\<close> with a
  path inside it is not covered.
\<close>

definition machine_laws ::
  "('sk, 'pk, 'br, 'sgk, 'vk, 'cert, 'pkey, 'roots, 'cfg, 'w) wallet_env
   \<Rightarrow> ('w \<Rightarrow> string \<Rightarrow> bytes \<Rightarrow> bytes option) \<Rightarrow> ('w \<Rightarrow> string \<Rightarrow> bytes option) \<Rightarrow> bool" where
  "machine_laws E ct fl \<longleftrightarrow>
     sled_laws (we_sled E) ct \<and> json_laws (we_json E) \<and> sort_laws (we_sort E) \<and>
     (\<forall>t k v f. keeps (\<lambda>w. fl w = f) (sled_insert (we_sled E) t k v)) \<and>
     (\<forall>t k f. keeps (\<lambda>w. fl w = f) (sled_remove (we_sled E) t k)) \<and>
     (\<forall>t k f. keeps (\<lambda>w. fl w = f) (sled_get (we_sled E) t k)) \<and>
     (\<forall>f. keeps (\<lambda>w. fl w = f) (sled_flush (we_sled E))) \<and>
     leaves ct fl (os_now (we_os E)) \<and> (\<forall>n. leaves ct fl (os_random (we_os E) n)) \<and>
     (\<forall>w. ct (snd (os_rng (we_os E) w)) = ct w \<and> fl (snd (os_rng (we_os E) w)) = fl w) \<and>
     (\<forall>a q. leaves ct fl (http_send (we_os E) a q)) \<and>
     (\<forall>p. leaves ct fl (file_read (we_os E) p)) \<and>
     (\<forall>p w b w'. file_read (we_os E) p w = (Inr b, w') \<longrightarrow> fl w p = Some b) \<and>
     (\<forall>p b w r w'. file_write (we_os E) p b w = (r, w') \<longrightarrow>
        ct w' = ct w \<and> (\<forall>q. q \<noteq> p \<longrightarrow> fl w' q = fl w q) \<and> (r = Inr () \<longrightarrow> fl w' p = Some b))"

lemma machine_lawsD:
  assumes "machine_laws E ct fl"
  shows "sled_laws (we_sled E) ct" "json_laws (we_json E)" "sort_laws (we_sort E)"
    "keeps (\<lambda>w. fl w = f) (sled_insert (we_sled E) t k v)" "keeps (\<lambda>w. fl w = f) (sled_remove (we_sled E) t k)"
    "keeps (\<lambda>w. fl w = f) (sled_get (we_sled E) t k)" "keeps (\<lambda>w. fl w = f) (sled_flush (we_sled E))"
    "leaves ct fl (os_now (we_os E))" "leaves ct fl (os_random (we_os E) n)"
    "ct (snd (os_rng (we_os E) w)) = ct w" "fl (snd (os_rng (we_os E) w)) = fl w"
    "leaves ct fl (http_send (we_os E) a q)" "leaves ct fl (file_read (we_os E) p)"
  using assms unfolding machine_laws_def by simp_all

lemma machine_files:
  assumes "machine_laws E ct fl"
  shows "file_read (we_os E) p w = (Inr b, w') \<Longrightarrow> fl w p = Some b"
    "file_write (we_os E) p b w = (r, w') \<Longrightarrow>
       ct w' = ct w \<and> (\<forall>q. q \<noteq> p \<longrightarrow> fl w' q = fl w q) \<and> (r = Inr () \<longrightarrow> fl w' p = Some b)"
proof -
  from assms have laws: "\<forall>p w b w'. file_read (we_os E) p w = (Inr b, w') \<longrightarrow> fl w p = Some b"
    "\<forall>p b w r w'. file_write (we_os E) p b w = (r, w') \<longrightarrow>
       ct w' = ct w \<and> (\<forall>q. q \<noteq> p \<longrightarrow> fl w' q = fl w q) \<and> (r = Inr () \<longrightarrow> fl w' p = Some b)"
    unfolding machine_laws_def by simp_all
  show "file_read (we_os E) p w = (Inr b, w') \<Longrightarrow> fl w p = Some b" by (rule laws(1) [rule_format])
  show "file_write (we_os E) p b w = (r, w') \<Longrightarrow>
       ct w' = ct w \<and> (\<forall>q. q \<noteq> p \<longrightarrow> fl w' q = fl w q) \<and> (r = Inr () \<longrightarrow> fl w' p = Some b)"
    by (rule laws(2) [THEN spec, THEN spec, THEN spec, THEN spec, THEN spec, THEN mp])
qed

lemma leavesD: "leaves ct fl m \<Longrightarrow> m w = (r, w') \<Longrightarrow> ct w' = ct w \<and> fl w' = fl w"
  by (auto simp: leaves_def dest: keepsD)

section \<open>Spending\<close>

lemma remove_coins_run:
  assumes "machine_laws E ct fl" and "coins_wf (we_json E) (ct w)" and "remove_coins (we_sled E) coins w = (r, w')"
  shows "coins_wf (we_json E) (ct w') \<and> fl w' = fl w \<and>
    held (we_json E) (ct w') \<subseteq>\<^sub>m held (we_json E) (ct w) \<and>
    (\<forall>k. k \<notin> serial_number ` set coins \<longrightarrow> held (we_json E) (ct w') k = held (we_json E) (ct w) k) \<and>
    (r = Inr () \<longrightarrow> (\<forall>c \<in> set coins. held (we_json E) (ct w') (serial_number c) = None))"
  using assms(2,3)
proof (induction coins arbitrary: w)
  case (Cons c coins)
  note L = machine_lawsD [OF assms(1)]
  let ?h = "held (we_json E)" and ?k = "serial_number c"
  obtain x w1 where x: "remove_coin (we_sled E) ?k w = (x, w1)" by fastforce
  from remove_coin_map [OF L(1) Cons.prems(1) x] have wf1: "coins_wf (we_json E) (ct w1)"
    and h1: "?h (ct w1) = (?h (ct w))(?k := None) \<or> ?h (ct w1) = ?h (ct w) \<and> (\<exists>e. x = Inl e)" by auto
  have "keeps (\<lambda>v. fl v = fl w) (remove_coin (we_sled E) ?k)"
    unfolding remove_coin_def by (intro wp L)
  from keepsD [OF this refl x] have fl1: "fl w1 = fl w" .
  have le1: "?h (ct w1) \<subseteq>\<^sub>m ?h (ct w)" "\<forall>k. k \<noteq> ?k \<longrightarrow> ?h (ct w1) k = ?h (ct w) k"
    using h1 by (auto simp: map_le_def split: if_splits)
  show ?case
  proof (cases x)
    case (Inl e)
    with Cons.prems(2) x have "w' = w1" "r = Inl e" by (simp_all add: bind_op_def)
    with wf1 fl1 le1 show ?thesis by simp
  next
    case (Inr b)
    with Cons.prems(2) x have "remove_coins (we_sled E) coins w1 = (r, w')" by simp
    note IH = Cons.IH [OF wf1 this]
    have "?h (ct w1) ?k = None" using h1 Inr by auto
    moreover have "?h (ct w') \<subseteq>\<^sub>m ?h (ct w1)" using IH by blast
    ultimately have "?h (ct w') ?k = None" by (auto simp: map_le_def dom_def)
    with IH fl1 le1 show ?thesis by (auto intro: map_le_trans)
  qed
qed (auto simp: map_le_def)

lemma list_coins_error: "collect_coins J entries acc \<noteq> Inl (InsufficientCoins a t)"
proof (induction entries arbitrary: acc)
  case (Cons entry entries)
  then show ?case by (cases entry; cases "coin_from_slice J (snd (projr entry))") auto
qed simp

lemma remove_coins_error: "remove_coins S coins w = (Inl e, w') \<Longrightarrow> \<exists>t. e = StoreError t"
  by (induction coins arbitrary: w) (auto simp: remove_coin_def bind_op_Inl bind_op_Inr map_err_op_eq)

lemma wallet_spend_cases:
  assumes "machine_laws E ct fl" and "coins_wf (we_json E) (ct w)" and "wallet_spend E amount path w = (r, w')"
  obtains (unwritten) e where "r = Inl e" "ct w' = ct w" "\<forall>q. q \<noteq> path \<longrightarrow> fl w' q = fl w q"
      "\<And>a t. e = InsufficientCoins a t \<Longrightarrow> fl w' = fl w \<and> a = amount \<and>
         (\<exists>coins. list_coins (we_sled E) (we_json E) w = (Inr coins, w) \<and> t = held_total coins \<and>
            select_exact (we_sort E) coins amount = None)"
  | (written) coins sel blob w1 q where
      "list_coins (we_sled E) (we_json E) w = (Inr coins, w)" "select_exact (we_sort E) coins amount = Some sel"
      "bundle_to_vec_pretty (we_json E) sel = Inr blob" "fl w1 path = Some blob" "ct w1 = ct w"
      "\<forall>q. q \<noteq> path \<longrightarrow> fl w1 q = fl w q"
      "remove_coins (we_sled E) sel w1 = (q, w')" "r = bind_result q (\<lambda>_. Inr sel)"
proof -
  note L = machine_lawsD [OF assms(1)]
  obtain l where l: "list_coins (we_sled E) (we_json E) w = (l, w)" by (simp add: list_coins_def)
  show thesis
  proof (cases l)
    case (Inl e)
    with l assms(3) have "r = Inl e" "w' = w" by (simp_all add: wallet_spend_def)
    moreover have "\<nexists>a t. e = InsufficientCoins a t"
      using l Inl list_coins_error by (auto simp: list_coins_def)
    ultimately show ?thesis by (intro unwritten) auto
  next
    case (Inr coins)
    note l = l [unfolded Inr]
    show ?thesis
    proof (cases "select_exact (we_sort E) coins amount")
      case None
      with l assms(3) have "r = Inl (InsufficientCoins amount (held_total coins))" "w' = w"
        by (simp_all add: wallet_spend_def Let_def)
      with l None show ?thesis by (intro unwritten) auto
    next
      case sel: (Some sel)
      show ?thesis
      proof (cases "bundle_to_vec_pretty (we_json E) sel")
        case (Inl e)
        with l sel assms(3) have "r = Inl (JsonError e)" "w' = w" by (simp_all add: wallet_spend_def Let_def)
        then show ?thesis by (intro unwritten) auto
      next
        case blob: (Inr blob)
        obtain x w1 where x: "file_write (we_os E) path blob w = (x, w1)" by fastforce
        note f = machine_files(2) [OF assms(1) x]
        show ?thesis
        proof (cases x)
          case (Inl e)
          with l sel blob x assms(3) have "r = Inl (IoError e)" "w' = w1"
            by (simp_all add: wallet_spend_def Let_def map_err_op_def)
          with f show ?thesis by (intro unwritten) auto
        next
          case (Inr u)
          obtain q w2 where q: "remove_coins (we_sled E) sel w1 = (q, w2)" by fastforce
          with l sel blob x Inr assms(3) have "r = bind_result q (\<lambda>_. Inr sel)" "w' = w2"
            by (cases q; simp add: wallet_spend_def Let_def map_err_op_def)+
          with l sel blob f q Inr show ?thesis by (intro written) auto
        qed
      qed
    qed
  qed
qed

text \<open>A coin is in the bundle file at \<open>path\<close>.\<close>

definition bundled :: "coin_json \<Rightarrow> (string \<Rightarrow> bytes option) \<Rightarrow> string \<Rightarrow> Coin \<Rightarrow> bool" where
  "bundled J files path coin \<longleftrightarrow> (\<exists>b coins. files path = Some b \<and> bundle_from_slice J b = Inr coins \<and> coin \<in> set coins)"

lemma select_exact_value:
  assumes "sort_laws so" and "select_exact so coins amount = Some sel"
  shows "mset sel \<subseteq># mset coins \<and> value_of sel = uint amount"
proof -
  obtain r where "select_loop (so coins) amount [] = (r, sel)" "r = 0"
    using assms(2) by (auto simp: select_exact_def split: prod.splits if_splits)
  with select_loop_run [of "so coins" amount "[]" r sel] assms(1) show ?thesis by (auto simp: sort_laws_def)
qed

text \<open>
  C34: Spending never loses a coin, whatever fails on the way: after a spend, successful or not, every
  coin that was held is still held or is in the bundle file, nothing new is held, and no other file
  changed. A successful spend returns held coins worth exactly the amount, the bundle file holds
  exactly these coins, and they are no longer held. When the spend reports that it cannot make the
  amount, neither the store nor any file changed. The bundle's path is outside the store's own
  directory (\<open>machine_laws\<close>).
\<close>

theorem spend_keeps_coins:
  assumes "machine_laws E ct fl" and "coins_wf (we_json E) (ct w)" and "wallet_spend E amount path w = (r, w')"
  defines "before \<equiv> held (we_json E) (ct w)" and "after \<equiv> held (we_json E) (ct w')"
  shows "coins_wf (we_json E) (ct w') \<and> after \<subseteq>\<^sub>m before \<and> (\<forall>q. q \<noteq> path \<longrightarrow> fl w' q = fl w q) \<and>
    (\<forall>k coin. before k = Some coin \<longrightarrow> after k = Some coin \<or> bundled (we_json E) (fl w') path coin) \<and>
    (\<forall>sel. r = Inr sel \<longrightarrow> set sel \<subseteq> ran before \<and> value_of sel = uint amount \<and>
       (\<exists>b. fl w' path = Some b \<and> bundle_from_slice (we_json E) b = Inr sel) \<and>
       (\<forall>k. after k = (if k \<in> serial_number ` set sel then None else before k))) \<and>
    (\<forall>a t. r = Inl (InsufficientCoins a t) \<longrightarrow> ct w' = ct w \<and> fl w' = fl w \<and> a = amount)"
  using assms(1-3)
proof (cases rule: wallet_spend_cases)
  case (unwritten e)
  with assms(2) show ?thesis by (auto simp: before_def after_def)
next
  case (written coins sel blob w1 q)
  note L = machine_lawsD [OF assms(1)]
  have "coins_wf (we_json E) (ct w1)" using written(5) assms(2) by simp
  note rm = remove_coins_run [OF assms(1) this written(7)]
  have fpath: "fl w' path = Some blob" using rm written(4) by simp
  have dec: "bundle_from_slice (we_json E) blob = Inr sel" using written(3) L(2) by (simp add: json_laws_def)
  have sel: "set sel \<subseteq> set coins" "value_of sel = uint amount"
    using select_exact_value [OF L(3) written(2)] by (auto dest: mset_subset_eqD set_mset_mono)
  have coins: "set coins = ran before"
    using list_coins_Inr [OF L(1) assms(2) written(1)] by (simp add: before_def)
  have kept: "after k = Some coin \<or> bundled (we_json E) (fl w') path coin" if "before k = Some coin" for k coin
  proof (cases "k \<in> serial_number ` set sel")
    case True
    then obtain c where c: "c \<in> set sel" "serial_number c = k" by auto
    then obtain k' where "before k' = Some c" using sel(1) coins by (auto simp: ran_def)
    with c that held_serial [OF assms(2)] have "c = coin" by (fastforce simp: before_def)
    with c fpath dec show ?thesis by (auto simp: bundled_def)
  next
    case False
    with rm that written(5) show ?thesis by (simp add: before_def after_def)
  qed
  have no: "r \<noteq> Inl (InsufficientCoins a t)" for a t
    using written(7,8) by (cases q) (auto dest: remove_coins_error)
  have gone: "after k = (if k \<in> serial_number ` set sel then None else before k)" if "r = Inr s" for k s
    using that rm written(5,8) by (cases q) (auto simp: before_def after_def)
  have res: "s = sel" if "r = Inr s" for s using that written(8) by (cases q) auto
  show ?thesis
  proof (intro conjI)
    show "coins_wf (we_json E) (ct w')" using rm by blast
    show "after \<subseteq>\<^sub>m before" using rm written(5) by (simp add: before_def after_def)
    show "\<forall>q. q \<noteq> path \<longrightarrow> fl w' q = fl w q" using rm written(6) by simp
    show "\<forall>k coin. before k = Some coin \<longrightarrow> after k = Some coin \<or> bundled (we_json E) (fl w') path coin"
      using kept by blast
    show "\<forall>s. r = Inr s \<longrightarrow> set s \<subseteq> ran before \<and> value_of s = uint amount \<and>
        (\<exists>b. fl w' path = Some b \<and> bundle_from_slice (we_json E) b = Inr s) \<and>
        (\<forall>k. after k = (if k \<in> serial_number ` set s then None else before k))"
    proof (intro allI impI)
      fix s
      assume r: "r = Inr s"
      from res [OF r] gone [OF r] sel coins fpath dec
      show "set s \<subseteq> ran before \<and> value_of s = uint amount \<and>
        (\<exists>b. fl w' path = Some b \<and> bundle_from_slice (we_json E) b = Inr s) \<and>
        (\<forall>k. after k = (if k \<in> serial_number ` set s then None else before k))" by simp
    qed
    show "\<forall>a t. r = Inl (InsufficientCoins a t) \<longrightarrow> ct w' = ct w \<and> fl w' = fl w \<and> a = amount"
      using no by blast
  qed
qed

section \<open>Withdrawing\<close>

lemma keeps_leaves: "leaves ct fl m \<Longrightarrow> keeps (\<lambda>w. ct w = c \<and> fl w = f) m"
  by (simp add: leaves_def)

text \<open>The client's calls and the draws touch neither store nor files.\<close>

lemma keeps_client:
  assumes "machine_laws E ct fl"
  shows "keeps (\<lambda>w. ct w = c \<and> fl w = f) (sign (we_os E) H D client mthd path body)"
    and "keeps (\<lambda>w. ct w = c \<and> fl w = f) (new_request_id (we_os E))"
    and "keeps (\<lambda>w. ct w = c \<and> fl w = f) (with_draw (we_os E) n g)"
    and "keeps (\<lambda>w. ct w = c \<and> fl w = f) (blind_default E pk serial)"
proof -
  note L = machine_lawsD [OF assms]
  note K = L(8,9,12) [THEN keeps_leaves]
  show "keeps (\<lambda>w. ct w = c \<and> fl w = f) (sign (we_os E) H D client mthd path body)"
    unfolding sign_def now_unix_def random_nonce_def Let_def by (intro wp K)
  show "keeps (\<lambda>w. ct w = c \<and> fl w = f) (new_request_id (we_os E))"
    unfolding new_request_id_def by (intro wp K)
  show "keeps (\<lambda>w. ct w = c \<and> fl w = f) (with_draw (we_os E) n g)"
  proof (rule keepsI)
    fix w r w'
    assume I: "ct w = c \<and> fl w = f" and "with_draw (we_os E) n g w = (r, w')"
    then obtain x where "os_random (we_os E) n w = (x, w')" by (auto simp: with_draw_def split: prod.splits)
    from leavesD [OF L(9) this] I show "ct w' = c \<and> fl w' = f" by simp
  qed
  show "keeps (\<lambda>w. ct w = c \<and> fl w = f) (blind_default E pk serial)"
    using L(10,11) by (simp add: keeps_def blind_default_def split_beta)
qed

lemma keeps_signed:
  assumes "machine_laws E ct fl"
  shows "keeps (\<lambda>w. ct w = c \<and> fl w = f) (signed_post (we_os E) H D enc dec client path req)"
    and "keeps (\<lambda>w. ct w = c \<and> fl w = f) (signed_get (we_os E) H D dec client path)"
proof -
  note K = keeps_client(1) [OF assms] machine_lawsD(12) [OF assms, THEN keeps_leaves]
  show "keeps (\<lambda>w. ct w = c \<and> fl w = f) (signed_post (we_os E) H D enc dec client path req)"
    unfolding signed_post_def Let_def by (intro wp K)
  show "keeps (\<lambda>w. ct w = c \<and> fl w = f) (signed_get (we_os E) H D dec client path)"
    unfolding signed_get_def Let_def by (intro wp K)
qed

text \<open>A coin of denomination \<open>d\<close> that verifies under the key the bank publishes for it.\<close>

definition genuine :: "('sk, 'pk, 'br) brsa \<Rightarrow> (u64 \<rightharpoonup> 'pk) \<Rightarrow> u64 \<Rightarrow> Coin \<Rightarrow> bool" where
  "genuine R keys d coin \<longleftrightarrow> scheme_id coin = SCHEME_ID_RSA_DETERMINISTIC \<and> denomination_cents coin = d \<and>
     (\<exists>pk. keys d = Some pk \<and> verify R pk (Serial (serial_number coin)) (signature coin) = Inr ())"

lemma serial_wrap [simp]: "Serial (serial_as_bytes serial) = serial"
  by (cases serial) simp

lemma keeps_put: "machine_laws E ct fl \<Longrightarrow> keeps (\<lambda>w. fl w = f) (put_coin (we_sled E) (we_json E) coin)"
  unfolding put_coin_def by (intro wp machine_lawsD)

lemma hoare_withdraw_coin:
  fixes E :: "('sk, 'pk, 'br, 'sgk, 'vk, 'cert, 'pkey, 'roots, 'cfg, 'w) wallet_env"
  assumes "machine_laws E ct fl" and "coins_wf (we_json E) c"
  shows "hoare (\<lambda>w. ct w = c \<and> fl w = f) (withdraw_coin E client account_id keys d)
    (\<lambda>coin w. coins_wf (we_json E) (ct w) \<and> fl w = f \<and> genuine (we_rsa E) keys d coin \<and>
       held (we_json E) (ct w) = (held (we_json E) c)(serial_number coin \<mapsto> coin))
    (\<lambda>_ w. coins_wf (we_json E) (ct w) \<and> fl w = f \<and>
       (held (we_json E) (ct w) = held (we_json E) c \<or>
        (\<exists>coin. genuine (we_rsa E) keys d coin \<and>
           held (we_json E) (ct w) = (held (we_json E) c)(serial_number coin \<mapsto> coin))))"
    (is "hoare ?I _ ?Q ?E")
proof -
  note L = machine_lawsD [OF assms(1)]
  have err: "keeps ?I m \<Longrightarrow> hoare ?I m (\<lambda>_. ?I) ?E" for m :: "('w, WalletError, 'z) op"
    by (rule hoare_keeps_err) (use assms(2) in auto)
  have bad: "hoare ?I (fail e) q ?E" for e and q :: "'z \<Rightarrow> 'w \<Rightarrow> bool" by (rule hoare_fail) (use assms(2) in auto)
  have put: "hoare ?I (bind_op (put_coin (we_sled E) (we_json E) coin) (\<lambda>_. ret coin)) ?Q ?E"
    if "genuine (we_rsa E) keys d coin" for coin
  proof (rule hoareI)
    fix w coin' w'
    assume "?I w" and run: "bind_op (put_coin (we_sled E) (we_json E) coin) (\<lambda>_. ret coin) w = (Inr coin', w')"
    then have "put_coin (we_sled E) (we_json E) coin w = (Inr (), w')" "coin' = coin" by (auto simp: bind_op_Inr)
    with put_coin_map [OF L(1,2), of w coin "Inr ()" w'] \<open>?I w\<close> assms(2) that keeps_put [OF assms(1)]
    show "?Q coin' w'" by (auto dest: keepsD)
  next
    fix w e w'
    assume "?I w" and run: "bind_op (put_coin (we_sled E) (we_json E) coin) (\<lambda>_. ret coin) w = (Inl e, w')"
    then have "put_coin (we_sled E) (we_json E) coin w = (Inl e, w')" by (auto simp: bind_op_Inl)
    with put_coin_map [OF L(1,2), of w coin "Inl e" w'] \<open>?I w\<close> assms(2) that keeps_put [OF assms(1)]
    show "?E e w'" by (auto dest: keepsD)
  qed
  show ?thesis
    unfolding withdraw_coin_def Let_def client_withdraw_def bind_of_result
    by (intro hoare_sum bad hoare_bind [OF err] keeps_client [OF assms(1)] keeps_signed [OF assms(1)] put)
      (simp_all add: genuine_def serial_wrap)
qed

text \<open>Coins put into the store one after the other.\<close>

definition put_all :: "(bytes \<Rightarrow> Coin option) \<Rightarrow> Coin list \<Rightarrow> bytes \<Rightarrow> Coin option" where
  "put_all m coins = foldl (\<lambda>m c. m(serial_number c \<mapsto> c)) m coins"

lemma put_all_simps [simp]:
  "put_all m [] = m" "put_all m (c # cs) = put_all (m(serial_number c \<mapsto> c)) cs"
  by (simp_all add: put_all_def)

lemma withdraw_loop_run:
  assumes "machine_laws E ct fl" and "coins_wf (we_json E) (ct w)"
    and "withdraw_loop E client account_id keys ds coins w = (r, w')"
  shows "coins_wf (we_json E) (ct w') \<and> fl w' = fl w \<and>
    (\<exists>got. list_all2 (genuine (we_rsa E) keys) (take (length got) ds) got \<and>
       held (we_json E) (ct w') = put_all (held (we_json E) (ct w)) got \<and>
       (\<forall>cs. r = Inr cs \<longrightarrow> cs = coins @ got \<and> length got = length ds))"
  using assms(2,3)
proof (induction ds arbitrary: coins w)
  case (Cons d ds)
  note step = hoare_withdraw_coin [OF assms(1) Cons.prems(1), of "fl w" client account_id keys d]
  obtain x w1 where x: "withdraw_coin E client account_id keys d w = (x, w1)" by fastforce
  show ?case
  proof (cases x)
    case (Inl e)
    with Cons.prems(2) x have r: "r = Inl e" "w' = w1" by (simp_all add: bind_op_def)
    note E = hoare_Inl [OF step _ x [unfolded Inl], simplified]
    have "\<exists>got. list_all2 (genuine (we_rsa E) keys) (take (length got) (d # ds)) got \<and>
       held (we_json E) (ct w1) = put_all (held (we_json E) (ct w)) got"
    proof (cases "held (we_json E) (ct w1) = held (we_json E) (ct w)")
      case True
      then show ?thesis by (intro exI [of _ "[]"]) simp
    next
      case False
      with E obtain coin where "genuine (we_rsa E) keys d coin"
        "held (we_json E) (ct w1) = (held (we_json E) (ct w))(serial_number coin \<mapsto> coin)" by blast
      then show ?thesis by (intro exI [of _ "[coin]"]) simp
    qed
    with E r show ?thesis by simp
  next
    case (Inr coin)
    note Q = hoare_Inr [OF step _ x [unfolded Inr], simplified]
    from Cons.prems(2) x Inr have "withdraw_loop E client account_id keys ds (coins @ [coin]) w1 = (r, w')" by simp
    from Cons.IH [OF _ this] Q obtain got where "coins_wf (we_json E) (ct w')" "fl w' = fl w1"
      "list_all2 (genuine (we_rsa E) keys) (take (length got) ds) got"
      "held (we_json E) (ct w') = put_all (held (we_json E) (ct w1)) got"
      "\<forall>cs. r = Inr cs \<longrightarrow> cs = (coins @ [coin]) @ got \<and> length got = length ds" by blast
    with Q show ?thesis by (intro conjI exI [of _ "coin # got"]) simp_all
  qed
qed (auto intro: exI [of _ "[]"])

lemma genuine_denominations: "list_all2 (genuine R keys) ds got \<Longrightarrow>
    map denomination_cents got = ds \<and> (\<forall>c \<in> set got. genuine R keys (denomination_cents c) c)"
  by (induction rule: list_all2_induct) (auto simp: genuine_def)

lemma keeps_stored_identity:
  assumes "machine_laws E ct fl"
  shows "keeps (\<lambda>w. ct w = c \<and> fl w = f) (stored_identity (we_sled E))"
proof -
  note L = machine_lawsD [OF assms]
  have get: "keeps (\<lambda>w. ct w = c \<and> fl w = f) (sled_get (we_sled E) t k)" for t k
    by (rule keepsI) (use L(6) sled_lawsD(4) [OF L(1)] in \<open>auto dest: keepsD\<close>)
  show ?thesis
    unfolding stored_identity_def stored_account_id_def meta_string_def by (intro wp get)
qed

lemma keeps_wallet_client:
  assumes "machine_laws E ct fl"
  shows "keeps (\<lambda>w. ct w = c \<and> fl w = f) (wallet_client E wallet)"
    and "keeps (\<lambda>w. ct w = c \<and> fl w = f) (bank_public_keys E client)"
proof -
  show "keeps (\<lambda>w. ct w = c \<and> fl w = f) (wallet_client E wallet)"
    unfolding wallet_client_def by (intro wp keeps_stored_identity [OF assms])
  show "keeps (\<lambda>w. ct w = c \<and> fl w = f) (bank_public_keys E client)"
    unfolding bank_public_keys_def client_denominations_def by (intro wp keeps_signed [OF assms])
qed

text \<open>The keys a wallet fetched: it found its identity and the bank answered with them.\<close>

definition fetched :: "('sk, 'pk, 'br, 'sgk, 'vk, 'cert, 'pkey, 'roots, 'cfg, 'w) wallet_env \<Rightarrow> Wallet \<Rightarrow> 'w
    \<Rightarrow> (u64 \<rightharpoonup> 'pk) \<Rightarrow> bool" where
  "fetched E wallet w keys \<longleftrightarrow>
     (\<exists>client account_id w1 w2. wallet_client E wallet w = (Inr (client, account_id), w1) \<and>
        bank_public_keys E client w1 = (Inr keys, w2))"

lemma wallet_withdraw_run:
  assumes "machine_laws E ct fl" and "coins_wf (we_json E) (ct w)" and "wallet_withdraw E wallet amount w = (r, w')"
  shows "coins_wf (we_json E) (ct w') \<and> fl w' = fl w \<and>
    (\<exists>got keys. held (we_json E) (ct w') = put_all (held (we_json E) (ct w)) got \<and>
       (got = [] \<or> fetched E wallet w keys) \<and> (\<forall>c \<in> set got. genuine (we_rsa E) keys (denomination_cents c) c) \<and>
       map denomination_cents got = take (length got) (binary_coins amount) \<and>
       (\<forall>coins. r = Inr coins \<longrightarrow> coins = got \<and> map denomination_cents coins = binary_coins amount \<and>
          value_of coins = uint amount))"
proof -
  obtain x w1 where x: "wallet_client E wallet w = (x, w1)" by fastforce
  then have w1: "ct w1 = ct w" "fl w1 = fl w" using keepsD [OF keeps_wallet_client(1) [OF assms(1)] _ x] by auto
  show ?thesis
  proof (cases x)
    case (Inl e)
    with x assms(3) have "r = Inl e" "w' = w1" by (simp_all add: wallet_withdraw_def bind_op_def)
    with w1 assms(2) show ?thesis by (intro conjI exI [of _ "[]"]) simp_all
  next
    case (Inr ca)
    obtain client account_id where ca: "ca = (client, account_id)" by (cases ca)
    obtain y w2 where y: "bank_public_keys E client w1 = (y, w2)" by fastforce
    then have w2: "ct w2 = ct w" "fl w2 = fl w" using keepsD [OF keeps_wallet_client(2) [OF assms(1)] _ y] w1 by auto
    show ?thesis
    proof (cases y)
      case (Inl e)
      with x Inr ca y assms(3) have "r = Inl e" "w' = w2" by (simp_all add: wallet_withdraw_def bind_op_def)
      with w2 assms(2) show ?thesis by (intro conjI exI [of _ "[]"]) simp_all
    next
      case keys: (Inr keys)
      have f: "fetched E wallet w keys" using x Inr ca y keys by (auto simp: fetched_def)
      have "withdraw_loop E client account_id keys (binary_coins amount) [] w2 = (r, w')"
        using x Inr ca y keys assms(3) by (simp add: wallet_withdraw_def decompose_binary)
      from withdraw_loop_run [OF assms(1) _ this] w2 assms(2) obtain got where got:
        "list_all2 (genuine (we_rsa E) keys) (take (length got) (binary_coins amount)) got"
        "held (we_json E) (ct w') = put_all (held (we_json E) (ct w)) got"
        "\<forall>cs. r = Inr cs \<longrightarrow> cs = got \<and> length got = length (binary_coins amount)"
        and rest: "coins_wf (we_json E) (ct w')" "fl w' = fl w" by auto
      note g = genuine_denominations [OF got(1)]
      have "value_of cs = uint amount" if "map denomination_cents cs = binary_coins amount" for cs
        using binary_coins_value [of amount] unfolding value_of_def that [symmetric] by (simp add: comp_def)
      with g got f rest show ?thesis by (intro conjI exI [of _ got] exI [of _ keys]) auto
    qed
  qed
qed


text \<open>In particular the coins a withdrawal returns are genuine.\<close>

lemma withdraw_genuine:
  assumes "machine_laws E ct fl" and "coins_wf (we_json E) (ct w)" and "wallet_withdraw E wallet amount w = (Inr coins, w')"
  shows "coins = [] \<or> (\<exists>keys. fetched E wallet w keys \<and> (\<forall>c \<in> set coins. genuine (we_rsa E) keys (denomination_cents c) c))"
  using wallet_withdraw_run [OF assms] by auto

section \<open>Concrete runs\<close>

text \<open>
  A host in memory, whose bank publishes one key for all denominations and signs what it is sent;
  the wallet is registered as bob.
\<close>

record demo_host = demo_machine +
  dh_files :: "string \<Rightarrow> bytes option"

definition demo_platform :: "(unit, demo_host) platform" where
  "demo_platform =
     \<lparr>os_now = ret 1000, os_random = (\<lambda>n. ret (replicate n 7)), os_rng = (\<lambda>w. (0, w)),
      file_read = (\<lambda>p w. (case dh_files w p of None \<Rightarrow> Inl ''not found'' | Some b \<Rightarrow> Inr b, w)),
      file_write = (\<lambda>p b w. (Inr (), w\<lparr>dh_files := (dh_files w)(p \<mapsto> b)\<rparr>)),
      http_send = (\<lambda>_ q. of_result (brsa_blind_sign demo_brsa 5 (og_body q @ replicate 4 0))),
      http_send_register = (\<lambda>_ _ _. ret [])\<rparr>"

definition demo_wire :: wire_json where
  "demo_wire =
     \<lparr>create_to_vec = (\<lambda>_. Inr []), withdraw_to_vec = (\<lambda>q. Inr (wr_blinded_message q)), deposit_to_vec = (\<lambda>_. Inr []),
      register_from_json = (\<lambda>_. Inl ''''), balance_from_json = (\<lambda>_. Inl ''''),
      denominations_from_json = (\<lambda>_. Inr \<lparr>denominations = map (\<lambda>d.
        \<lparr>dk_denomination_cents = d, dk_scheme_id = 0, public_key_spki = [5]\<rparr>) DENOMINATIONS\<rparr>),
      withdraw_from_json = (\<lambda>b. Inr \<lparr>blind_signature = take 33 b\<rparr>),
      deposit_from_json = (\<lambda>_. Inr \<lparr>accepted = True, reason = None\<rparr>)\<rparr>"

definition demo_tls :: "(unit, unit, unit, unit) rustls" where
  "demo_tls = \<lparr>pem_certs = (\<lambda>_. [Inr ()]), pem_private_key = (\<lambda>_. Inr (Some ())), roots_empty = (),
     roots_add = (\<lambda>_ _. Inr ()), tls_versions = Inr (), tls_no_client_auth = (\<lambda>_. ()),
     tls_client_auth = (\<lambda>_ _ _. Inr ())\<rparr>"

definition demo_env :: "(u8, u8, bytes, u8, u8, unit, unit, unit, unit, demo_host) wallet_env" where
  "demo_env =
     \<lparr>we_sled = demo_sled, we_json = demo_json, we_wire = demo_wire, we_os = demo_platform, we_tls = demo_tls,
      we_hex = demo_digests, we_ed = demo_ed25519, we_rsa = demo_brsa,
      we_sort = sort_key (\<lambda>c. - uint (denomination_cents c))\<rparr>"

lemma machine_laws_demo: "machine_laws demo_env demo_trees dh_files"
proof -
  have "keeps (\<lambda>w. dh_files w = f) (sled_insert demo_sled t k v)" "keeps (\<lambda>w. dh_files w = f) (sled_remove demo_sled t k)"
    "keeps (\<lambda>w. dh_files w = f) (sled_get demo_sled t k)" "keeps (\<lambda>w. dh_files w = f) (sled_flush demo_sled)" for f t k v
    by (simp_all add: keeps_def demo_sled_def)
  moreover have "leaves demo_trees dh_files (os_now demo_platform)" "leaves demo_trees dh_files (os_random demo_platform n)"
    "leaves demo_trees dh_files (http_send demo_platform a q)" "leaves demo_trees dh_files (file_read demo_platform p)" for n a q p
    by (simp_all add: leaves_def keeps_def demo_platform_def)
  moreover have "demo_trees (w\<lparr>dh_files := f\<rparr>) = demo_trees w" for w f by (simp add: demo_trees_def fun_eq_iff)
  ultimately show ?thesis
    unfolding machine_laws_def
    by (simp add: demo_env_def sled_laws_demo json_laws_demo sort_laws_example)
      (auto simp: demo_platform_def split: option.splits)
qed

definition demo_registered :: demo_host where
  "demo_registered = snd (set_identity demo_sled demo_identity \<lparr>dm_trees = (\<lambda>_. []), dh_files = (\<lambda>_. None)\<rparr>)"

definition demo_withdrawn :: Coin where
  "demo_withdrawn = \<lparr>scheme_id = 0, denomination_cents = 64, serial_number = replicate 32 7, signature = 5 # replicate 32 7\<rparr>"

lemma demo_registered_wf: "coins_wf demo_json (demo_trees demo_registered)"
  by (simp add: coins_wf_def demo_trees_def demo_registered_def set_identity_def demo_sled_def map_err_op_def catch_op_def
      tree_defs)

lemma demo_withdraws: "fst (wallet_withdraw demo_env (Wallet ''https://bank'') 64 demo_registered) = Inr [demo_withdrawn]"
proof -
  have 64: "the (decompose 64) = [64]" by (simp add: decompose_binary binary_coins_def upt_rec)
  show ?thesis unfolding wallet_withdraw_def 64 by code_simp
qed

definition demo_holding :: demo_host where
  "demo_holding = snd (wallet_withdraw demo_env (Wallet ''https://bank'') 64 demo_registered)"

lemma demo_env_json [simp]: "we_json demo_env = demo_json"
  by (simp add: demo_env_def)


lemma demo_holding_wf: "coins_wf demo_json (demo_trees demo_holding)"
proof -
  have "coins_wf demo_json (demo_trees \<lparr>dm_trees = (\<lambda>t. if t = COINS_TREE then [(replicate 32 7, demo_encode demo_withdrawn)]
      else []), dh_files = (\<lambda>_. None)\<rparr>)"
    by (auto simp: coins_wf_def demo_trees_def demo_json_def demo_decode_encode demo_small_def demo_withdrawn_def)
  moreover have "dm_trees demo_holding COINS_TREE = [(replicate 32 7, demo_encode demo_withdrawn)]"
  proof -
    have 64: "the (decompose 64) = [64]" by (simp add: decompose_binary binary_coins_def upt_rec)
    show ?thesis unfolding demo_holding_def wallet_withdraw_def 64 by code_simp
  qed
  ultimately show ?thesis by (simp add: coins_wf_def demo_trees_def)
qed

lemma demo_spends: "fst (wallet_spend demo_env 64 ''out'' demo_holding) = Inr [demo_withdrawn]"
proof -
  have 64: "the (decompose 64) = [64]" by (simp add: decompose_binary binary_coins_def upt_rec)
  show ?thesis unfolding demo_holding_def wallet_withdraw_def 64 by code_simp
qed

theorem spend_keeps_coins_witness:
  "bundled demo_json (dh_files (snd (wallet_spend demo_env 64 ''out'' demo_holding))) ''out'' demo_withdrawn \<and>
   held demo_json (demo_trees (snd (wallet_spend demo_env 64 ''out'' demo_holding))) (replicate 32 7) = None"
proof -
  let ?w = "snd (wallet_spend demo_env 64 ''out'' demo_holding)"
  have run: "wallet_spend demo_env 64 ''out'' demo_holding = (Inr [demo_withdrawn], ?w)"
    using demo_spends by (metis prod.collapse)
  have "coins_wf (we_json demo_env) (demo_trees demo_holding)" by (simp add: demo_holding_wf)
  from spend_keeps_coins [OF machine_laws_demo this run] show ?thesis
    by (auto simp: bundled_def demo_withdrawn_def)
qed

end
