(* ===== verification/Bank_Ledger.thy ===== *)
theory Bank_Ledger
  imports Proto Nonces "HOL-Library.Product_Lexorder"
begin

text \<open>
  The crate \<open>digicash-bank\<close>, its state and the operations on accounts, identities, nonces and
  denomination keys (\<open>error.rs\<close>, \<open>keys.rs\<close>, the schema migration, and \<open>bank.rs\<close> up to the
  withdrawal protocol). The withdrawal state machine and the deposit protocol build on it.
\<close>

section \<open>Errors\<close>

text \<open>Errors of external crates are carried as their text.\<close>

datatype BankError =
    Db pg_error
  | Pool
  | PoolBuild string
  | Sqlx string
  | Migrate string
  | ValueRange string
  | Io string
  | CoreFailure CoreError
  | Key u64 u8 string
  | MalformedBalance string nat
  | AccountExists string
  | AccountNotFound string
  | InsufficientBalance string u64 u64
  | NoKeyForDenomination u64
  | MalformedRecord string string
  | WithdrawFailed string string
  | WithdrawPreviouslyFailed string
  | BalanceOverflow string
  | CertGen string
  | Tls string
  | ClientVerifier string
  | MalformedIdentity string string
  | IdentityExists string
  | RegistryConfig string
  | RegistryHttp string

section \<open>Withdrawal states\<close>

datatype WithdrawState = Pending | Signed | Completed | Compensated

fun as_str :: "WithdrawState \<Rightarrow> string" where
  "as_str Pending = ''pending''"
| "as_str Signed = ''signed''"
| "as_str Completed = ''completed''"
| "as_str Compensated = ''compensated''"

definition parse_state :: "string \<Rightarrow> BankError + WithdrawState" where
  "parse_state value =
     (if value = ''pending'' then Inr Pending
      else if value = ''signed'' then Inr Signed
      else if value = ''completed'' then Inr Completed
      else if value = ''compensated'' then Inr Compensated
      else Inl (MalformedRecord ''<unknown>'' (''unknown withdraw state '' @ value)))"

lemma parse_as_str [simp]: "parse_state (as_str st) = Inr st"
  by (cases st) (simp_all add: parse_state_def)

lemma as_str_inject [simp]: "as_str a = as_str b \<longleftrightarrow> a = b"
  by (metis parse_as_str sum.inject(2))

lemma parse_state_Inr: "parse_state v = Inr st \<longleftrightarrow> v = as_str st"
proof
  show "parse_state v = Inr st \<Longrightarrow> v = as_str st"
    by (cases st) (simp_all add: parse_state_def split: if_splits)
qed simp

text \<open>From here on states are compared by \<open>as_str_inject\<close>, not by their text.\<close>

declare as_str.simps [simp del]

text \<open>
  Progress of a withdrawal: the record moves from pending through signed to completed, or from
  pending to compensated.
\<close>

instantiation WithdrawState :: order
begin

definition less_eq_WithdrawState :: "WithdrawState \<Rightarrow> WithdrawState \<Rightarrow> bool" where
  "a \<le> b \<longleftrightarrow> a = b \<or> a = Pending \<or> (a = Signed \<and> b = Completed)"

definition less_WithdrawState :: "WithdrawState \<Rightarrow> WithdrawState \<Rightarrow> bool" where
  "a < b \<longleftrightarrow> (a :: WithdrawState) \<le> b \<and> a \<noteq> b"

instance
proof
  fix x y z :: WithdrawState
  show "x < y \<longleftrightarrow> x \<le> y \<and> \<not> y \<le> x"
    by (auto simp: less_WithdrawState_def less_eq_WithdrawState_def)
  show "x \<le> x" by (simp add: less_eq_WithdrawState_def)
  show "x \<le> z" if "x \<le> y" "y \<le> z"
    using that by (auto simp: less_eq_WithdrawState_def)
  show "x = y" if "x \<le> y" "y \<le> x"
    using that by (auto simp: less_eq_WithdrawState_def)
qed

end

section \<open>State\<close>

text \<open>
  The tables of the bank's schema and the bank's in-memory nonce counter. \<open>BIGINT\<close> and
  \<open>SMALLINT\<close> columns are \<open>int\<close>; the state column of a withdrawal is the text the code writes.
\<close>

record withdraw_row =
  ws_state :: string
  ws_account_id :: string
  ws_denomination_cents :: int
  ws_blinded_message :: bytes
  ws_blind_signature :: "bytes option"

record deposit_row =
  dp_scheme_id :: int
  dp_denomination_cents :: int
  dp_serial_number :: bytes
  dp_account_id :: string

record bank_db = pg +
  accounts :: "(string, int) table"
  identities :: "(string, bytes) table"
  spent_serials :: "(int \<times> int \<times> bytes, string) table"
  withdraw_states :: "(string, withdraw_row) table"
  deposits :: "(string, deposit_row) table"
  nonce_store :: "(string, int) table"
  nonce_ops :: u64

text \<open>Migrations leave every table empty.\<close>

definition empty_bank :: bank_db where
  "empty_bank =
     \<lparr>faults = [], accounts = [], identities = [], spent_serials = [], withdraw_states = [],
      deposits = [], nonce_store = [], nonce_ops = 0\<rparr>"

section \<open>Numeric conversions\<close>

definition to_i64 :: "u64 \<Rightarrow> string \<Rightarrow> BankError + int" where
  "to_i64 value what =
     ok_or (ValueRange (what @ '' '' @ u64_to_string value @ '' exceeds the i64 column range''))
       (i64_try_from value)"

definition to_u64 :: "int \<Rightarrow> string \<Rightarrow> BankError + u64" where
  "to_u64 value what =
     ok_or (ValueRange (what @ '' is negative: '' @ int_to_string value)) (u64_try_from value)"

lemma to_i64_Inr [simp]: "to_i64 v w = Inr i \<longleftrightarrow> i = uint v \<and> uint v \<le> i64_max"
  by (auto simp: to_i64_def)

lemma to_u64_Inr [simp]: "to_u64 i w = Inr v \<longleftrightarrow> 0 \<le> i \<and> v = word_of_int i"
  by (auto simp: to_u64_def)

lemma to_u64_to_i64: "to_i64 v w = Inr i \<Longrightarrow> to_u64 i w' = Inr v"
  by simp

section \<open>Denomination keys (\<open>keys.rs\<close>)\<close>

text \<open>
  A \<open>BTreeMap\<close> is the list of its entries in ascending key order; keys are
  (denomination, scheme), ordered lexicographically.
\<close>

type_synonym ('sk, 'pk) KeyStore = "((u64 \<times> u8) \<times> ('sk, 'pk) keypair) list"

fun btree_insert :: "'k :: linorder \<Rightarrow> 'v \<Rightarrow> ('k \<times> 'v) list \<Rightarrow> ('k \<times> 'v) list" where
  "btree_insert k v [] = [(k, v)]"
| "btree_insert k v ((k', v') # t) =
     (if k < k' then (k, v) # (k', v') # t
      else if k = k' then (k, v) # t
      else (k', v') # btree_insert k v t)"

definition key_get :: "('sk, 'pk) KeyStore \<Rightarrow> u64 \<Rightarrow> u8 \<Rightarrow> ('sk, 'pk) keypair option" where
  "key_get ks denom scheme = map_of ks (denom, scheme)"

definition public_keys :: "('sk, 'pk) KeyStore \<Rightarrow> (u64 \<times> u8 \<times> 'pk) list" where
  "public_keys ks = map (\<lambda>((denom, scheme), kp). (denom, scheme, kp_pk kp)) ks"

definition denomination_public_key :: "('sk, 'pk) KeyStore \<Rightarrow> u64 \<Rightarrow> u8 \<Rightarrow> 'pk option" where
  "denomination_public_key ks denom scheme = map_option kp_pk (key_get ks denom scheme)"

fun publish_keys :: "('sk, 'pk, 'br) brsa \<Rightarrow> (u64 \<times> u8 \<times> 'pk) list \<Rightarrow> BankError + DenominationKey list" where
  "publish_keys R [] = Inr []"
| "publish_keys R ((denom, scheme, pk) # rest) =
     bind_result (map_err (\<lambda>e. Key denom scheme (''encode SPKI: '' @ e)) (brsa_to_spki R pk)) (\<lambda>spki.
     bind_result (publish_keys R rest) (\<lambda>out.
       Inr (\<lparr>dk_denomination_cents = denom, dk_scheme_id = scheme, public_key_spki = spki\<rparr> # out)))"

definition published_keys ::
  "('sk, 'pk, 'br) brsa \<Rightarrow> ('sk, 'pk) KeyStore \<Rightarrow> BankError + DenominationKey list" where
  "published_keys R ks = publish_keys R (public_keys ks)"

section \<open>Accounts\<close>

text \<open>
  The statements on \<open>accounts\<close>: the column is a \<open>BIGINT\<close> with a check that it is not negative.
\<close>

definition insert_account :: "string \<Rightarrow> int \<Rightarrow> ('x bank_db_scheme, nat) stmt" where
  "insert_account account_id balance s =
     (if balance < 0 then Inl (Check_Violation ''accounts_balance_cents_check'')
      else (case insert_row account_id balance (accounts s) of (n, t) \<Rightarrow> Inr (n, s\<lparr>accounts := t\<rparr>)))"

definition add_balance :: "string \<Rightarrow> int \<Rightarrow> ('x bank_db_scheme, nat) stmt" where
  "add_balance account_id d s =
     (case select_key (accounts s) account_id of
        None \<Rightarrow> Inr (0, s)
      | Some b \<Rightarrow>
          if \<not> is_i64 (b + d) then Inl Bigint_Out_Of_Range
          else if b + d < 0 then Inl (Check_Violation ''accounts_balance_cents_check'')
          else (case update_row account_id (\<lambda>b. b + d) (accounts s) of
                  (n, t) \<Rightarrow> Inr (n, s\<lparr>accounts := t\<rparr>)))"

definition create_account ::
  "string \<Rightarrow> u64 \<Rightarrow> ('x bank_db_scheme, BankError, BalanceResponse) op" where
  "create_account account_id initial =
     bind_op (of_result (to_i64 initial ''initial balance'')) (\<lambda>balance.
     bind_op (pool_get Pool) (\<lambda>_.
     bind_op (execute Db (insert_account account_id balance)) (\<lambda>inserted.
       if inserted = 0 then fail (AccountExists account_id)
       else ret \<lparr>bal_account_id = account_id, balance_cents = initial\<rparr>)))"

definition balance :: "string \<Rightarrow> ('x bank_db_scheme, BankError, u64 option) op" where
  "balance account_id =
     bind_op (pool_get Pool) (\<lambda>_.
     bind_op (query Db (\<lambda>s. select_key (accounts s) account_id)) (\<lambda>row.
       case row of
         Some b \<Rightarrow> bind_op (of_result (to_u64 b ''balance'')) (\<lambda>v. ret (Some v))
       | None \<Rightarrow> ret None))"

section \<open>Identities\<close>

definition insert_identity :: "string \<Rightarrow> bytes \<Rightarrow> ('x bank_db_scheme, nat) stmt" where
  "insert_identity account_id pubkey s =
     (case insert_row account_id pubkey (identities s) of (n, t) \<Rightarrow> Inr (n, s\<lparr>identities := t\<rparr>))"

definition register_identity ::
  "('sgk, 'vk) ed25519 \<Rightarrow> string \<Rightarrow> 'vk IdentityPublicKey \<Rightarrow> ('x bank_db_scheme, BankError, unit) op" where
  "register_identity D account_id public_key =
     (let pubkey = identity_to_bytes D public_key in
      bind_op (pool_get Pool) (\<lambda>_.
      bind_op (execute Db (insert_identity account_id pubkey)) (\<lambda>inserted.
        if inserted = 0 then fail (IdentityExists account_id) else ret ())))"

definition identity_pubkey ::
  "('sgk, 'vk) ed25519 \<Rightarrow> string \<Rightarrow> ('x bank_db_scheme, BankError, 'vk IdentityPublicKey option) op" where
  "identity_pubkey D account_id =
     bind_op (pool_get Pool) (\<lambda>_.
     bind_op (query Db (\<lambda>s. select_key (identities s) account_id)) (\<lambda>row.
       case row of
         Some b \<Rightarrow>
           if length b \<noteq> IDENTITY_PUBLIC_KEY_LEN
           then fail (MalformedIdentity account_id
             (''registered key is '' @ nat_to_dec (length b) @ '' bytes, expected '' @
              nat_to_dec IDENTITY_PUBLIC_KEY_LEN))
           else bind_op (of_result (map_err CoreFailure (identity_from_bytes D b))) (\<lambda>k. ret (Some k))
       | None \<Rightarrow> ret None))"

section \<open>Nonces\<close>

definition NONCE_PRUNE_INTERVAL :: u64 where
  "NONCE_PRUNE_INTERVAL = 1024"

definition record_nonce :: "string \<Rightarrow> int \<Rightarrow> int \<Rightarrow> ('x bank_db_scheme, nat) stmt" where
  "record_nonce nonce expiry now s =
     (case upsert_nonce nonce expiry now (nonce_store s) of (n, t) \<Rightarrow> Inr (n, s\<lparr>nonce_store := t\<rparr>))"

definition purge_nonces :: "int \<Rightarrow> ('x bank_db_scheme, unit) stmt" where
  "purge_nonces now s =
     Inr ((), s\<lparr>nonce_store := unexpired now (nonce_store s)\<rparr>)"

definition purge_expired_nonces :: "u64 \<Rightarrow> ('x bank_db_scheme, BankError, unit) op" where
  "purge_expired_nonces now =
     bind_op (of_result (to_i64 now ''nonce timestamp'')) (\<lambda>now.
     bind_op (pool_get Pool) (\<lambda>_.
       execute Db (purge_nonces now)))"

text \<open>\<open>nonce_ops.fetch_add(1, Relaxed)\<close> returns the old value and wraps.\<close>

definition fetch_add_nonce_ops :: "('x bank_db_scheme, BankError, u64) op" where
  "fetch_add_nonce_ops s = (Inr (nonce_ops s), s\<lparr>nonce_ops := nonce_ops s + 1\<rparr>)"

definition check_and_record_nonce ::
  "string \<Rightarrow> u64 \<Rightarrow> u64 \<Rightarrow> ('x bank_db_scheme, BankError, bool) op" where
  "check_and_record_nonce nonce now ttl_secs =
     bind_op (of_result (to_i64 (u64_saturating_add now ttl_secs) ''nonce expiry'')) (\<lambda>expiry.
     bind_op (of_result (to_i64 now ''nonce timestamp'')) (\<lambda>now_i.
     bind_op (pool_get Pool) (\<lambda>_.
     bind_op (execute Db (record_nonce nonce expiry now_i)) (\<lambda>affected.
     bind_op fetch_add_nonce_ops (\<lambda>ops.
     bind_op (if ops mod NONCE_PRUNE_INTERVAL = NONCE_PRUNE_INTERVAL - 1
              then bind_op (of_result (to_u64 now_i ''nonce timestamp'')) purge_expired_nonces
              else ret ()) (\<lambda>_.
       ret (affected = 1)))))))"

section \<open>Spent serials\<close>

text \<open>The key of a spent serial: \<open>i16::from(scheme)\<close>, the denomination as \<open>BIGINT\<close>, the bytes.\<close>

definition is_serial_spent ::
  "u8 \<Rightarrow> u64 \<Rightarrow> bytes \<Rightarrow> ('x bank_db_scheme, BankError, bool) op" where
  "is_serial_spent scheme denom serial =
     bind_op (pool_get Pool) (\<lambda>_.
     bind_op (of_result (to_i64 denom ''denomination'')) (\<lambda>d.
     bind_op (query Db (\<lambda>s. select_key (spent_serials s) (uint scheme, d, serial))) (\<lambda>row.
       ret (row \<noteq> None))))"

section \<open>Well-formed states\<close>

text \<open>
  What the schema and the code keep true of the tables: one row per key; balances are
  non-negative \<open>BIGINT\<close>s; every withdrawal belongs to an existing account, is in a known state,
  and carries its signature once signed; and the spent serials are exactly the coins of the
  deposit index, each under the request that deposited it.
\<close>

definition tables_keyed :: "'x bank_db_scheme \<Rightarrow> bool" where
  "tables_keyed s \<longleftrightarrow>
     keyed (accounts s) \<and> keyed (identities s) \<and> keyed (spent_serials s) \<and>
     keyed (withdraw_states s) \<and> keyed (deposits s) \<and> keyed (nonce_store s)"

definition balances_ok :: "'x bank_db_scheme \<Rightarrow> bool" where
  "balances_ok s \<longleftrightarrow> (\<forall>a b. map_of (accounts s) a = Some b \<longrightarrow> 0 \<le> b \<and> b \<le> i64_max)"

definition withdrawal_ok :: "(string, int) table \<Rightarrow> withdraw_row \<Rightarrow> bool" where
  "withdrawal_ok acc w \<longleftrightarrow>
     map_of acc (ws_account_id w) \<noteq> None \<and>
     0 \<le> ws_denomination_cents w \<and> ws_denomination_cents w \<le> i64_max \<and>
     (\<exists>st. ws_state w = as_str st \<and>
           (st = Signed \<or> st = Completed \<longrightarrow> ws_blind_signature w \<noteq> None))"

definition withdrawals_ok :: "'x bank_db_scheme \<Rightarrow> bool" where
  "withdrawals_ok s \<longleftrightarrow>
     (\<forall>r w. map_of (withdraw_states s) r = Some w \<longrightarrow> withdrawal_ok (accounts s) w)"

definition coin_key :: "deposit_row \<Rightarrow> int \<times> int \<times> bytes" where
  "coin_key d = (dp_scheme_id d, dp_denomination_cents d, dp_serial_number d)"

definition deposits_ok :: "'x bank_db_scheme \<Rightarrow> bool" where
  "deposits_ok s \<longleftrightarrow>
     (\<forall>r d. map_of (deposits s) r = Some d \<longrightarrow>
        map_of (spent_serials s) (coin_key d) = Some r \<and>
        map_of (accounts s) (dp_account_id d) \<noteq> None) \<and>
     (\<forall>k r. map_of (spent_serials s) k = Some r \<longrightarrow>
        (\<exists>d. map_of (deposits s) r = Some d \<and> coin_key d = k))"

definition bank_wf :: "'x bank_db_scheme \<Rightarrow> bool" where
  "bank_wf s \<longleftrightarrow> tables_keyed s \<and> balances_ok s \<and> withdrawals_ok s \<and> deposits_ok s"

text \<open>
  The books, over any set of accounts: what the accounts hold, what withdrawals that were not
  rolled back took out of them, and what deposits brought back in. With one account the sum is
  what its owner has been given; with all of them it is what the bank owes for.
\<close>

definition outstanding :: "withdraw_row \<Rightarrow> int" where
  "outstanding w = (if ws_state w = as_str Compensated then 0 else ws_denomination_cents w)"

definition money :: "'x bank_db_scheme \<Rightarrow> (string \<Rightarrow> bool) \<Rightarrow> int" where
  "money s P =
     sum_rows (\<lambda>a b. if P a then b else 0) (accounts s)
     + sum_rows (\<lambda>_ w. if P (ws_account_id w) then outstanding w else 0) (withdraw_states s)
     - sum_rows (\<lambda>_ d. if P (dp_account_id d) then dp_denomination_cents d else 0) (deposits s)"

text \<open>
  How the tables may evolve: a withdrawal keeps its account, amount and message, its state only
  progresses and a signature once given stays; spent serials, deposits and identities are never
  forgotten or changed, and accounts stay.
\<close>

definition row_evolves :: "withdraw_row \<Rightarrow> withdraw_row \<Rightarrow> bool" where
  "row_evolves w w' \<longleftrightarrow>
     ws_account_id w' = ws_account_id w \<and> ws_denomination_cents w' = ws_denomination_cents w \<and>
     ws_blinded_message w' = ws_blinded_message w \<and>
     (\<forall>st. ws_state w = as_str st \<longrightarrow>
        (\<exists>st'. ws_state w' = as_str st' \<and> st \<le> st') \<and>
        (st \<noteq> Pending \<longrightarrow> ws_blind_signature w' = ws_blind_signature w))"

definition evolves :: "'x bank_db_scheme \<Rightarrow> 'x bank_db_scheme \<Rightarrow> bool" where
  "evolves h s \<longleftrightarrow>
     (\<forall>r w. map_of (withdraw_states h) r = Some w \<longrightarrow>
        (\<exists>w'. map_of (withdraw_states s) r = Some w' \<and> row_evolves w w')) \<and>
     map_of (spent_serials h) \<subseteq>\<^sub>m map_of (spent_serials s) \<and>
     map_of (deposits h) \<subseteq>\<^sub>m map_of (deposits s) \<and>
     map_of (identities h) \<subseteq>\<^sub>m map_of (identities s) \<and>
     (\<forall>a. map_of (accounts s) a = None \<longrightarrow> map_of (accounts h) a = None)"

definition booked :: "((string \<Rightarrow> bool) \<Rightarrow> int) \<Rightarrow> 'x bank_db_scheme \<Rightarrow> 'x bank_db_scheme \<Rightarrow> bool" where
  "booked c h s \<longleftrightarrow> bank_wf s \<and> money s = c \<and> evolves h s"

lemma row_evolves_refl [simp, intro]: "row_evolves w w"
  by (auto simp: row_evolves_def)

lemma WithdrawState_start: "st \<noteq> Pending \<Longrightarrow> st \<le> st' \<Longrightarrow> st' \<noteq> Pending"
  by (auto simp: less_eq_WithdrawState_def)

lemma row_evolves_trans:
  assumes uv: "row_evolves u v" and vw: "row_evolves v w"
  shows "row_evolves u w"
proof -
  have "(\<exists>st'. ws_state w = as_str st' \<and> st \<le> st') \<and>
      (st \<noteq> Pending \<longrightarrow> ws_blind_signature w = ws_blind_signature u)" if u: "ws_state u = as_str st" for st
  proof -
    from uv u obtain st1 where 1: "ws_state v = as_str st1" "st \<le> st1"
      "st \<noteq> Pending \<longrightarrow> ws_blind_signature v = ws_blind_signature u" unfolding row_evolves_def by metis
    with vw obtain st2 where 2: "ws_state w = as_str st2" "st1 \<le> st2"
      "st1 \<noteq> Pending \<longrightarrow> ws_blind_signature w = ws_blind_signature v" unfolding row_evolves_def by metis
    from 1(2) 2(2) have "st \<le> st2" by (rule order_trans)
    moreover have "st \<noteq> Pending \<longrightarrow> ws_blind_signature w = ws_blind_signature u"
      using 1(2,3) 2(3) WithdrawState_start by auto
    ultimately show ?thesis using 2(1) by blast
  qed
  with uv vw show ?thesis by (simp add: row_evolves_def)
qed

lemma evolves_refl [simp, intro]: "evolves s s"
  by (auto simp: evolves_def)

lemma evolves_trans: "evolves s t \<Longrightarrow> evolves t u \<Longrightarrow> evolves s u"
  unfolding evolves_def by (blast intro: row_evolves_trans map_le_trans)

lemmas wf_defs = bank_wf_def tables_keyed_def balances_ok_def withdrawals_ok_def deposits_ok_def

lemma fault_free_tables [simp, intro]:
  "fault_free (bank_wf :: 'x bank_db_scheme \<Rightarrow> bool)"
  "fault_free (money :: 'x bank_db_scheme \<Rightarrow> (string \<Rightarrow> bool) \<Rightarrow> int)"
  "fault_free (evolves h :: 'x bank_db_scheme \<Rightarrow> bool)"
  "fault_free (booked c h :: 'x bank_db_scheme \<Rightarrow> bool)"
  by (simp_all add: fault_free_def booked_def money_def evolves_def wf_defs fun_eq_iff)

lemma booked_faults [simp]:
  "booked c h (s\<lparr>faults := fs\<rparr>) = booked c h s"
  "bank_wf (s\<lparr>faults := fs\<rparr>) = bank_wf s"
  "money (s\<lparr>faults := fs\<rparr>) = money s"
  using fault_free_tables(1,2) fault_free_tables(4) [of c h] unfolding fault_free_def by blast+

lemma empty_bank_booked: "booked (\<lambda>_. 0) empty_bank empty_bank"
  by (simp add: booked_def money_def wf_defs empty_bank_def fun_eq_iff)

subsection \<open>How the statements act on well-formed states\<close>

lemma add_balance_cases:
  assumes "add_balance a d s = Inr (n, s')"
  obtains (absent) "map_of (accounts s) a = None" "n = 0" "s' = s"
  | (present) b where "map_of (accounts s) a = Some b" "0 \<le> b + d" "b + d \<le> i64_max" "n = 1"
      "s' = s\<lparr>accounts := snd (update_row a (\<lambda>b. b + d) (accounts s))\<rparr>"
proof (cases "map_of (accounts s) a")
  case None
  with assms have "n = 0" "s' = s" by (auto simp: add_balance_def)
  with None show thesis by (rule absent)
next
  case (Some b)
  with assms update_row_count [of a "\<lambda>b. b + d" "accounts s"]
  have "0 \<le> b + d" "b + d \<le> i64_max" "n = 1"
    "s' = s\<lparr>accounts := snd (update_row a (\<lambda>b. b + d) (accounts s))\<rparr>"
    by (auto simp: add_balance_def is_i64_def split: if_splits prod.splits)
  with Some show thesis by (rule present)
qed

lemma add_balance_money:
  assumes "keyed (accounts s)" and "add_balance a d s = Inr (n, s')"
  shows "sum_rows (\<lambda>k b. if P k then b else 0) (accounts s') =
    sum_rows (\<lambda>k b. if P k then b else 0) (accounts s) + (if n \<noteq> 0 \<and> P a then d else 0)"
  using assms(2)
proof (cases rule: add_balance_cases)
  case (present b)
  with assms(1) show ?thesis by (simp add: sum_rows_update)
qed simp

lemma map_of_update_None [simp]:
  "map_of (snd (update_row k g t)) k' = None \<longleftrightarrow> map_of t k' = None"
  by (simp add: select_update_row)

lemma add_balance_wf:
  assumes "bank_wf s" and "add_balance a d s = Inr (n, s')"
  shows "bank_wf s'"
  using assms(2)
proof (cases rule: add_balance_cases)
  case (present b)
  with assms(1) show ?thesis
    by (simp add: wf_defs withdrawal_ok_def select_update_row)
qed (use assms in simp)

lemma add_balance_frame:
  assumes "add_balance a d s = Inr (n, s')"
  shows "withdraw_states s' = withdraw_states s" "deposits s' = deposits s"
    "spent_serials s' = spent_serials s" "nonce_store s' = nonce_store s"
    "identities s' = identities s" "faults s' = faults s"
  using assms by (cases rule: add_balance_cases; simp)+

text \<open>The books after an account was given \<open>d\<close> more.\<close>

definition credit :: "((string \<Rightarrow> bool) \<Rightarrow> int) \<Rightarrow> string \<Rightarrow> int \<Rightarrow> (string \<Rightarrow> bool) \<Rightarrow> int" where
  "credit c a d P = c P + (if P a then d else 0)"

lemma credit_simps [simp]:
  "credit c a 0 = c"
  "credit (credit c a d) a e = credit c a (d + e)"
  by (auto simp: credit_def fun_eq_iff)

lemma booked_add_balance:
  assumes "booked c h s" and "add_balance a d s = Inr (n, s')"
  shows "booked (credit c a (if n = 0 then 0 else d)) h s'"
proof -
  note frame = add_balance_frame [OF assms(2)]
  have "keyed (accounts s)" using assms(1) by (simp add: booked_def wf_defs)
  from add_balance_money [OF this assms(2)] have "money s' = credit (money s) a (if n = 0 then 0 else d)"
    by (simp add: money_def credit_def fun_eq_iff frame)
  moreover have "bank_wf s'" using assms add_balance_wf by (auto simp: booked_def)
  moreover have "map_of (accounts s') x = None \<longleftrightarrow> map_of (accounts s) x = None" for x
    using assms(2) by (cases rule: add_balance_cases) simp_all
  ultimately show ?thesis using assms(1) frame by (auto simp: booked_def evolves_def)
qed

lemma add_balance_count:
  "add_balance a d s = Inr (n, s') \<Longrightarrow> (n = 0) = (map_of (accounts s) a = None)"
  by (erule add_balance_cases) auto

subsection \<open>Accounts, identities and nonces keep the books\<close>

lemma insert_account_books:
  assumes "bank_wf s" and "0 \<le> b" "b \<le> i64_max" and "insert_account a b s = Inr (n, s')"
  shows "bank_wf s' \<and>
    money s' P = money s P + (if map_of (accounts s) a = None \<and> P a then b else 0) \<and>
    map_of (accounts s') = (map_of (accounts s))(a := Some (case map_of (accounts s) a of None \<Rightarrow> b | Some b' \<Rightarrow> b'))"
proof (cases "map_of (accounts s) a")
  case None
  with assms have s': "s' = s\<lparr>accounts := snd (insert_row a b (accounts s))\<rparr>"
    by (auto simp: insert_account_def split: prod.splits)
  with None assms have "bank_wf s'"
    by (auto simp: wf_defs withdrawal_ok_def select_insert_row)
  moreover have "money s' P = money s P + (if P a then b else 0)"
    using s' None by (simp add: money_def sum_rows_insert_new)
  ultimately show ?thesis using s' None by (auto simp: select_insert_row fun_eq_iff)
next
  case (Some b')
  with assms have "s' = s" by (auto simp: insert_account_def insert_row_old split: prod.splits)
  with Some assms show ?thesis by (auto simp: fun_eq_iff)
qed

lemma booked_side_tables:
  "keyed t \<Longrightarrow> map_of (identities s) \<subseteq>\<^sub>m map_of t \<Longrightarrow> booked c h s \<Longrightarrow> booked c h (s\<lparr>identities := t\<rparr>)"
  "keyed u \<Longrightarrow> booked c h s \<Longrightarrow> booked c h (s\<lparr>nonce_store := u\<rparr>)"
  "booked c h s \<Longrightarrow> booked c h (s\<lparr>nonce_ops := k\<rparr>)"
  by (auto simp: booked_def money_def evolves_def wf_defs fun_eq_iff intro: map_le_trans)

lemma booked_keyed: "booked c h s \<Longrightarrow> keyed (identities s)" "booked c h s \<Longrightarrow> keyed (nonce_store s)"
  by (simp_all add: booked_def bank_wf_def tables_keyed_def)

lemma insert_row_le: "insert_row k v t = (n, t') \<Longrightarrow> map_of t \<subseteq>\<^sub>m map_of t'"
  using select_insert_row [of k v t] by (auto simp: map_le_def)

lemma keeps_register_identity [wp]: "keeps (booked c h) (register_identity D a k)"
  unfolding register_identity_def Let_def
  by (intro wp fault_free_tables)
    (auto simp: insert_identity_def split: prod.splits
      intro!: booked_side_tables insert_row_keyed [OF _ booked_keyed(1)] insert_row_le)

lemma keeps_queries [wp]:
  "keeps (booked c h) (balance a)" "keeps (booked c h) (identity_pubkey D a)"
  "keeps (booked c h) (is_serial_spent sch d n)"
  unfolding balance_def identity_pubkey_def is_serial_spent_def
  by (intro wp fault_free_tables)+

lemma keeps_purge [wp]: "keeps (booked c h) (purge_expired_nonces now)"
  unfolding purge_expired_nonces_def
  by (intro wp fault_free_tables)
    (auto simp: purge_nonces_def unexpired_def intro!: booked_side_tables keyed_delete_rows booked_keyed)

lemma record_nonce_ok [simp]:
  "record_nonce n e now s = Inr (fst (upsert_nonce n e now (nonce_store s)),
     s\<lparr>nonce_store := snd (upsert_nonce n e now (nonce_store s))\<rparr>)"
  by (simp add: record_nonce_def split: prod.splits)

lemma keeps_check_nonce [wp]: "keeps (booked c h) (check_and_record_nonce n now ttl)"
  unfolding check_and_record_nonce_def
  by (intro wp fault_free_tables)
    (auto simp: fetch_add_nonce_ops_def keeps_def intro!: booked_side_tables upsert_nonce_keyed
      dest: booked_keyed(2))

subsection \<open>Functional behaviour without faults\<close>

lemma create_account_ok:
  assumes "faults s = []"
  shows "create_account a v s =
    (if i64_max < uint v
     then (Inl (ValueRange (''initial balance '' @ u64_to_string v @ '' exceeds the i64 column range'')), s)
     else case map_of (accounts s) a of
       None \<Rightarrow> (Inr \<lparr>bal_account_id = a, balance_cents = v\<rparr>, s\<lparr>accounts := accounts s @ [(a, uint v)]\<rparr>)
     | Some _ \<Rightarrow> (Inl (AccountExists a), s))"
  using assms
  by (auto simp: create_account_def to_i64_def i64_try_from_def insert_account_def insert_row_new
      insert_row_old split: option.splits)

lemma balance_ok:
  assumes "faults s = []" and "balances_ok s"
  shows "balance a s = (Inr (map_option word_of_int (map_of (accounts s) a)), s)"
  using assms
  by (auto simp: balance_def balances_ok_def to_u64_def u64_try_from_def split: option.splits)

subsection \<open>The nonce store honours the anti-replay contract\<close>

lemma keeps_fetch_add [wp]:
  "(\<And>s k. I (s\<lparr>nonce_ops := k\<rparr>) = I s) \<Longrightarrow> keeps I fetch_add_nonce_ops"
  by (simp add: keeps_def fetch_add_nonce_ops_def)

abbreviation nonce_step :: "int \<Rightarrow> (string, int) table \<Rightarrow> 'x bank_db_scheme \<Rightarrow> bool" where
  "nonce_step now t s \<equiv> purged now t (nonce_store s)"

lemma keeps_maybe_purge:
  "keeps (nonce_step (uint (now :: u64)) t)
     (if p then bind_op (of_result (to_u64 (uint now) w)) purge_expired_nonces else ret ())"
proof -
  have "keeps (nonce_step (uint now) t) (purge_expired_nonces now)"
    unfolding purge_expired_nonces_def bind_of_result
    by (intro wp) (auto simp: fault_free_def purge_nonces_def purged_again)
  then show ?thesis unfolding bind_of_result by (intro wp) simp_all
qed

lemma check_nonce_hoare:
  fixes n :: string and now ttl :: u64
  defines "U T \<equiv> upsert_nonce n (uint now + uint ttl) (uint now) T"
  shows "hoare (\<lambda>s. nonce_store s = T) (check_and_record_nonce n now ttl)
    (\<lambda>b s. b = (fst (U T) = 1) \<and> nonce_step (uint now) (snd (U T)) s)
    (\<lambda>_ s. nonce_store s = T \<or> nonce_step (uint now) (snd (U T)) s)" (is "hoare ?P _ ?Q ?E")
proof -
  let ?R = "nonce_step (uint now) (snd (U T))"
  have rec: "hoare ?P (execute Db (record_nonce n (uint now + uint ttl) (uint now)))
      (\<lambda>k s. k = fst (U T) \<and> ?R s) ?E"
    by (rule hoare_execute) (auto simp: fault_free_def U_def)
  have pool: "hoare ?P (pool_get Pool) (\<lambda>_. ?P) ?E"
    by (rule hoare_pool_get) (simp_all add: fault_free_def)
  show ?thesis
  proof (cases "uint (u64_saturating_add now ttl) \<le> i64_max \<and> uint now \<le> i64_max")
    case True
    then have i64: "to_i64 (u64_saturating_add now ttl) w = Inr (uint now + uint ttl)"
      "to_i64 now w = Inr (uint now)" for w by (auto simp: uint_saturating_add min_def split: if_splits)
    show ?thesis
      unfolding check_and_record_nonce_def i64 bind_of_Inr
      by (rule hoare_nonce_check [OF pool rec keeps_fetch_add keeps_maybe_purge]) simp_all
  next
    case False
    then show ?thesis
      by (auto simp: check_and_record_nonce_def bind_of_result to_i64_def i64_try_from_def hoare_def)
  qed
qed

interpretation bank_nonces: nonce_table check_and_record_nonce nonce_store
proof
  fix n now ttl and s s' :: "'x bank_db_scheme" and r
  assume run: "check_and_record_nonce n now ttl s = (r, s')"
  show "nonce_store s' = nonce_store s \<and> r \<noteq> Inr True \<or>
    nonce_step (uint now) (snd (upsert_nonce n (uint now + uint ttl) (uint now) (nonce_store s))) s' \<and>
      (r = Inr True \<longrightarrow> fst (upsert_nonce n (uint now + uint ttl) (uint now) (nonce_store s)) = 1)"
    using hoare_Inl [OF check_nonce_hoare refl, of n now ttl s] run
      hoare_Inr [OF check_nonce_hoare refl, of n now ttl s _ s']
    by (cases r) blast+
qed

end
