(* ===== verification/Bank_Withdraw.thy ===== *)
theory Bank_Withdraw
  imports Bank_Ledger
begin

text \<open>
  The withdrawal state machine of \<open>bank.rs\<close>: the record read from \<open>withdraw_states\<close>, the debit
  transaction, signing, compensation, the idempotent retry, and the recovery a bank runs when it
  starts. The theorems hold whatever the database does to each call, unless they say otherwise.
\<close>

section \<open>Operations\<close>

record WithdrawalRecord =
  rec_state :: WithdrawState
  rec_account_id :: string
  rec_denomination_cents :: u64
  rec_blinded_message :: bytes
  rec_blind_signature :: "bytes option"

definition load_record :: "string \<Rightarrow> ('x bank_db_scheme, BankError, WithdrawalRecord option) op" where
  "load_record request_id =
     bind_op (pool_get Pool) (\<lambda>_.
     bind_op (query Db (\<lambda>s. select_key (withdraw_states s) request_id)) (\<lambda>row.
       case row of
         Some w \<Rightarrow>
           bind_op (of_result (parse_state (ws_state w))) (\<lambda>state.
           bind_op (of_result (to_u64 (ws_denomination_cents w) ''denomination'')) (\<lambda>denom.
             ret (Some \<lparr>rec_state = state, rec_account_id = ws_account_id w,
                        rec_denomination_cents = denom, rec_blinded_message = ws_blinded_message w,
                        rec_blind_signature = ws_blind_signature w\<rparr>)))
       | None \<Rightarrow> ret None))"

text \<open>\<open>UPDATE withdraw_states SET ... WHERE request_id = $n\<close>.\<close>

definition update_withdrawal ::
  "string \<Rightarrow> (withdraw_row \<Rightarrow> withdraw_row) \<Rightarrow> ('x bank_db_scheme, nat) stmt" where
  "update_withdrawal request_id g s =
     (case update_row request_id g (withdraw_states s) of (n, t) \<Rightarrow> Inr (n, s\<lparr>withdraw_states := t\<rparr>))"

definition set_state :: "string \<Rightarrow> WithdrawState \<Rightarrow> ('x bank_db_scheme, BankError, unit) op" where
  "set_state request_id state =
     bind_op (pool_get Pool) (\<lambda>_.
     bind_op (execute Db (update_withdrawal request_id (\<lambda>w. w\<lparr>ws_state := as_str state\<rparr>))) (\<lambda>_.
       ret ()))"

definition compensate :: "string \<Rightarrow> string \<Rightarrow> u64 \<Rightarrow> ('x bank_db_scheme, BankError, unit) op" where
  "compensate request_id account_id cents =
     bind_op (of_result (to_i64 cents ''denomination'')) (\<lambda>denom.
     bind_op (pool_get Pool) (\<lambda>_.
       transaction Db
        (bind_op (execute Db (add_balance account_id denom)) (\<lambda>_.
         bind_op (execute Db (update_withdrawal request_id
                    (\<lambda>w. w\<lparr>ws_state := as_str Compensated\<rparr>))) (\<lambda>_.
           ret (Commit ()))))))"

text \<open>The plain \<open>INSERT\<close> of a withdrawal: an existing request id is a unique violation.\<close>

definition insert_withdrawal :: "string \<Rightarrow> withdraw_row \<Rightarrow> ('x bank_db_scheme, nat) stmt" where
  "insert_withdrawal request_id w s =
     (case insert_row request_id w (withdraw_states s) of
        (n, t) \<Rightarrow> if n = 0 then Inl (Unique_Violation ''withdraw_states_pkey'')
                  else Inr (n, s\<lparr>withdraw_states := t\<rparr>))"

definition debit_and_record_pending :: "WithdrawRequest \<Rightarrow> ('x bank_db_scheme, BankError, unit) op" where
  "debit_and_record_pending req =
     bind_op (of_result (to_i64 (wr_denomination_cents req) ''denomination'')) (\<lambda>denom.
     bind_op (pool_get Pool) (\<lambda>_.
       transaction Db
        (bind_op (query Db (\<lambda>s. select_key (accounts s) (wr_account_id req))) (\<lambda>row.
           case row of
             None \<Rightarrow> fail (AccountNotFound (wr_account_id req))
           | Some bal \<Rightarrow>
               if bal < denom
               then bind_op (of_result (to_u64 bal ''balance'')) (\<lambda>b.
                      fail (InsufficientBalance (wr_account_id req) b (wr_denomination_cents req)))
               else
                 bind_op (execute Db (add_balance (wr_account_id req) (- denom))) (\<lambda>_.
                 bind_op (execute Db (insert_withdrawal (wr_request_id req)
                   \<lparr>ws_state = as_str Pending, ws_account_id = wr_account_id req,
                    ws_denomination_cents = denom, ws_blinded_message = wr_blinded_message req,
                    ws_blind_signature = None\<rparr>)) (\<lambda>_.
                   ret (Commit ())))))))"

definition finalize_withdraw ::
  "('sk, 'pk, 'br) brsa \<Rightarrow> ('sk, 'pk) KeyStore \<Rightarrow> string \<Rightarrow> string \<Rightarrow> u64 \<Rightarrow> bytes
   \<Rightarrow> ('x bank_db_scheme, BankError, bytes) op" where
  "finalize_withdraw R keys request_id account_id denom blinded_message =
     bind_op (of_result (ok_or (NoKeyForDenomination denom)
                (key_get keys denom SCHEME_ID_RSA_DETERMINISTIC))) (\<lambda>keypair.
       case sign_blinded R (kp_sk keypair) blinded_message of
         Inr sig \<Rightarrow>
           bind_op (pool_get Pool) (\<lambda>_.
           bind_op (execute Db (update_withdrawal request_id
                      (\<lambda>w. w\<lparr>ws_state := as_str Signed, ws_blind_signature := Some sig\<rparr>))) (\<lambda>_.
           bind_op (set_state request_id Completed) (\<lambda>_.
             ret sig)))
       | Inl e \<Rightarrow>
           bind_op (compensate request_id account_id denom) (\<lambda>_.
             fail (WithdrawFailed request_id (core_error_to_string e))))"

definition resume_withdraw ::
  "('sk, 'pk, 'br) brsa \<Rightarrow> ('sk, 'pk) KeyStore \<Rightarrow> string \<Rightarrow> WithdrawalRecord
   \<Rightarrow> ('x bank_db_scheme, BankError, WithdrawResponse) op" where
  "resume_withdraw R keys request_id rcd =
     (if rec_state rcd = Completed \<or> rec_state rcd = Signed
      then bind_op (of_result (ok_or (MalformedRecord request_id ''signed record has no signature'')
                     (rec_blind_signature rcd))) (\<lambda>sig.
           bind_op (if rec_state rcd = Signed then set_state request_id Completed else ret ()) (\<lambda>_.
             ret \<lparr>blind_signature = sig\<rparr>))
      else if rec_state rcd = Pending
      then bind_op (finalize_withdraw R keys request_id (rec_account_id rcd)
                     (rec_denomination_cents rcd) (rec_blinded_message rcd)) (\<lambda>sig.
             ret \<lparr>blind_signature = sig\<rparr>)
      else fail (WithdrawPreviouslyFailed request_id))"

definition withdraw ::
  "('sk, 'pk, 'br) brsa \<Rightarrow> ('sk, 'pk) KeyStore \<Rightarrow> WithdrawRequest
   \<Rightarrow> ('x bank_db_scheme, BankError, WithdrawResponse) op" where
  "withdraw R keys req =
     bind_op (load_record (wr_request_id req)) (\<lambda>found.
       case found of
         Some rcd \<Rightarrow> resume_withdraw R keys (wr_request_id req) rcd
       | None \<Rightarrow>
           if key_get keys (wr_denomination_cents req) SCHEME_ID_RSA_DETERMINISTIC = None
           then fail (NoKeyForDenomination (wr_denomination_cents req))
           else
             bind_op (debit_and_record_pending req) (\<lambda>_.
             bind_op (finalize_withdraw R keys (wr_request_id req) (wr_account_id req)
                        (wr_denomination_cents req) (wr_blinded_message req)) (\<lambda>sig.
               ret \<lparr>blind_signature = sig\<rparr>)))"

subsection \<open>Recovery at start\<close>

type_synonym resume = "string \<times> WithdrawState \<times> string \<times> u64 \<times> bytes"

text \<open>The rows the recovery query selects, in scan order, and their decoding.\<close>

definition in_flight :: "'x bank_db_scheme \<Rightarrow> (string \<times> withdraw_row) list" where
  "in_flight s = filter (\<lambda>(_, w). ws_state w = ''pending'' \<or> ws_state w = ''signed'') (withdraw_states s)"

fun to_resume :: "(string \<times> withdraw_row) list \<Rightarrow> BankError + resume list" where
  "to_resume [] = Inr []"
| "to_resume ((request_id, w) # rows) =
     bind_result (parse_state (ws_state w)) (\<lambda>state.
     bind_result (to_u64 (ws_denomination_cents w) ''denomination'') (\<lambda>denom.
     bind_result (to_resume rows) (\<lambda>rest.
       Inr ((request_id, state, ws_account_id w, denom, ws_blinded_message w) # rest))))"

text \<open>A failure to finish a pending withdrawal is logged and the loop goes on.\<close>

fun resume_all ::
  "('sk, 'pk, 'br) brsa \<Rightarrow> ('sk, 'pk) KeyStore \<Rightarrow> resume list \<Rightarrow> ('x bank_db_scheme, BankError, unit) op" where
  "resume_all R keys [] = ret ()"
| "resume_all R keys ((request_id, state, account_id, denom, blinded_message) # rest) =
     bind_op
       (case state of
          Pending \<Rightarrow> catch_op (finalize_withdraw R keys request_id account_id denom blinded_message)
                      (\<lambda>_. ret ()) (\<lambda>_. ret ())
        | Signed \<Rightarrow> set_state request_id Completed
        | Completed \<Rightarrow> ret ()
        | Compensated \<Rightarrow> ret ())
       (\<lambda>_. resume_all R keys rest)"

definition recover_withdrawals ::
  "('sk, 'pk, 'br) brsa \<Rightarrow> ('sk, 'pk) KeyStore \<Rightarrow> ('x bank_db_scheme, BankError, unit) op" where
  "recover_withdrawals R keys =
     bind_op (pool_get Pool) (\<lambda>_.
     bind_op (query Db in_flight) (\<lambda>rows.
     bind_op (of_result (to_resume rows)) (\<lambda>items.
       resume_all R keys items)))"

text \<open>
  \<open>Bank::connect\<close>: the outcomes of the migrations, the pool, the key files
  (\<open>load_or_create\<close>, theory \<open>Bank_Keys\<close>) and the registry configuration are arguments; then recovery and the nonce purge run on the new bank.
\<close>

definition reset_nonce_ops :: "('x bank_db_scheme, BankError, unit) op" where
  "reset_nonce_ops s = (Inr (), s\<lparr>nonce_ops := 0\<rparr>)"

definition connect ::
  "('sk, 'pk, 'br) brsa \<Rightarrow> BankError + unit \<Rightarrow> BankError + unit
   \<Rightarrow> BankError + ('sk, 'pk) KeyStore \<Rightarrow> BankError + 'rc option \<Rightarrow> u64
   \<Rightarrow> ('x bank_db_scheme, BankError, ('sk, 'pk) KeyStore \<times> 'rc option) op" where
  "connect R migrations pool loaded registry_client now =
     bind_op (of_result migrations) (\<lambda>_.
     bind_op (of_result pool) (\<lambda>_.
     bind_op (of_result loaded) (\<lambda>keys.
     bind_op (of_result registry_client) (\<lambda>rc.
     bind_op reset_nonce_ops (\<lambda>_.
     bind_op (recover_withdrawals R keys) (\<lambda>_.
     bind_op (purge_expired_nonces now) (\<lambda>_.
       ret (keys, rc))))))))"

section \<open>Effect of the statements on the books\<close>

lemma withdrawal_state_ok:
  assumes "withdrawal_ok acc w"
  shows "withdrawal_ok acc (w\<lparr>ws_state := as_str st, ws_blind_signature := Some sig\<rparr>)"
    and "st = Compensated \<or> ws_blind_signature w \<noteq> None \<Longrightarrow> withdrawal_ok acc (w\<lparr>ws_state := as_str st\<rparr>)"
  using assms by (auto simp: withdrawal_ok_def)

text \<open>A change of one row that keeps its account: the tables stay well-formed, the books move by what is outstanding.\<close>

lemma update_row_books:
  assumes "bank_wf s" and "map_of (withdraw_states s) r = Some w"
    and "withdrawal_ok (accounts s) (g w)" and "ws_account_id (g w) = ws_account_id w"
  shows "bank_wf (s\<lparr>withdraw_states := snd (update_row r g (withdraw_states s))\<rparr>) \<and>
    money (s\<lparr>withdraw_states := snd (update_row r g (withdraw_states s))\<rparr>) =
      credit (money s) (ws_account_id w) (outstanding (g w) - outstanding w)"
proof
  show "bank_wf (s\<lparr>withdraw_states := snd (update_row r g (withdraw_states s))\<rparr>)"
    using assms by (auto simp: wf_defs select_update_row)
  show "money (s\<lparr>withdraw_states := snd (update_row r g (withdraw_states s))\<rparr>) =
      credit (money s) (ws_account_id w) (outstanding (g w) - outstanding w)"
    using assms by (simp add: money_def credit_def fun_eq_iff sum_rows_update wf_defs)
qed

lemma booked_update_withdrawal:
  assumes "booked c h s" and "map_of (withdraw_states s) r = Some w"
    and "withdrawal_ok (accounts s) (g w)" and "row_evolves w (g w)"
  shows "booked (credit c (ws_account_id w) (outstanding (g w) - outstanding w)) h
    (s\<lparr>withdraw_states := snd (update_row r g (withdraw_states s))\<rparr>)"
proof -
  from assms have wf: "bank_wf s" and ev: "evolves h s" by (simp_all add: booked_def)
  from assms(4) have acct: "ws_account_id (g w) = ws_account_id w" by (simp add: row_evolves_def)
  have "evolves s (s\<lparr>withdraw_states := snd (update_row r g (withdraw_states s))\<rparr>)"
    using assms(2,4) by (auto simp: evolves_def select_update_row)
  with update_row_books [where g = g, OF wf assms(2,3) acct] ev assms(1) show ?thesis
    by (auto simp: booked_def intro: evolves_trans)
qed

lemma booked_insert_withdrawal:
  assumes "booked c h s" and "withdrawal_ok (accounts s) w" and "insert_withdrawal r w s = Inr (n, s')"
  shows "booked (credit c (ws_account_id w) (outstanding w)) h s' \<and>
    map_of (withdraw_states s') r = Some w"
proof -
  from assms have wf: "bank_wf s" and ev: "evolves h s" by (simp_all add: booked_def)
  from assms(3) have new: "map_of (withdraw_states s) r = None"
    by (cases "map_of (withdraw_states s) r")
      (auto simp: insert_withdrawal_def insert_row_old split: prod.splits if_splits)
  with assms(3) have s': "s' = s\<lparr>withdraw_states := withdraw_states s @ [(r, w)]\<rparr>"
    by (auto simp: insert_withdrawal_def insert_row_new)
  have "keyed (withdraw_states s @ [(r, w)])"
    using wf new by (auto simp: wf_defs keyed_def map_of_eq_None_iff)
  then have "bank_wf s'"
    using wf assms(2) new s' by (auto simp: wf_defs map_add_def split: option.splits)
  moreover have "money s' = credit (money s) (ws_account_id w) (outstanding w)"
    using s' by (simp add: money_def credit_def fun_eq_iff)
  moreover have "evolves s s'"
    using new s' by (auto simp: evolves_def map_add_def split: option.splits)
  ultimately show ?thesis using ev s' new assms(1)
    by (auto simp: booked_def map_add_def intro: evolves_trans)
qed

section \<open>The books under any faults\<close>

abbreviation at_row :: "string \<Rightarrow> withdraw_row \<Rightarrow> 'x bank_db_scheme \<Rightarrow> bool" where
  "at_row r w s \<equiv> map_of (withdraw_states s) r = Some w"

lemma wf_row: "bank_wf s \<Longrightarrow> at_row r w s \<Longrightarrow> withdrawal_ok (accounts s) w"
  by (simp add: wf_defs)

lemma fault_free_at_row [simp]:
  "fault_free (\<lambda>s :: 'x bank_db_scheme. booked c h s \<and> at_row r w s)"
  by (simp add: fault_free_def)

lemma hoare_update_withdrawal:
  assumes "\<And>acc. withdrawal_ok acc w \<Longrightarrow> withdrawal_ok acc (g w)" and "row_evolves w (g w)"
    and "\<And>e s. booked c h s \<and> at_row r w s \<Longrightarrow> E e s"
    and "\<And>e s. booked (credit c (ws_account_id w) (outstanding (g w) - outstanding w)) h s \<and>
      at_row r (g w) s \<Longrightarrow> E e s"
  shows "hoare (\<lambda>s. booked c h s \<and> at_row r w s) (execute Db (update_withdrawal r g))
    (\<lambda>_ s. booked (credit c (ws_account_id w) (outstanding (g w) - outstanding w)) h s \<and> at_row r (g w) s) E"
proof (rule hoare_execute)
  fix s a s'
  assume P: "booked c h s \<and> at_row r w s" and st: "update_withdrawal r g s = Inr (a, s')"
  from P have "withdrawal_ok (accounts s) w" by (auto simp: booked_def wf_defs)
  with assms(1) have "withdrawal_ok (accounts s) (g w)" by blast
  moreover from st have "s' = s\<lparr>withdraw_states := snd (update_row r g (withdraw_states s))\<rparr>"
    by (auto simp: update_withdrawal_def split: prod.splits)
  ultimately show "booked (credit c (ws_account_id w) (outstanding (g w) - outstanding w)) h s' \<and>
      at_row r (g w) s'"
    using P assms(2) by (simp add: booked_update_withdrawal select_update_row)
qed (use assms in simp_all)


lemma hoare_set_completed:
  assumes "ws_state w = as_str Signed \<or> ws_state w = as_str Completed" and "ws_blind_signature w \<noteq> None"
  shows "hoare (\<lambda>s. booked c h s \<and> at_row r w s) (set_state r Completed)
    (\<lambda>_ s. booked c h s \<and> at_row r (w\<lparr>ws_state := as_str Completed\<rparr>) s) (\<lambda>_. booked c h)"
proof -
  let ?g = "\<lambda>w :: withdraw_row. w\<lparr>ws_state := as_str Completed\<rparr>"
  from assms(1) have same: "outstanding (?g w) - outstanding w = 0" by (auto simp: outstanding_def)
  have "row_evolves w (?g w)"
    using assms(1) by (auto simp: row_evolves_def less_eq_WithdrawState_def)
  then have "hoare (\<lambda>s. booked c h s \<and> at_row r w s) (execute Db (update_withdrawal r ?g))
      (\<lambda>_ s. booked c h s \<and> at_row r (?g w) s) (\<lambda>_. booked c h)"
    using hoare_update_withdrawal [of w ?g c h r "\<lambda>_. booked c h"] assms(2) withdrawal_state_ok(2)
    unfolding same credit_simps by blast
  then show ?thesis
    unfolding set_state_def
    by (intro hoare_bind [where R = "\<lambda>_ s. booked c h s \<and> at_row r w s"] hoare_pool_get
        hoare_bind [where R = "\<lambda>_ s. booked c h s \<and> at_row r (?g w) s"] hoare_ret fault_free_at_row)
      simp_all
qed

lemma hoare_compensate:
  assumes "ws_state w = as_str Pending" and "ws_denomination_cents w = uint (d :: u64)"
  shows "hoare (\<lambda>s. booked c h s \<and> at_row r w s) (compensate r (ws_account_id w) d)
    (\<lambda>_ s. booked c h s \<and> at_row r (w\<lparr>ws_state := as_str Compensated\<rparr>) s) (\<lambda>_. booked c h)"
proof -
  let ?g = "\<lambda>w :: withdraw_row. w\<lparr>ws_state := as_str Compensated\<rparr>"
  let ?c = "credit c (ws_account_id w) (uint d)"
  have diff: "outstanding (?g w) - outstanding w = - uint d"
    using assms by (simp add: outstanding_def)
  have "row_evolves w (?g w)"
    using assms(1) by (auto simp: row_evolves_def less_eq_WithdrawState_def)
  then have upd: "hoare (\<lambda>s. booked ?c h s \<and> at_row r w s) (execute Db (update_withdrawal r ?g))
      (\<lambda>_ s. booked c h s \<and> at_row r (?g w) s) (\<lambda>_ _. True)"
    using hoare_update_withdrawal [of w ?g ?c h r "\<lambda>_ _. True"] withdrawal_state_ok(2)
    unfolding diff by simp
  have add: "hoare (\<lambda>s. booked c h s \<and> at_row r w s) (execute Db (add_balance (ws_account_id w) (uint d)))
      (\<lambda>_ s. booked ?c h s \<and> at_row r w s) (\<lambda>_ _. True)"
  proof (rule hoare_execute)
    fix s n s'
    assume P: "booked c h s \<and> at_row r w s" and st: "add_balance (ws_account_id w) (uint d) s = Inr (n, s')"
    from P have "map_of (accounts s) (ws_account_id w) \<noteq> None"
      by (auto simp: booked_def wf_defs withdrawal_ok_def)
    with add_balance_count [OF st] have "n \<noteq> 0" by simp
    with booked_add_balance [OF conjunct1 [OF P] st] P add_balance_frame [OF st]
    show "booked ?c h s' \<and> at_row r w s'" by simp
  qed simp_all
  have tx: "hoare (\<lambda>s. booked c h s \<and> at_row r w s)
      (transaction Db
        (bind_op (execute Db (add_balance (ws_account_id w) (uint d))) (\<lambda>_.
         bind_op (execute Db (update_withdrawal r ?g)) (\<lambda>_. ret (Commit ())))))
      (\<lambda>_ s. booked c h s \<and> at_row r (?g w) s) (\<lambda>_. booked c h)"
    by (rule hoare_transaction_body [OF _ _ hoare_bind [OF add hoare_bind [OF upd hoare_ret]]]) simp_all
  have "hoare (\<lambda>s. booked c h s \<and> at_row r w s) (pool_get Pool) (\<lambda>_ s. booked c h s \<and> at_row r w s) (\<lambda>_. booked c h)"
    by (rule hoare_pool_get) simp_all
  from hoare_bind [OF this tx] show ?thesis
    unfolding compensate_def bind_of_result by (intro hoare_sum hoare_fail) auto
qed

text \<open>The row a request writes when its debit commits.\<close>

definition pending_row :: "WithdrawRequest \<Rightarrow> withdraw_row" where
  "pending_row req =
     \<lparr>ws_state = as_str Pending, ws_account_id = wr_account_id req,
      ws_denomination_cents = uint (wr_denomination_cents req),
      ws_blinded_message = wr_blinded_message req, ws_blind_signature = None\<rparr>"

lemma pending_row_simps [simp]:
  "ws_state (pending_row req) = as_str Pending"
  "ws_account_id (pending_row req) = wr_account_id req"
  "ws_denomination_cents (pending_row req) = uint (wr_denomination_cents req)"
  "ws_blinded_message (pending_row req) = wr_blinded_message req"
  "outstanding (pending_row req) = uint (wr_denomination_cents req)"
  by (simp_all add: pending_row_def outstanding_def)

lemma hoare_debit:
  "hoare (booked c h) (debit_and_record_pending req)
     (\<lambda>_ s. booked c h s \<and> at_row (wr_request_id req) (pending_row req) s) (\<lambda>_. booked c h)"
proof (cases "uint (wr_denomination_cents req) \<le> i64_max")
  case True
  let ?a = "wr_account_id req" and ?d = "uint (wr_denomination_cents req)" and ?r = "wr_request_id req"
  let ?row = "\<lambda>s. map_of (accounts s) ?a"
  let ?c = "credit c ?a (- ?d)"
  have ff: "fault_free (\<lambda>s. booked k h s \<and> ?row s = Some b)" for k b
    by (simp add: fault_free_def)
  have ins: "hoare (\<lambda>s. booked ?c h s \<and> ?row s = Some b)
      (execute Db (insert_withdrawal ?r (pending_row req)))
      (\<lambda>_ s. booked c h s \<and> at_row ?r (pending_row req) s) (\<lambda>_ _. True)" for b
  proof (rule hoare_execute [OF ff])
    fix s n s'
    assume P: "booked ?c h s \<and> ?row s = Some b" and st: "insert_withdrawal ?r (pending_row req) s = Inr (n, s')"
    from P True have "withdrawal_ok (accounts s) (pending_row req)" by (auto simp: withdrawal_ok_def)
    from booked_insert_withdrawal [OF conjunct1 [OF P] this st]
    show "booked c h s' \<and> at_row ?r (pending_row req) s'" by simp
  qed simp_all
  have add: "hoare (\<lambda>s. booked c h s \<and> x = ?row s) (execute Db (add_balance ?a (- ?d)))
      (\<lambda>_ s. booked ?c h s \<and> ?row s = Some (b - ?d)) (\<lambda>_ _. True)" if "x = Some b" for x b
  proof (rule hoare_execute)
    fix s n s'
    assume P: "booked c h s \<and> x = ?row s" and st: "add_balance ?a (- ?d) s = Inr (n, s')"
    from st show "booked ?c h s' \<and> ?row s' = Some (b - ?d)"
      using booked_add_balance [OF conjunct1 [OF P] st] P that
      by (cases rule: add_balance_cases) (auto simp: select_update_row)
  qed (simp_all add: fault_free_def)
  have sel: "hoare (booked c h) (query Db ?row) (\<lambda>x s. booked c h s \<and> x = ?row s) (\<lambda>_ _. True)"
    by (rule hoare_query [OF fault_free_tables(4)]) (simp_all add: fault_free_def)
  have pool: "hoare (booked c h) (pool_get Pool) (\<lambda>_. booked c h) (\<lambda>_. booked c h)"
    by (rule hoare_keeps) (intro wp fault_free_tables)
  from True have i64: "to_i64 (wr_denomination_cents req) ''denomination'' = Inr ?d" by simp
  show ?thesis
    unfolding debit_and_record_pending_def i64 bind_of_Inr pending_row_def [symmetric]
    by (rule hoare_bind [OF pool], rule hoare_transaction_body [OF fault_free_tables(4) fault_free_at_row],
        rule hoare_bind [OF sel], rule hoare_option, simp add: hoare_def, rule hoare_if,
        simp add: bind_of_result hoare_def split: sum.splits,
        rule hoare_bind [OF add], assumption, rule hoare_bind [OF ins], rule hoare_ret) simp_all
qed (simp add: debit_and_record_pending_def bind_of_result to_i64_def i64_try_from_def hoare_def)

text \<open>The row a finished withdrawal leaves.\<close>

abbreviation finished :: "bytes \<Rightarrow> withdraw_row \<Rightarrow> bool" where
  "finished sig w \<equiv> ws_state w = as_str Completed \<and> ws_blind_signature w = Some sig"

lemma hoare_finalize:
  assumes "ws_state w = as_str Pending" and "ws_denomination_cents w = uint d" and "ws_account_id w = a"
  shows "hoare (\<lambda>s. booked c h s \<and> at_row r w s) (finalize_withdraw R keys r a d bm)
    (\<lambda>sig s. booked c h s \<and> (\<exists>w'. at_row r w' s \<and> finished sig w')) (\<lambda>_. booked c h)"
proof -
  have sign: "hoare (\<lambda>s. booked c h s \<and> at_row r w s)
      (execute Db (update_withdrawal r (\<lambda>w. w\<lparr>ws_state := as_str Signed, ws_blind_signature := Some sig\<rparr>)))
      (\<lambda>_ s. booked c h s \<and> at_row r (w\<lparr>ws_state := as_str Signed, ws_blind_signature := Some sig\<rparr>) s)
      (\<lambda>_. booked c h)" for sig
  proof -
    let ?g = "\<lambda>w :: withdraw_row. w\<lparr>ws_state := as_str Signed, ws_blind_signature := Some sig\<rparr>"
    have same: "outstanding (?g w) - outstanding w = 0" using assms(1) by (simp add: outstanding_def)
    have "row_evolves w (?g w)"
      using assms(1) by (auto simp: row_evolves_def less_eq_WithdrawState_def)
    then show ?thesis
      using hoare_update_withdrawal [of w ?g c h r "\<lambda>_. booked c h"] withdrawal_state_ok(1)
      unfolding same credit_simps by blast
  qed
  have pool: "hoare (\<lambda>s. booked c h s \<and> at_row r w s) (pool_get Pool)
      (\<lambda>_ s. booked c h s \<and> at_row r w s) (\<lambda>_. booked c h)"
    by (rule hoare_pool_get) simp_all
  note comp = hoare_compensate [of w d c h r, unfolded assms(3), OF assms(1,2)]
  show ?thesis
    unfolding finalize_withdraw_def bind_of_result
    by (rule hoare_sum, rule hoare_fail, simp, rule hoare_sum, rule hoare_bind [OF comp], rule hoare_fail, simp,
        rule hoare_bind [OF pool], rule hoare_bind [OF sign],
        rule hoare_bind [OF hoare_set_completed], simp, simp, rule hoare_ret) auto
qed

lemma hoare_load_record:
  "hoare (booked c h) (load_record r)
     (\<lambda>found s. booked c h s \<and> (\<forall>rcd. found = Some rcd \<longrightarrow>
        (\<exists>w. at_row r w s \<and> ws_state w = as_str (rec_state rcd) \<and>
             ws_denomination_cents w = uint (rec_denomination_cents rcd) \<and>
             ws_account_id w = rec_account_id rcd \<and> ws_blinded_message w = rec_blinded_message rcd \<and>
             ws_blind_signature w = rec_blind_signature rcd)))
     (\<lambda>_. booked c h)"
proof -
  have pool: "hoare (booked c h) (pool_get Pool) (\<lambda>_. booked c h) (\<lambda>_. booked c h)"
    by (rule hoare_keeps) (intro wp fault_free_tables)
  have sel: "hoare (booked c h) (query Db (\<lambda>s. select_key (withdraw_states s) r))
      (\<lambda>x s. booked c h s \<and> x = map_of (withdraw_states s) r) (\<lambda>_. booked c h)"
    by (rule hoare_query [OF fault_free_tables(4)]) (simp_all add: fault_free_def)
  have range: "uint (word_of_int i :: u64) = i" if "0 \<le> i" "i \<le> i64_max" for i
    using that by (simp add: uint_word_of_int)
  show ?thesis
    unfolding load_record_def
    by (rule hoare_bind [OF pool], rule hoare_bind [OF sel])
      (auto simp: hoare_def bind_of_result parse_state_Inr range booked_def wf_defs withdrawal_ok_def
        split: option.splits sum.splits)
qed

lemma hoare_resume:
  assumes "ws_state w = as_str (rec_state rcd)" "ws_denomination_cents w = uint (rec_denomination_cents rcd)"
    "ws_account_id w = rec_account_id rcd" "ws_blind_signature w = rec_blind_signature rcd"
  shows "hoare (\<lambda>s. booked c h s \<and> at_row r w s) (resume_withdraw R keys r rcd)
    (\<lambda>resp s. booked c h s \<and> (\<exists>w'. at_row r w' s \<and> finished (blind_signature resp) w')) (\<lambda>_. booked c h)"
proof (cases "rec_state rcd")
  case Pending
  with hoare_finalize [of w "rec_denomination_cents rcd" "rec_account_id rcd"] assms
  have fin: "hoare (\<lambda>s. booked c h s \<and> at_row r w s)
      (finalize_withdraw R keys r (rec_account_id rcd) (rec_denomination_cents rcd) (rec_blinded_message rcd))
      (\<lambda>sig s. booked c h s \<and> (\<exists>w'. at_row r w' s \<and> finished sig w')) (\<lambda>_. booked c h)" by simp
  show ?thesis
    unfolding resume_withdraw_def Pending by (simp, rule hoare_bind [OF fin], rule hoare_ret, simp)
next
  case Signed
  show ?thesis
  proof (cases "rec_blind_signature rcd")
    case (Some sig)
    with Signed assms hoare_set_completed [of w c h r]
    have fin: "hoare (\<lambda>s. booked c h s \<and> at_row r w s) (set_state r Completed)
      (\<lambda>_ s. booked c h s \<and> (\<exists>w'. at_row r w' s \<and> finished sig w')) (\<lambda>_. booked c h)"
      by (auto elim!: hoare_weaken)
    show ?thesis
      unfolding resume_withdraw_def Signed Some
      by (simp add: bind_of_Inr, rule hoare_bind [OF fin], rule hoare_ret, simp)
  qed (use Signed in \<open>simp add: resume_withdraw_def hoare_def\<close>)
next
  case Completed
  with assms show ?thesis
    by (cases "rec_blind_signature rcd") (simp_all add: resume_withdraw_def hoare_def)
next
  case Compensated
  then show ?thesis by (simp add: resume_withdraw_def hoare_def)
qed

lemma hoare_withdraw:
  "hoare (booked c h) (withdraw R keys req)
     (\<lambda>resp s. booked c h s \<and>
        (\<exists>w. at_row (wr_request_id req) w s \<and> finished (blind_signature resp) w)) (\<lambda>_. booked c h)"
proof -
  note fin = hoare_finalize [of "pending_row req" "wr_denomination_cents req" "wr_account_id req"]
  have fresh: "hoare (booked c h)
      (bind_op (debit_and_record_pending req) (\<lambda>_.
       bind_op (finalize_withdraw R keys (wr_request_id req) (wr_account_id req)
                  (wr_denomination_cents req) (wr_blinded_message req)) (\<lambda>sig.
         ret \<lparr>blind_signature = sig\<rparr>)))
      (\<lambda>resp s. booked c h s \<and>
        (\<exists>w. at_row (wr_request_id req) w s \<and> finished (blind_signature resp) w)) (\<lambda>_. booked c h)"
    by (rule hoare_bind [OF hoare_debit], rule hoare_bind [OF fin], simp, simp, simp, rule hoare_ret, simp)
  have resume: "hoare (\<lambda>s. booked c h s \<and> (\<exists>w. at_row r w s \<and> ws_state w = as_str (rec_state rcd) \<and>
        ws_denomination_cents w = uint (rec_denomination_cents rcd) \<and>
        ws_account_id w = rec_account_id rcd \<and> ws_blind_signature w = rec_blind_signature rcd))
      (resume_withdraw R keys r rcd)
      (\<lambda>resp s. booked c h s \<and> (\<exists>w'. at_row r w' s \<and> finished (blind_signature resp) w')) (\<lambda>_. booked c h)"
    for r rcd
    by (rule hoareI) (blast dest: hoare_Inr [OF hoare_resume] hoare_Inl [OF hoare_resume])+
  show ?thesis
    unfolding withdraw_def
    by (rule hoare_bind [OF hoare_load_record], rule hoare_option, rule hoare_if, rule hoare_fail, simp,
        rule hoare_weaken [OF fresh], simp, simp, simp, rule hoare_weaken [OF resume]) auto
qed

lemma keeps_withdraw [wp]: "keeps (booked c h) (withdraw R keys req)"
  unfolding keeps_hoare by (rule hoare_weaken [OF hoare_withdraw]) simp_all

lemma booked_run:
  assumes "\<And>c h. keeps (booked c h) m" and "bank_wf s" and "m s = (r, s')"
  shows "bank_wf s' \<and> money s' = money s \<and> evolves s s'"
proof -
  have "booked (money s) s s" using assms(2) by (simp add: booked_def)
  from keepsD [OF assms(1) this assms(3)] show ?thesis by (simp add: booked_def)
qed

section \<open>Behaviour without faults\<close>

lemma update_withdrawal_ok [simp]:
  "update_withdrawal r g s =
    Inr (fst (update_row r g (withdraw_states s)),
         s\<lparr>withdraw_states := snd (update_row r g (withdraw_states s))\<rparr>)"
  by (simp add: update_withdrawal_def split: prod.splits)

lemma set_state_ok:
  "faults s = [] \<Longrightarrow> set_state r st s =
    (Inr (), s\<lparr>withdraw_states :=
       snd (update_row r (\<lambda>w. w\<lparr>ws_state := as_str st\<rparr>) (withdraw_states s))\<rparr>)"
  by (simp add: set_state_def)

lemma add_balance_ok:
  assumes "map_of (accounts s) a = Some b" and "0 \<le> b + d" and "b + d \<le> i64_max"
  shows "add_balance a d s = Inr (1, s\<lparr>accounts := snd (update_row a (\<lambda>b. b + d) (accounts s))\<rparr>)"
  using assms update_row_count [of a "\<lambda>b. b + d" "accounts s"]
  by (cases "update_row a (\<lambda>b. b + d) (accounts s)") (simp add: add_balance_def is_i64_def)

lemma compensate_ok:
  assumes "faults s = []" and "map_of (accounts s) a = Some b" and "0 \<le> b"
    and "b + uint d \<le> i64_max"
  shows "compensate r a d s = (Inr (), s\<lparr>
    accounts := snd (update_row a (\<lambda>b. b + uint d) (accounts s)),
    withdraw_states := snd (update_row r (\<lambda>w. w\<lparr>ws_state := as_str Compensated\<rparr>) (withdraw_states s))\<rparr>)"
proof -
  from assms(3,4) have "0 \<le> b + uint d" "uint d \<le> i64_max" by auto
  with assms show ?thesis
    by (simp add: compensate_def add_balance_ok transaction_commit_ok)
qed

lemma finalize_ok:
  assumes "faults s = []" and "key_get keys d SCHEME_ID_RSA_DETERMINISTIC = Some kp"
    and "map_of (accounts s) a = Some b" and "0 \<le> b" and "b + uint d \<le> i64_max"
  shows "finalize_withdraw R keys r a d bm s =
    (case sign_blinded R (kp_sk kp) bm of
       Inr sig \<Rightarrow> (Inr sig, s\<lparr>withdraw_states :=
         snd (update_row r (\<lambda>w. w\<lparr>ws_blind_signature := Some sig, ws_state := as_str Completed\<rparr>)
           (withdraw_states s))\<rparr>)
     | Inl e \<Rightarrow> (Inl (WithdrawFailed r (core_error_to_string e)), s\<lparr>
         accounts := snd (update_row a (\<lambda>b. b + uint d) (accounts s)),
         withdraw_states := snd (update_row r (\<lambda>w. w\<lparr>ws_state := as_str Compensated\<rparr>) (withdraw_states s))\<rparr>))"
proof (cases "sign_blinded R (kp_sk kp) bm")
  case (Inl e)
  then show ?thesis
    using compensate_ok [OF assms(1,3-5)] assms(2) by (simp add: finalize_withdraw_def)
next
  case (Inr sig)
  then show ?thesis
    using assms(1,2) update_row_compose [of r "\<lambda>w. w\<lparr>ws_state := as_str Completed\<rparr>"
      "\<lambda>w. w\<lparr>ws_state := as_str Signed, ws_blind_signature := Some sig\<rparr>" "withdraw_states s"]
    by (simp add: finalize_withdraw_def set_state_ok)
qed

lemma load_record_ok:
  assumes "faults s = []"
  shows "map_of (withdraw_states s) r = None \<Longrightarrow> load_record r s = (Inr None, s)"
    and "at_row r w s \<Longrightarrow> ws_state w = as_str st \<Longrightarrow> 0 \<le> ws_denomination_cents w \<Longrightarrow>
      load_record r s =
        (Inr (Some \<lparr>rec_state = st, rec_account_id = ws_account_id w,
           rec_denomination_cents = word_of_int (ws_denomination_cents w),
           rec_blinded_message = ws_blinded_message w, rec_blind_signature = ws_blind_signature w\<rparr>), s)"
  using assms by (simp_all add: load_record_def to_u64_def u64_try_from_def)

lemma debit_ok:
  assumes "faults s = []" and "balances_ok s" and "map_of (withdraw_states s) (wr_request_id req) = None"
    and "uint (wr_denomination_cents req) \<le> i64_max"
  shows "debit_and_record_pending req s =
    (case map_of (accounts s) (wr_account_id req) of
       None \<Rightarrow> (Inl (AccountNotFound (wr_account_id req)), s)
     | Some b \<Rightarrow>
         if b < uint (wr_denomination_cents req)
         then (Inl (InsufficientBalance (wr_account_id req) (word_of_int b) (wr_denomination_cents req)), s)
         else (Inr (), s\<lparr>
           accounts := snd (update_row (wr_account_id req) (\<lambda>b. b - uint (wr_denomination_cents req)) (accounts s)),
           withdraw_states := withdraw_states s @ [(wr_request_id req, pending_row req)]\<rparr>))"
proof (cases "map_of (accounts s) (wr_account_id req)")
  case None
  then show ?thesis
    using assms(1,4) by (simp add: debit_and_record_pending_def transaction_error_ok)
next
  case (Some b)
  let ?d = "uint (wr_denomination_cents req)"
  from Some assms(2) have b: "0 \<le> b" "b \<le> i64_max" by (auto simp: balances_ok_def)
  have d: "0 \<le> ?d" by simp
  show ?thesis
  proof (cases "b < ?d")
    case True
    with Some b assms(1,4) show ?thesis
      by (simp add: debit_and_record_pending_def transaction_error_ok to_u64_def u64_try_from_def)
  next
    case False
    then have "add_balance (wr_account_id req) (- ?d) s = Inr (1, s\<lparr>accounts :=
        snd (update_row (wr_account_id req) (\<lambda>b. b - ?d) (accounts s))\<rparr>)"
      using add_balance_ok [OF Some, of "- ?d"] b d by simp
    with Some False assms(1,3,4) show ?thesis
      by (simp add: debit_and_record_pending_def insert_withdrawal_def insert_row_new transaction_commit_ok
          pending_row_def)
  qed
qed

section \<open>Properties\<close>

text \<open>
  A withdrawal conserves money and history, whatever the database does. For every request,
  every key store and every schedule of lost calls and lost acknowledgements, \<open>withdraw\<close> leaves a
  well-formed database in which the books of every set of accounts are unchanged (what left a
  balance is outstanding in the withdrawal record), no record went backwards, and no spent
  serial, deposit or identity was touched.
\<close>

lemma withdraw_keeps_books:
  assumes "bank_wf s" and "withdraw R keys req s = (r, s')"
  shows "bank_wf s' \<and> money s' = money s \<and> evolves s s'"
  using keeps_withdraw assms by (rule booked_run)

text \<open>
  C6: the first withdrawal under a request id, branch by branch, when the database answers. An
  unserved denomination, an amount outside \<open>BIGINT\<close>, an unknown account and an insufficient
  balance each give their error and change nothing; otherwise the account is debited by exactly
  the denomination and the record is completed with the signature that is returned, or, when
  signing fails, every balance is as before and the record is compensated.
\<close>

theorem withdraw_fresh:
  fixes req :: WithdrawRequest
  defines "a \<equiv> wr_account_id req" and "d \<equiv> wr_denomination_cents req" and "rid \<equiv> wr_request_id req"
  assumes "bank_wf s" and "faults s = []" and "map_of (withdraw_states s) rid = None"
  shows "withdraw R keys req s =
    (case key_get keys d SCHEME_ID_RSA_DETERMINISTIC of
       None \<Rightarrow> (Inl (NoKeyForDenomination d), s)
     | Some kp \<Rightarrow>
         if i64_max < uint d
         then (Inl (ValueRange (''denomination '' @ u64_to_string d @ '' exceeds the i64 column range'')), s)
         else (case map_of (accounts s) a of
             None \<Rightarrow> (Inl (AccountNotFound a), s)
           | Some b \<Rightarrow>
               if b < uint d then (Inl (InsufficientBalance a (word_of_int b) d), s)
               else (case sign_blinded R (kp_sk kp) (wr_blinded_message req) of
                   Inr sig \<Rightarrow> (Inr \<lparr>blind_signature = sig\<rparr>, s\<lparr>
                     accounts := snd (update_row a (\<lambda>b. b - uint d) (accounts s)),
                     withdraw_states := withdraw_states s @
                       [(rid, (pending_row req)\<lparr>ws_blind_signature := Some sig, ws_state := as_str Completed\<rparr>)]\<rparr>)
                 | Inl e \<Rightarrow> (Inl (WithdrawFailed rid (core_error_to_string e)), s\<lparr>
                     withdraw_states := withdraw_states s @
                       [(rid, (pending_row req)\<lparr>ws_state := as_str Compensated\<rparr>)]\<rparr>))))"
proof -
  from assms(4) have bal: "balances_ok s" and kacc: "keyed (accounts s)" by (simp_all add: wf_defs)
  note load = load_record_ok(1) [OF assms(5,6) [unfolded rid_def]]
  have main: ?thesis if k: "key_get keys d SCHEME_ID_RSA_DETERMINISTIC = Some kp"
    and d: "uint d \<le> i64_max" and b: "map_of (accounts s) a = Some b" and ge: "\<not> b < uint d" for kp b
  proof -
    define s1 where "s1 = s\<lparr>accounts := snd (update_row a (\<lambda>b. b - uint d) (accounts s)),
      withdraw_states := withdraw_states s @ [(rid, pending_row req)]\<rparr>"
    have deb: "debit_and_record_pending req s = (Inr (), s1)"
      using debit_ok [OF assms(5) bal assms(6) [unfolded rid_def]] d b ge
      by (simp add: a_def d_def rid_def s1_def)
    have b1: "map_of (accounts s1) a = Some (b - uint d)" using b by (simp add: s1_def select_update_row)
    have "b \<le> i64_max" using bal b by (auto simp: balances_ok_def)
    with ge assms(5) have "faults s1 = []" "0 \<le> b - uint d" "b - uint d + uint d \<le> i64_max"
      by (simp_all add: s1_def)
    note fin = finalize_ok [OF this(1) k b1 this(2,3), of R rid "wr_blinded_message req"]
    have restored: "snd (update_row a (\<lambda>b. b + uint d) (accounts s1)) = accounts s"
      using kacc by (simp add: s1_def update_row_compose update_row_same)
    show ?thesis
      using k d b ge fin deb load restored assms(6)
      by (cases "sign_blinded R (kp_sk kp) (wr_blinded_message req)")
        (simp_all add: withdraw_def a_def [symmetric] d_def [symmetric] rid_def [symmetric] s1_def update_row_last)
  qed
  show ?thesis
    using main load debit_ok [OF assms(5) bal assms(6) [unfolded rid_def]]
    by (auto simp: withdraw_def a_def [symmetric] d_def [symmetric] rid_def [symmetric]
        debit_and_record_pending_def to_i64_def i64_try_from_def split: option.splits)
qed

section \<open>One request touches one record\<close>

text \<open>
  The frame of a request: all other records, the deposits and the set of accounts stay as they
  were, and the request's own record, once there, is for the request's account and amount.
\<close>

definition framed :: "WithdrawRequest \<Rightarrow> 'x bank_db_scheme \<Rightarrow> 'x bank_db_scheme \<Rightarrow> bool" where
  "framed req h s \<longleftrightarrow>
     filter (\<lambda>(k, _). k \<noteq> wr_request_id req) (withdraw_states s) =
       filter (\<lambda>(k, _). k \<noteq> wr_request_id req) (withdraw_states h) \<and>
     deposits s = deposits h \<and> map fst (accounts s) = map fst (accounts h) \<and>
     (\<forall>w. at_row (wr_request_id req) w s \<longrightarrow>
        ws_account_id w = wr_account_id req \<and> ws_denomination_cents w = uint (wr_denomination_cents req))"

lemma framed_faults [simp]: "framed req h (s\<lparr>faults := fs\<rparr>) = framed req h s"
  by (simp add: framed_def)

lemma fault_free_framed [simp]: "fault_free (framed req h)"
  by (simp add: fault_free_def)

lemma filter_update_row: "filter (\<lambda>(k', _). k' \<noteq> k) (snd (update_row k g t)) = filter (\<lambda>(k', _). k' \<noteq> k) t"
  by (induction t) (auto simp: update_row_def)

lemma framed_update [simp]:
  assumes "\<And>w. ws_account_id (g w) = ws_account_id w" "\<And>w. ws_denomination_cents (g w) = ws_denomination_cents w"
    and "framed req h s"
  shows "framed req h (s\<lparr>withdraw_states := snd (update_row (wr_request_id req) g (withdraw_states s))\<rparr>)"
  using assms by (auto simp: framed_def filter_update_row select_update_row)

lemma framed_add_balance: "framed req h s \<Longrightarrow> add_balance a d s = Inr (n, s') \<Longrightarrow> framed req h s'"
  by (erule add_balance_cases) (simp_all add: framed_def)

lemma framed_insert:
  assumes "framed req h s" and "insert_withdrawal (wr_request_id req) (pending_row req) s = Inr (n, s')"
  shows "framed req h s'"
proof (cases "map_of (withdraw_states s) (wr_request_id req)")
  case None
  with assms show ?thesis
    by (auto simp: framed_def insert_withdrawal_def insert_row_new map_add_def)
qed (use assms in \<open>simp add: insert_withdrawal_def insert_row_old\<close>)

lemma keeps_framed_finalize:
  "keeps (framed req h) (finalize_withdraw R keys (wr_request_id req) a d bm)"
  unfolding finalize_withdraw_def compensate_def set_state_def
  by (intro wp fault_free_framed) (auto intro: framed_add_balance)

lemma keeps_framed_withdraw: "keeps (framed req h) (withdraw R keys req)"
proof -
  have load: "keeps (framed req h) (load_record (wr_request_id req))"
    unfolding load_record_def by (intro wp fault_free_framed)
  have deb: "keeps (framed req h) (debit_and_record_pending req)"
    unfolding debit_and_record_pending_def bind_of_result [of "to_i64 (wr_denomination_cents req) ''denomination''"]
    by (intro wp fault_free_framed)
      (auto intro: framed_add_balance framed_insert simp: pending_row_def [symmetric])
  have res: "keeps (framed req h) (resume_withdraw R keys (wr_request_id req) rcd)" for rcd
    unfolding resume_withdraw_def set_state_def
    by (intro wp fault_free_framed keeps_framed_finalize) auto
  show ?thesis
    unfolding withdraw_def by (intro wp load deb res keeps_framed_finalize)
qed

lemma sum_rows_split:
  "keyed t \<Longrightarrow> sum_rows f t = sum_rows f (filter (\<lambda>(k', _). k' \<noteq> k) t) +
     (case map_of t k of None \<Rightarrow> 0 | Some v \<Rightarrow> f k v)"
proof (induction t)
  case (Cons p t)
  obtain k' v' where p: "p = (k', v')" by fastforce
  show ?case
  proof (cases "k' = k")
    case True
    with Cons.prems p have "map_of t k = None" by (simp add: keyed_def map_of_eq_None_iff)
    with True Cons p show ?thesis by (simp add: keyed_def)
  next
    case False
    with Cons p show ?thesis by (simp add: keyed_def)
  qed
qed simp

lemma sum_rows_key:
  assumes "keyed t"
  shows "sum_rows (\<lambda>k b. if k = x then b else 0) t = (case map_of t x of None \<Rightarrow> 0 | Some b \<Rightarrow> b)"
proof -
  have "sum_rows (\<lambda>k b. if k = x then b else 0) (filter (\<lambda>(k', _). k' \<noteq> x) t) = 0"
    by (induction t) auto
  with sum_rows_split [OF assms, of "\<lambda>k b. if k = x then b else 0" x] show ?thesis
    by (simp split: option.splits)
qed

text \<open>Within the frame, conserved books determine every balance from the request's record.\<close>

lemma framed_balances:
  fixes req :: WithdrawRequest
  defines "a \<equiv> wr_account_id req" and "rid \<equiv> wr_request_id req" and "d \<equiv> uint (wr_denomination_cents req)"
  assumes "bank_wf s" and "bank_wf s'" and "money s' = money s" and "framed req s s'"
    and new: "map_of (withdraw_states s) rid = None"
  shows "map_of (accounts s') x =
    (if x = a \<and> (\<exists>w. at_row rid w s' \<and> ws_state w \<noteq> as_str Compensated)
     then map_option (\<lambda>b. b - d) (map_of (accounts s) x) else map_of (accounts s) x)"
proof -
  let ?f = "\<lambda>_ w. if ws_account_id w = x then outstanding w else 0"
  from assms(4,5) have k: "keyed (accounts s)" "keyed (accounts s')"
    "keyed (withdraw_states s)" "keyed (withdraw_states s')" by (simp_all add: wf_defs)
  have rows: "sum_rows ?f (withdraw_states s') = sum_rows ?f (withdraw_states s) +
      (case map_of (withdraw_states s') rid of None \<Rightarrow> 0 | Some w \<Rightarrow> ?f rid w)"
    using sum_rows_split [OF k(4), of ?f rid] sum_rows_split [OF k(3), of ?f rid] new assms(7)
    by (simp add: framed_def rid_def)
  have "money s' (\<lambda>y. y = x) = money s (\<lambda>y. y = x)" using assms(6) by simp
  then have bal: "(case map_of (accounts s') x of None \<Rightarrow> 0 | Some b \<Rightarrow> b) =
      (case map_of (accounts s) x of None \<Rightarrow> 0 | Some b \<Rightarrow> b) -
      (case map_of (withdraw_states s') rid of None \<Rightarrow> 0 | Some w \<Rightarrow> ?f rid w)"
    using rows assms(7) k(1,2) by (simp add: money_def framed_def sum_rows_key)
  have "fst ` set (accounts s') = fst ` set (accounts s)"
    using assms(7) by (metis framed_def set_map)
  then have dom: "map_of (accounts s') x = None \<longleftrightarrow> map_of (accounts s) x = None"
    by (simp add: map_of_eq_None_iff)
  have row: "ws_account_id w = a \<and> ws_denomination_cents w = d" if "at_row rid w s'" for w
    using assms(7) that by (auto simp: framed_def a_def d_def rid_def)
  show ?thesis
    using bal dom row by (auto simp: outstanding_def split: option.splits if_splits)
qed

lemma keeps_funpow: "keeps I m \<Longrightarrow> I s \<Longrightarrow> I (((\<lambda>t. snd (m t)) ^^ n) s)"
  by (induction n) (auto simp: keeps_def)

section \<open>Properties of retried requests\<close>

text \<open>
  C3: a retried withdrawal debits at most once. However often a request is sent, and whatever is
  lost on the way each time, the account has been debited by exactly one denomination if its
  record is not compensated and by nothing otherwise, and no other account has changed. In
  particular a success after any number of failed attempts means a single debit.
\<close>

theorem withdraw_debits_once:
  fixes req :: WithdrawRequest
  defines "a \<equiv> wr_account_id req" and "rid \<equiv> wr_request_id req" and "d \<equiv> uint (wr_denomination_cents req)"
  assumes "bank_wf s" and "map_of (withdraw_states s) rid = None"
    and "s1 = ((\<lambda>t. snd (withdraw R keys req t)) ^^ n) s" and "withdraw R keys req s1 = (r, s2)"
  shows "map_of (accounts s2) x =
      (if x = a \<and> (\<exists>w. at_row rid w s2 \<and> ws_state w \<noteq> as_str Compensated)
       then map_option (\<lambda>b. b - d) (map_of (accounts s) x) else map_of (accounts s) x) \<and>
    (\<forall>resp. r = Inr resp \<longrightarrow> (\<exists>w. at_row rid w s2 \<and> ws_state w = as_str Completed))"
proof -
  have "framed req s s" using assms(5) by (simp add: framed_def rid_def)
  then have "framed req s s1" unfolding assms(6) by (rule keeps_funpow [OF keeps_framed_withdraw])
  then have fr: "framed req s s2" using keepsD [OF keeps_framed_withdraw] assms(7) by blast
  have "booked (money s) s s" using assms(4) by (simp add: booked_def)
  then have b1: "booked (money s) s s1" unfolding assms(6) by (rule keeps_funpow [OF keeps_withdraw])
  then have b2: "booked (money s) s s2" using keepsD [OF keeps_withdraw] assms(7) by blast
  then have "bank_wf s2" "money s2 = money s" by (simp_all add: booked_def)
  note balances = framed_balances [OF assms(4) this fr assms(5) [unfolded rid_def]]
  have "map_of (accounts s2) x =
      (if x = a \<and> (\<exists>w. at_row rid w s2 \<and> ws_state w \<noteq> as_str Compensated)
       then map_option (\<lambda>b. b - d) (map_of (accounts s) x) else map_of (accounts s) x)"
    unfolding a_def rid_def d_def by (rule balances)
  moreover have "\<exists>w. at_row rid w s2 \<and> ws_state w = as_str Completed" if "r = Inr resp" for resp
    using hoare_Inr [OF hoare_withdraw b1 assms(7) [unfolded that]] unfolding rid_def by blast
  ultimately show ?thesis by blast
qed

text \<open>
  C7: a withdrawal that succeeded is replayed. Once \<open>withdraw\<close> has returned a signature, every
  later request under that id, at any later state of the bank and whatever account, denomination
  or message it names, returns the same signature and changes nothing.
\<close>

theorem withdraw_replay:
  assumes "bank_wf s" and "withdraw R keys req s = (Inr resp, s1)"
    and "evolves s1 s2" and "faults s2 = []" and "wr_request_id req' = wr_request_id req"
  shows "withdraw R' keys' req' s2 = (Inr resp, s2)"
proof -
  have "booked (money s) s s" using assms(1) by (simp add: booked_def)
  from hoare_Inr [OF hoare_withdraw this assms(2)] obtain w where wf: "bank_wf s1"
    and w: "at_row (wr_request_id req) w s1" "finished (blind_signature resp) w" by (auto simp: booked_def)
  from assms(3) w(1) obtain w' where w': "at_row (wr_request_id req) w' s2" "row_evolves w w'"
    unfolding evolves_def by metis
  with w(2) have fin: "finished (blind_signature resp) w'"
    by (auto simp: row_evolves_def less_eq_WithdrawState_def)
  from wf w(1) have "0 \<le> ws_denomination_cents w" by (auto simp: wf_defs withdrawal_ok_def)
  with w'(2) have "0 \<le> ws_denomination_cents w'" by (simp add: row_evolves_def)
  with load_record_ok(2) [OF assms(4) w'(1), of Completed] fin assms(5) show ?thesis
    by (cases resp) (simp add: withdraw_def resume_withdraw_def)
qed

section \<open>Recovery\<close>

definition resumable :: "'x bank_db_scheme \<Rightarrow> resume \<Rightarrow> bool" where
  "resumable s i = (case i of (r, st, a, d, bm) \<Rightarrow>
     \<exists>w. at_row r w s \<and> ws_state w = as_str st \<and> ws_account_id w = a \<and>
         ws_denomination_cents w = uint d \<and> ws_blinded_message w = bm \<and>
         (st = Signed \<longrightarrow> ws_blind_signature w \<noteq> None))"

definition resume_one ::
  "('sk, 'pk, 'br) brsa \<Rightarrow> ('sk, 'pk) KeyStore \<Rightarrow> resume \<Rightarrow> ('x bank_db_scheme, BankError, unit) op" where
  "resume_one R keys i = (case i of (r, st, a, d, bm) \<Rightarrow>
     (case st of
        Pending \<Rightarrow> catch_op (finalize_withdraw R keys r a d bm) (\<lambda>_. ret ()) (\<lambda>_. ret ())
      | Signed \<Rightarrow> set_state r Completed
      | Completed \<Rightarrow> ret ()
      | Compensated \<Rightarrow> ret ()))"

lemma resume_all_Cons [simp]:
  "resume_all R keys (i # items) = bind_op (resume_one R keys i) (\<lambda>_. resume_all R keys items)"
  by (cases i) (simp add: resume_one_def)

declare resume_all.simps(2) [simp del]

text \<open>Resuming one record leaves every other record alone.\<close>

lemma other_row_update: "r' \<noteq> r \<Longrightarrow> map_of (snd (update_row r g t)) r' = map_of t r'"
  by (simp add: select_update_row)

lemma keeps_other_row:
  assumes "r' \<noteq> fst i"
  shows "keeps (\<lambda>s. map_of (withdraw_states s) r' = x) (resume_one R keys i)"
proof -
  obtain r st a d bm where i: "i = (r, st, a, d, bm)" by (cases i)
  have ff: "fault_free (\<lambda>s :: 'x bank_db_scheme. map_of (withdraw_states s) r' = x)"
    by (simp add: fault_free_def)
  have set: "keeps (\<lambda>s. map_of (withdraw_states s) r' = x) (set_state r st')" for st'
    unfolding set_state_def using assms i by (intro wp ff) (auto simp: other_row_update)
  have "keeps (\<lambda>s. map_of (withdraw_states s) r' = x) (finalize_withdraw R keys r a d bm)"
    unfolding finalize_withdraw_def compensate_def using assms i
    by (intro wp ff set) (auto simp: other_row_update add_balance_frame)
  then show ?thesis
    unfolding i resume_one_def by (cases st) (auto intro: wp set)
qed

lemma keeps_other_resumable: "fst j \<noteq> fst i \<Longrightarrow> keeps (\<lambda>s. resumable s j) (resume_one R keys i)"
proof (rule keepsI)
  fix s x s'
  assume "fst j \<noteq> fst i" and "resumable s j" and "resume_one R keys i s = (x, s')"
  moreover from this have "map_of (withdraw_states s') (fst j) = map_of (withdraw_states s) (fst j)"
    using keepsD [OF keeps_other_row refl] by blast
  ultimately show "resumable s' j" by (auto simp: resumable_def split: prod.splits)
qed

lemma hoare_resume_one:
  "hoare (\<lambda>s. booked c h s \<and> resumable s i) (resume_one R keys i) (\<lambda>_. booked c h) (\<lambda>_. booked c h)"
proof (rule hoareI)
  obtain r st a d bm where i: "i = (r, st, a, d, bm)" by (cases i)
  have "booked c h s'" if P: "booked c h s \<and> resumable s i" and run: "resume_one R keys i s = (x, s')" for s x s'
  proof -
    from P i obtain w where w: "booked c h s \<and> at_row r w s" and m: "ws_state w = as_str st"
      "ws_denomination_cents w = uint d" "ws_account_id w = a" "st = Signed \<longrightarrow> ws_blind_signature w \<noteq> None"
      by (auto simp: resumable_def)
    show ?thesis
    proof (cases st)
      case Pending
      note fin = hoare_finalize [OF m(1) [unfolded Pending] m(2,3), of c h r R keys bm]
      obtain y s1 where y: "finalize_withdraw R keys r a d bm s = (y, s1)" by fastforce
      then have "s' = s1" using run by (cases y) (auto simp: i Pending resume_one_def)
      with hoare_Inr [OF fin w] hoare_Inl [OF fin w] y show ?thesis by (cases y) auto
    next
      case Signed
      then have sc: "hoare (\<lambda>s. booked c h s \<and> at_row r w s) (set_state r Completed)
          (\<lambda>_ s. booked c h s \<and> at_row r (w\<lparr>ws_state := as_str Completed\<rparr>) s) (\<lambda>_. booked c h)"
        using hoare_set_completed [of w c h r] m by simp
      have "set_state r Completed s = (x, s')" using run by (simp add: i Signed resume_one_def)
      with hoare_Inr [OF sc w] hoare_Inl [OF sc w] show ?thesis by (cases x) auto
    qed (use run w i in \<open>simp_all add: resume_one_def\<close>)
  qed
  then show "booked c h s \<and> resumable s i \<Longrightarrow> resume_one R keys i s = (Inr a, s') \<Longrightarrow> booked c h s'"
    and "booked c h s \<and> resumable s i \<Longrightarrow> resume_one R keys i s = (Inl e, s') \<Longrightarrow> booked c h s'" for s a e s'
    by blast+
qed

lemma keeps_Ball: "(\<And>x. x \<in> A \<Longrightarrow> keeps (\<lambda>s. F s x) m) \<Longrightarrow> keeps (\<lambda>s. \<forall>x\<in>A. F s x) m"
  by (simp add: keeps_def)

lemma hoare_resume_all:
  "distinct (map fst items) \<Longrightarrow>
   hoare (\<lambda>s. booked c h s \<and> (\<forall>i\<in>set items. resumable s i)) (resume_all R keys items)
     (\<lambda>_. booked c h) (\<lambda>_. booked c h)"
proof (induction items)
  case Nil
  then show ?case by (simp add: hoare_def)
next
  case (Cons i items)
  let ?rest = "\<lambda>s. \<forall>j\<in>set items. resumable s j"
  have "fst i \<notin> fst ` set items" using Cons.prems by simp
  then have "fst j \<noteq> fst i" if "j \<in> set items" for j using that by (metis imageI)
  then have "keeps ?rest (resume_one R keys i)" by (intro keeps_Ball keeps_other_resumable)
  from hoare_conj_keeps [OF hoare_resume_one this]
  have one: "hoare (\<lambda>s. booked c h s \<and> (\<forall>j\<in>set (i # items). resumable s j)) (resume_one R keys i)
      (\<lambda>_ s. booked c h s \<and> ?rest s) (\<lambda>_. booked c h)"
    by (rule hoare_weaken) auto
  show ?case unfolding resume_all_Cons using Cons by (intro hoare_bind [OF one]) simp
qed

lemma to_resume_rows:
  assumes "to_resume rows = Inr items"
    and "\<And>r w. (r, w) \<in> set rows \<Longrightarrow> at_row r w s \<and> withdrawal_ok (accounts s) w"
  shows "map fst items = map fst rows \<and> (\<forall>i\<in>set items. resumable s i)"
  using assms
proof (induction rows arbitrary: items)
  case (Cons p rows)
  obtain r w where p: "p = (r, w)" by fastforce
  from Cons.prems(2) p have w: "at_row r w s" "withdrawal_ok (accounts s) w" by auto
  from Cons.prems(1) p obtain st rest where st: "ws_state w = as_str st" and rest: "to_resume rows = Inr rest"
    and items: "items = (r, st, ws_account_id w, word_of_int (ws_denomination_cents w), ws_blinded_message w) # rest"
    by (auto simp: bind_result_Inr parse_state_Inr)
  have "uint (word_of_int (ws_denomination_cents w) :: u64) = ws_denomination_cents w"
    using w(2) by (simp add: withdrawal_ok_def uint_word_of_int)
  with w st have "resumable s (r, st, ws_account_id w, word_of_int (ws_denomination_cents w), ws_blinded_message w)"
    by (auto simp: resumable_def withdrawal_ok_def)
  with Cons.IH [OF rest] Cons.prems(2) items p show ?case by auto
qed simp

lemma in_flight_rows:
  assumes "bank_wf s" and "to_resume (in_flight s) = Inr items"
  shows "distinct (map fst items) \<and> (\<forall>i\<in>set items. resumable s i)"
proof -
  have "at_row r w s \<and> withdrawal_ok (accounts s) w" if "(r, w) \<in> set (in_flight s)" for r w
    using that assms(1) by (auto simp: in_flight_def wf_defs keyed_def)
  from to_resume_rows [OF assms(2) this] have "map fst items = map fst (in_flight s)"
    "\<forall>i\<in>set items. resumable s i" by auto
  moreover have "distinct (map fst (in_flight s))"
    using assms(1) by (simp add: in_flight_def wf_defs keyed_def distinct_map_filter)
  ultimately show ?thesis by simp
qed

lemma keeps_recover [wp]: "keeps (booked c h) (recover_withdrawals R keys)"
proof -
  have sel: "hoare (booked c h) (query Db in_flight) (\<lambda>rows s. booked c h s \<and> rows = in_flight s) (\<lambda>_. booked c h)"
    by (rule hoare_query [OF fault_free_tables(4)]) (simp_all add: fault_free_def in_flight_def)
  have pool: "hoare (booked c h) (pool_get Pool) (\<lambda>_. booked c h) (\<lambda>_. booked c h)"
    by (rule hoare_keeps) (intro wp fault_free_tables)
  have all: "hoare (\<lambda>s. booked c h s \<and> rows = in_flight s) (resume_all R keys items)
      (\<lambda>_. booked c h) (\<lambda>_. booked c h)" if items: "to_resume rows = Inr items" for rows items
  proof (rule hoareI)
    fix s x s'
    assume P: "booked c h s \<and> rows = in_flight s"
    then have r: "distinct (map fst items)" "booked c h s \<and> (\<forall>i\<in>set items. resumable s i)"
      using in_flight_rows [of s items] items by (auto simp: booked_def)
    show "resume_all R keys items s = (Inr x, s') \<Longrightarrow> booked c h s'"
      by (rule hoare_Inr [OF hoare_resume_all [OF r(1)] r(2)])
    show "resume_all R keys items s = (Inl e, s') \<Longrightarrow> booked c h s'" for e
      by (rule hoare_Inl [OF hoare_resume_all [OF r(1)] r(2)])
  qed
  show ?thesis
    unfolding keeps_hoare recover_withdrawals_def bind_of_result
    by (rule hoare_bind [OF pool], rule hoare_bind [OF sel], rule hoare_sum, rule hoare_fail, simp, rule all)
qed

lemma keeps_connect [wp]: "keeps (booked c h) (connect R mig pool loaded rc now)"
  unfolding connect_def by (intro wp) (simp add: keeps_def reset_nonce_ops_def booked_side_tables)

subsection \<open>Recovery finishes\<close>

text \<open>
  Everything the balances could become if every pending withdrawal were refunded. When it fits
  the column, no refund can overflow.
\<close>

definition headroom :: "'x bank_db_scheme \<Rightarrow> int" where
  "headroom s = sum_rows (\<lambda>_ b. b) (accounts s) +
     sum_rows (\<lambda>_ w. if ws_state w = as_str Pending then ws_denomination_cents w else 0) (withdraw_states s)"

lemma row_le_sum_rows:
  assumes "map_of t k = Some v" and "\<And>k v. (k, v) \<in> set t \<Longrightarrow> 0 \<le> f k v"
  shows "f k v \<le> sum_rows f t"
  using assms
proof (induction t)
  case (Cons p t)
  obtain k' v' where p: "p = (k', v')" by fastforce
  have "0 \<le> sum_rows f t"
    unfolding sum_rows_def using Cons.prems(2) by (intro sum_list_nonneg) auto
  moreover have "0 \<le> f k' v'" using Cons.prems(2) p by auto
  moreover have "f k v \<le> sum_rows f t" if "k' \<noteq> k" using Cons that p by auto
  ultimately show ?case using Cons.prems(1) p by (cases "k' = k") auto
qed simp

lemma refund_fits:
  assumes "bank_wf s" and "at_row r w s" and "ws_state w = as_str Pending" and "map_of (accounts s) a = Some b"
  shows "b + ws_denomination_cents w \<le> headroom s"
proof -
  let ?f = "\<lambda>_ w. if ws_state w = as_str Pending then ws_denomination_cents w else 0"
  have "b \<le> sum_rows (\<lambda>_ b. b) (accounts s)"
    using row_le_sum_rows [OF assms(4), of "\<lambda>_ b. b"] assms(1) by (fastforce simp: wf_defs keyed_def)
  moreover have "?f r w \<le> sum_rows ?f (withdraw_states s)"
    using assms(1) by (intro row_le_sum_rows [OF assms(2)])
      (fastforce simp: wf_defs keyed_def withdrawal_ok_def)
  ultimately show ?thesis using assms(3) by (simp add: headroom_def)
qed

abbreviation settled :: "withdraw_row \<Rightarrow> bool" where
  "settled w \<equiv> ws_state w = as_str Completed \<or> ws_state w = as_str Compensated"

lemma resume_one_ok:
  assumes "faults s = []" and "bank_wf s" and "resumable s i" and "headroom s \<le> i64_max"
    and keys: "\<And>r a d bm. i = (r, Pending, a, d, bm) \<Longrightarrow> key_get keys d SCHEME_ID_RSA_DETERMINISTIC \<noteq> None"
  shows "\<exists>s'. resume_one R keys i s = (Inr (), s') \<and> faults s' = [] \<and> headroom s' \<le> headroom s \<and>
    (\<exists>w. at_row (fst i) w s' \<and> settled w)"
proof -
  obtain r st a d bm where i: "i = (r, st, a, d, bm)" by (cases i)
  from assms(3) i obtain w where w: "at_row r w s" "ws_state w = as_str st" "ws_account_id w = a"
    "ws_denomination_cents w = uint d" by (auto simp: resumable_def)
  from assms(2) have k: "keyed (withdraw_states s)" "keyed (accounts s)" by (simp_all add: wf_defs)
  show ?thesis
  proof (cases st)
    case Pending
    obtain kp where kp: "key_get keys d SCHEME_ID_RSA_DETERMINISTIC = Some kp" using keys i Pending by fastforce
    obtain b where b: "map_of (accounts s) a = Some b" "0 \<le> b"
      using assms(2) w(1,3) by (fastforce simp: wf_defs withdrawal_ok_def)
    have fits: "b + uint d \<le> i64_max"
      using refund_fits [OF assms(2) w(1) _ b(1)] w(2,4) Pending assms(4) by simp
    note fin = finalize_ok [OF assms(1) kp b fits, of R r bm]
    show ?thesis
    proof (cases "sign_blinded R (kp_sk kp) bm")
      case (Inl e)
      then show ?thesis
        using fin w k b assms(1)
        by (simp add: i Pending resume_one_def headroom_def sum_rows_update select_update_row)
    next
      case (Inr sig)
      then show ?thesis
        using fin w k assms(1)
        by (simp add: i Pending resume_one_def headroom_def sum_rows_update select_update_row)
    qed
  next
    case Signed
    then show ?thesis
      using w k assms(1) by (simp add: i resume_one_def set_state_ok headroom_def sum_rows_update select_update_row)
  qed (use w i assms(1) in \<open>simp_all add: resume_one_def\<close>)
qed

lemma resume_all_ok:
  assumes "faults s = []" and "bank_wf s" and "\<forall>i\<in>set items. resumable s i" and "headroom s \<le> i64_max"
    and "distinct (map fst items)"
    and "\<forall>(r, st, a, d, bm)\<in>set items. st = Pending \<longrightarrow> key_get keys d SCHEME_ID_RSA_DETERMINISTIC \<noteq> None"
  shows "\<exists>s'. resume_all R keys items s = (Inr (), s') \<and> faults s' = [] \<and>
    (\<forall>i\<in>set items. \<exists>w. at_row (fst i) w s' \<and> settled w) \<and>
    (\<forall>r. r \<notin> fst ` set items \<longrightarrow> map_of (withdraw_states s') r = map_of (withdraw_states s) r)"
  using assms
proof (induction items arbitrary: s)
  case (Cons i items)
  have "\<exists>s1. resume_one R keys i s = (Inr (), s1) \<and> faults s1 = [] \<and> headroom s1 \<le> headroom s \<and>
      (\<exists>w. at_row (fst i) w s1 \<and> settled w)"
    using Cons.prems by (intro resume_one_ok) auto
  then obtain s1 where s1: "resume_one R keys i s = (Inr (), s1)" "faults s1 = []" "headroom s1 \<le> headroom s"
    "\<exists>w. at_row (fst i) w s1 \<and> settled w" by blast
  have other: "map_of (withdraw_states s1) r = map_of (withdraw_states s) r" if "r \<noteq> fst i" for r
    using keepsD [OF keeps_other_row [OF that] refl s1(1)] .
  have "booked (money s) s s \<and> resumable s i" using Cons.prems(2,3) by (simp add: booked_def)
  from hoare_Inr [OF hoare_resume_one this s1(1)] have "bank_wf s1" by (simp add: booked_def)
  moreover have new: "fst i \<notin> fst ` set items" using Cons.prems(5) by simp
  then have "\<forall>j\<in>set items. resumable s1 j"
    using Cons.prems(3) keepsD [OF keeps_other_resumable _ s1(1)] by (metis imageI list.set_intros(2))
  moreover have "headroom s1 \<le> i64_max" "distinct (map fst items)" using s1(3) Cons.prems(4,5) by simp_all
  moreover have "\<forall>(r, st, a, d, bm)\<in>set items. st = Pending \<longrightarrow> key_get keys d SCHEME_ID_RSA_DETERMINISTIC \<noteq> None"
    using Cons.prems(6) by simp
  ultimately obtain s2 where s2: "resume_all R keys items s1 = (Inr (), s2)" "faults s2 = []"
    "\<forall>i\<in>set items. \<exists>w. at_row (fst i) w s2 \<and> settled w"
    "\<forall>r. r \<notin> fst ` set items \<longrightarrow> map_of (withdraw_states s2) r = map_of (withdraw_states s1) r"
    using Cons.IH [OF s1(2)] by blast
  with s1 new other show ?case by auto
qed simp

lemma to_resume_total:
  assumes "\<And>r w. (r, w) \<in> set rows \<Longrightarrow> withdrawal_ok acc w"
  shows "\<exists>items. to_resume rows = Inr items"
  using assms
proof (induction rows)
  case (Cons p rows)
  then obtain items where items: "to_resume rows = Inr items" by auto
  obtain r w where p: "p = (r, w)" by fastforce
  with Cons.prems have "withdrawal_ok acc w" by auto
  then obtain st where "ws_state w = as_str st" "0 \<le> ws_denomination_cents w" by (auto simp: withdrawal_ok_def)
  with items p show ?case by (simp add: to_u64_def u64_try_from_def)
qed simp

text \<open>
  Recovery conserves the books. Starting the bank, with any outcome of the migrations, key
  files and configuration and any faults during recovery, keeps the database well-formed, leaves
  the books of every set of accounts unchanged and only moves records forward.
\<close>

lemma connect_keeps_books:
  assumes "bank_wf s" and "connect R migrations pool loaded registry_client now s = (r, s')"
  shows "bank_wf s' \<and> money s' = money s \<and> evolves s s'"
  using keeps_connect assms by (rule booked_run)

text \<open>
  C8: recovery leaves no withdrawal in flight. When the database answers, every pending
  withdrawal has a key for its denomination and refunds cannot overflow the balance column,
  recovery succeeds and afterwards every record is completed or compensated.
\<close>

theorem recover_completes:
  assumes "bank_wf s" and "faults s = []" and "headroom s \<le> i64_max"
    and keys: "\<forall>r w. at_row r w s \<longrightarrow> ws_state w = as_str Pending \<longrightarrow>
      key_get keys (word_of_int (ws_denomination_cents w)) SCHEME_ID_RSA_DETERMINISTIC \<noteq> None"
  shows "\<exists>s'. recover_withdrawals R keys s = (Inr (), s') \<and>
    (\<forall>r w. at_row r w s' \<longrightarrow> ws_state w = as_str Completed \<or> ws_state w = as_str Compensated)"
proof -
  have rows: "at_row r w s \<and> withdrawal_ok (accounts s) w" if "(r, w) \<in> set (in_flight s)" for r w
    using that assms(1) by (auto simp: in_flight_def wf_defs keyed_def)
  then obtain items where items: "to_resume (in_flight s) = Inr items"
    using to_resume_total [of "in_flight s" "accounts s"] by blast
  note it = to_resume_rows [OF items rows] in_flight_rows [OF assms(1) items]
  have "key_get keys d SCHEME_ID_RSA_DETERMINISTIC \<noteq> None" if "(r, Pending, a, d, bm) \<in> set items" for r a d bm
  proof -
    from that it(1) have "resumable s (r, Pending, a, d, bm)" by blast
    then obtain w where "at_row r w s" "ws_state w = as_str Pending" "ws_denomination_cents w = uint d"
      by (auto simp: resumable_def)
    with keys have "key_get keys (word_of_int (uint d)) SCHEME_ID_RSA_DETERMINISTIC \<noteq> None" by metis
    then show ?thesis by simp
  qed
  then have "\<forall>(r, st, a, d, bm)\<in>set items. st = Pending \<longrightarrow> key_get keys d SCHEME_ID_RSA_DETERMINISTIC \<noteq> None"
    by blast
  from resume_all_ok [OF assms(2,1) conjunct2 [OF it(1)] assms(3) conjunct1 [OF it(2)] this]
  obtain s' where
    s': "resume_all R keys items s = (Inr (), s')" "\<forall>i\<in>set items. \<exists>w. at_row (fst i) w s' \<and> settled w"
    "\<forall>r. r \<notin> fst ` set items \<longrightarrow> map_of (withdraw_states s') r = map_of (withdraw_states s) r" by blast
  have run: "recover_withdrawals R keys s = (Inr (), s')"
    using s'(1) items assms(2) by (simp add: recover_withdrawals_def)
  have "settled w" if w: "at_row r w s'" for r w
  proof (cases "r \<in> fst ` set items")
    case True
    then obtain i where "i \<in> set items" "fst i = r" by blast
    with s'(2) w show ?thesis by auto
  next
    case False
    then have "r \<notin> fst ` set (in_flight s)" using it(1) by (metis set_map)
    moreover from False s'(3) w have "at_row r w s" by simp
    ultimately have "\<not> (ws_state w = ''pending'' \<or> ws_state w = ''signed'')"
      using map_of_SomeD [of "withdraw_states s" r w] imageI [of "(r, w)" "set (in_flight s)" fst]
      by (auto simp: in_flight_def)
    then have "ws_state w \<noteq> as_str Pending" "ws_state w \<noteq> as_str Signed" by (simp_all add: as_str.simps)
    moreover obtain st where "ws_state w = as_str st"
      using wf_row [OF assms(1) \<open>at_row r w s\<close>] by (auto simp: withdrawal_ok_def)
    ultimately show ?thesis by (cases st) auto
  qed
  with run show ?thesis by blast
qed

subsection \<open>A missing key strands a withdrawal\<close>

text \<open>
  A pending withdrawal whose denomination has no key when the bank starts is neither completed nor
  refunded: whatever the database does, recovery leaves its record as it was. The hypothesis on
  keys in the theorem on recovery above is needed.
\<close>

lemma keeps_stranded:
  assumes "\<And>i. i \<in> set items \<Longrightarrow> fst i = r \<Longrightarrow>
    \<exists>a d bm. i = (r, Pending, a, d, bm) \<and> key_get keys d SCHEME_ID_RSA_DETERMINISTIC = None"
  shows "keeps (at_row r w) (resume_all R keys items)"
  using assms
proof (induction items)
  case (Cons i items)
  have "keeps (at_row r w) (resume_one R keys i)"
  proof (cases "fst i = r")
    case True
    with Cons.prems [of i] obtain a d bm where "i = (r, Pending, a, d, bm)" "key_get keys d SCHEME_ID_RSA_DETERMINISTIC = None" by auto
    then show ?thesis by (simp add: resume_one_def finalize_withdraw_def bind_of_result keeps_def catch_op_def)
  qed (use keeps_other_row [of r i] in blast)
  with Cons show ?case unfolding resume_all_Cons by (intro wp) auto
qed (auto intro: wp)

lemma recover_strands:
  assumes "bank_wf s" and "at_row r w s" and "ws_state w = as_str Pending"
    and "key_get keys (word_of_int (ws_denomination_cents w)) SCHEME_ID_RSA_DETERMINISTIC = None"
    and "recover_withdrawals R keys s = (res, s')"
  shows "at_row r w s'"
proof -
  let ?I = "\<lambda>t. same_tables s t" and ?E = "\<lambda>(_ :: BankError) t. at_row r w t"
  have start: "at_row r w t" if "?I t" for t using same_tablesD [OF that] assms(2) by auto
  have rows: "in_flight t = in_flight s" if "?I t" for t using same_tablesD [OF that] by (auto simp: in_flight_def)
  have "hoare ?I (query Db in_flight) (\<lambda>rows t. ?I t \<and> rows = in_flight t) ?E"
    by (rule hoare_query) (simp_all add: fault_free_def in_flight_def start)
  then have sel: "hoare ?I (query Db in_flight) (\<lambda>rows t. rows = in_flight s \<and> at_row r w t) ?E"
    by (rule hoare_weaken) (use start rows in blast)+
  have pool: "hoare ?I (pool_get Pool) (\<lambda>_. ?I) ?E" by (rule hoare_pool_get) (auto simp: start)
  have all: "hoare (\<lambda>t. rows = in_flight s \<and> at_row r w t) (resume_all R keys items) (\<lambda>_. at_row r w) ?E"
    if items: "to_resume rows = Inr items" for rows items
  proof (rule hoare_pure, rule hoare_keeps, rule keeps_stranded)
    fix i assume rows: "rows = in_flight s" and i: "i \<in> set items" "fst i = r"
    have "resumable s i" using in_flight_rows [OF assms(1)] items rows i(1) by blast
    with i(2) assms(2-4) show "\<exists>a d bm. i = (r, Pending, a, d, bm) \<and> key_get keys d SCHEME_ID_RSA_DETERMINISTIC = None"
      by (cases i) (auto simp: resumable_def)
  qed
  have "hoare ?I (recover_withdrawals R keys) (\<lambda>_. at_row r w) ?E"
    unfolding recover_withdrawals_def bind_of_result
    by (rule hoare_bind [OF pool], rule hoare_bind [OF sel], rule hoare_sum, rule hoare_fail, simp add: start, rule all)
  from hoare_Inr [OF this same_tables_refl] hoare_Inl [OF this same_tables_refl] assms(5) show ?thesis by (cases res) auto
qed

section \<open>Concrete runs\<close>

text \<open>A bank with two accounts, an 8-cent key and any fault script, and one request to it.\<close>

definition demo_keys :: "(u8, u8) KeyStore" where
  "demo_keys = [((8, 0), \<lparr>kp_pk = 7, kp_sk = 7\<rparr>)]"

definition demo_bank :: "fault list \<Rightarrow> bank_db" where
  "demo_bank fs = empty_bank\<lparr>faults := fs, accounts := [(''alice'', 100), (''bob'', 5)]\<rparr>"

definition demo_withdraw :: "bytes \<Rightarrow> WithdrawRequest" where
  "demo_withdraw bm = \<lparr>wr_account_id = ''alice'', wr_request_id = ''req-1'', wr_denomination_cents = 8,
     wr_blinded_message = bm\<rparr>"

lemma demo_bank_wf [simp]: "bank_wf (demo_bank fs)"
  by (auto simp: demo_bank_def empty_bank_def wf_defs keyed_def split: if_splits)

lemma demo_bank_simps [simp]:
  "faults (demo_bank fs) = fs" "accounts (demo_bank fs) = [(''alice'', 100), (''bob'', 5)]"
  "withdraw_states (demo_bank fs) = []"
  by (simp_all add: demo_bank_def empty_bank_def)

theorem withdraw_fresh_witness:
  "withdraw demo_brsa demo_keys (demo_withdraw [1, 2, 3, 4]) (demo_bank []) =
     (Inr \<lparr>blind_signature = [7, 1, 2, 3, 4]\<rparr>, (demo_bank [])\<lparr>
        accounts := [(''alice'', 92), (''bob'', 5)],
        withdraw_states := [(''req-1'', \<lparr>ws_state = as_str Completed, ws_account_id = ''alice'',
          ws_denomination_cents = 8, ws_blinded_message = [1, 2, 3, 4],
          ws_blind_signature = Some [7, 1, 2, 3, 4]\<rparr>)]\<rparr>)"
  using withdraw_fresh [of "demo_bank []" "demo_withdraw [1, 2, 3, 4]" demo_brsa demo_keys]
  by (simp add: demo_withdraw_def demo_keys_def key_get_def model_defs sign_blinded_def demo_brsa_def
      pending_row_def update_row_def)

definition demo_retried :: bank_db where
  "demo_retried = snd (withdraw demo_brsa demo_keys (demo_withdraw [1, 2, 3, 4])
     (((\<lambda>t. snd (withdraw demo_brsa demo_keys (demo_withdraw [1, 2, 3, 4]) t)) ^^ 2)
       (demo_bank [Ack, Lost, Ack, Ack, Ack, Ack, Ack, Ack, Unacked])))"

theorem withdraw_debits_once_witness:
  "map_of (accounts demo_retried) ''alice'' = Some 92"
proof -
  have "map_option ws_state (map_of (withdraw_states demo_retried) ''req-1'') = Some ''completed''"
    by code_simp
  then have "\<exists>w. at_row ''req-1'' w demo_retried \<and> ws_state w \<noteq> as_str Compensated"
    by (auto simp: as_str.simps)
  with withdraw_debits_once [of "demo_bank [Ack, Lost, Ack, Ack, Ack, Ack, Ack, Ack, Unacked]"
      "demo_withdraw [1, 2, 3, 4]", OF _ _ refl prod.collapse [symmetric], of demo_brsa demo_keys 2 "''alice''"]
  show ?thesis unfolding demo_retried_def [symmetric] by (simp add: demo_withdraw_def)
qed

theorem withdraw_replay_witness:
  "withdraw demo_brsa [] ((demo_withdraw [1, 2, 3, 4])\<lparr>wr_account_id := ''bob''\<rparr>)
     (snd (withdraw demo_brsa demo_keys (demo_withdraw [1, 2, 3, 4]) (demo_bank []))) =
   (Inr \<lparr>blind_signature = [7, 1, 2, 3, 4]\<rparr>,
    snd (withdraw demo_brsa demo_keys (demo_withdraw [1, 2, 3, 4]) (demo_bank [])))"
proof (rule withdraw_replay [where s = "demo_bank []" and req = "demo_withdraw [1, 2, 3, 4]"])
  have "fst (withdraw demo_brsa demo_keys (demo_withdraw [1, 2, 3, 4]) (demo_bank [])) =
      Inr \<lparr>blind_signature = [7, 1, 2, 3, 4]\<rparr>" by code_simp
  then show "withdraw demo_brsa demo_keys (demo_withdraw [1, 2, 3, 4]) (demo_bank []) =
      (Inr \<lparr>blind_signature = [7, 1, 2, 3, 4]\<rparr>,
       snd (withdraw demo_brsa demo_keys (demo_withdraw [1, 2, 3, 4]) (demo_bank [])))"
    by (metis prod.collapse)
  show "faults (snd (withdraw demo_brsa demo_keys (demo_withdraw [1, 2, 3, 4]) (demo_bank []))) = []"
    by code_simp
qed simp_all

text \<open>The state a crash between debit and signature leaves: alice debited, the record pending.\<close>

definition demo_crashed :: "bytes \<Rightarrow> bank_db" where
  "demo_crashed bm = (demo_bank [])\<lparr>accounts := [(''alice'', 92)],
     withdraw_states := [(''req-1'', pending_row (demo_withdraw bm))]\<rparr>"

theorem recover_completes_witness:
  "\<exists>s'. recover_withdrawals demo_brsa demo_keys (demo_crashed [1, 2, 3, 4]) = (Inr (), s') \<and>
    (\<forall>r w. at_row r w s' \<longrightarrow> ws_state w = as_str Completed \<or> ws_state w = as_str Compensated)"
proof (rule recover_completes)
  show "bank_wf (demo_crashed [1, 2, 3, 4])"
    by (auto simp: demo_crashed_def demo_bank_def empty_bank_def wf_defs keyed_def withdrawal_ok_def
        demo_withdraw_def split: if_splits)
  show "headroom (demo_crashed [1, 2, 3, 4]) \<le> i64_max"
    by (simp add: headroom_def demo_crashed_def demo_withdraw_def)
qed (auto simp: demo_crashed_def demo_withdraw_def demo_keys_def key_get_def model_defs split: if_splits)

end
