(* ===== verification/Bank_Deposit.thy ===== *)
theory Bank_Deposit
  imports Bank_Withdraw
begin

text \<open>
  The deposit protocol of \<open>bank.rs\<close>: signature check, the submission to the shared registry when
  one is configured, and the transaction that records the spent serial, credits the account and
  writes the idempotency row.
\<close>

section \<open>Operations\<close>

datatype DepositOutcome =
    DepositAccepted
  | DepositReplay
  | DepositDoubleSpend
  | DepositRequestIdReuse
  | DepositUnknownAccount

definition reject :: "DepositRejection \<Rightarrow> DepositResponse" where
  "reject rej = \<lparr>accepted = False, reason = Some rej\<rparr>"

definition accept :: DepositResponse where
  "accept = \<lparr>accepted = True, reason = None\<rparr>"

text \<open>The two inserts: spent serials with \<open>ON CONFLICT DO NOTHING\<close>, deposits without.\<close>

definition insert_spent :: "int \<times> int \<times> bytes \<Rightarrow> string \<Rightarrow> ('x bank_db_scheme, nat) stmt" where
  "insert_spent k request_id s =
     (case insert_row k request_id (spent_serials s) of (n, t) \<Rightarrow> Inr (n, s\<lparr>spent_serials := t\<rparr>))"

definition insert_deposit :: "string \<Rightarrow> deposit_row \<Rightarrow> ('x bank_db_scheme, nat) stmt" where
  "insert_deposit request_id d s =
     (case insert_row request_id d (deposits s) of
        (n, t) \<Rightarrow> if n = 0 then Inl (Unique_Violation ''deposits_pkey'')
                  else Inr (n, s\<lparr>deposits := t\<rparr>))"

definition commit_deposit :: "DepositRequest \<Rightarrow> ('x bank_db_scheme, BankError, DepositOutcome) op" where
  "commit_deposit req =
     (let coin = dr_coin req; scheme = uint (scheme_id coin); serial = serial_number coin in
      bind_op (of_result (to_i64 (denomination_cents coin) ''denomination'')) (\<lambda>denom.
      bind_op (pool_get Pool) (\<lambda>_.
        transaction Db
         (bind_op (query Db (\<lambda>s. select_key (deposits s) (dr_request_id req))) (\<lambda>row.
            case row of
              Some prior \<Rightarrow>
                ret (Rollback
                  (if dp_scheme_id prior = scheme \<and> dp_denomination_cents prior = denom \<and>
                      dp_serial_number prior = serial
                   then DepositReplay else DepositRequestIdReuse))
            | None \<Rightarrow>
                bind_op (execute Db (insert_spent (scheme, denom, serial) (dr_request_id req))) (\<lambda>inserted.
                if inserted = 0 then ret (Rollback DepositDoubleSpend)
                else
                  bind_op (execute Db (add_balance (dr_account_id req) denom)) (\<lambda>credited.
                  if credited = 0 then ret (Rollback DepositUnknownAccount)
                  else
                    bind_op (execute Db (insert_deposit (dr_request_id req)
                      \<lparr>dp_scheme_id = scheme, dp_denomination_cents = denom, dp_serial_number = serial,
                       dp_account_id = dr_account_id req\<rparr>)) (\<lambda>_.
                      ret (Commit DepositAccepted)))))))))"

fun deposit_response :: "DepositOutcome \<Rightarrow> DepositResponse" where
  "deposit_response DepositAccepted = accept"
| "deposit_response DepositReplay = accept"
| "deposit_response DepositDoubleSpend = reject DoubleSpend"
| "deposit_response DepositRequestIdReuse = reject RequestIdReuse"
| "deposit_response DepositUnknownAccount = reject UnknownAccount"

text \<open>
  The registry client is an operation on the same state: what the submission of
  (denomination, scheme, serial, time) answers, or its error. The join error of the blocking task
  is an error of that operation.
\<close>

type_synonym ('s) submit = "u64 \<Rightarrow> u8 \<Rightarrow> bytes \<Rightarrow> u64 \<Rightarrow> ('s, BankError, SerialOutcome) op"

definition deposit ::
  "('sk, 'pk, 'br) brsa \<Rightarrow> ('sk, 'pk) KeyStore \<Rightarrow> 'x bank_db_scheme submit option \<Rightarrow> u64 \<Rightarrow> DepositRequest
   \<Rightarrow> ('x bank_db_scheme, BankError, DepositResponse) op" where
  "deposit R keys registry_client now req =
     (let coin = dr_coin req in
      case ensure_supported_scheme (scheme_id coin) of
        Inl _ \<Rightarrow> ret (reject UnknownScheme)
      | Inr _ \<Rightarrow>
      (case key_get keys (denomination_cents coin) (scheme_id coin) of
        None \<Rightarrow> ret (reject UnknownDenomination)
      | Some keypair \<Rightarrow>
      (case verify R (kp_pk keypair) (serial_from_bytes (serial_number coin)) (signature coin) of
        Inl _ \<Rightarrow> ret (reject InvalidSignature)
      | Inr _ \<Rightarrow>
        bind_op
          (case registry_client of
             None \<Rightarrow> ret SerialAccepted
           | Some submit \<Rightarrow> submit (denomination_cents coin) (scheme_id coin) (serial_number coin) now)
          (\<lambda>outcome.
             case outcome of
               SerialDoubleSpend \<Rightarrow> ret (reject RegistryDoubleSpend)
             | SerialExposureCapExceeded \<Rightarrow> ret (reject ExposureCapExceeded)
             | SerialAccepted \<Rightarrow>
                 bind_op (commit_deposit req) (\<lambda>out. ret (deposit_response out))))))"

section \<open>The deposit transaction as one step\<close>

text \<open>What a deposit that goes through writes.\<close>

definition deposit_row_of :: "DepositRequest \<Rightarrow> deposit_row" where
  "deposit_row_of req =
     \<lparr>dp_scheme_id = uint (scheme_id (dr_coin req)),
      dp_denomination_cents = uint (denomination_cents (dr_coin req)),
      dp_serial_number = serial_number (dr_coin req), dp_account_id = dr_account_id req\<rparr>"

definition credited :: "DepositRequest \<Rightarrow> 'x bank_db_scheme \<Rightarrow> 'x bank_db_scheme" where
  "credited req s = s\<lparr>
     spent_serials := spent_serials s @ [(coin_key (deposit_row_of req), dr_request_id req)],
     accounts := snd (update_row (dr_account_id req) (\<lambda>b. b + uint (denomination_cents (dr_coin req))) (accounts s)),
     deposits := deposits s @ [(dr_request_id req, deposit_row_of req)]\<rparr>"

text \<open>When it goes through.\<close>

definition creditable :: "DepositRequest \<Rightarrow> 'x bank_db_scheme \<Rightarrow> bool" where
  "creditable req s \<longleftrightarrow>
     map_of (deposits s) (dr_request_id req) = None \<and>
     map_of (spent_serials s) (coin_key (deposit_row_of req)) = None \<and>
     uint (denomination_cents (dr_coin req)) \<le> i64_max \<and>
     (\<exists>b. map_of (accounts s) (dr_account_id req) = Some b \<and>
          b + uint (denomination_cents (dr_coin req)) \<le> i64_max)"

lemma deposit_row_simps [simp]:
  "dp_denomination_cents (deposit_row_of req) = uint (denomination_cents (dr_coin req))"
  "dp_account_id (deposit_row_of req) = dr_account_id req"
  by (simp_all add: deposit_row_of_def)

lemma deposit_row_folds:
  "\<lparr>dp_scheme_id = uint (scheme_id (dr_coin req)), dp_denomination_cents = uint (denomination_cents (dr_coin req)),
    dp_serial_number = serial_number (dr_coin req), dp_account_id = dr_account_id req\<rparr> = deposit_row_of req"
  "(uint (scheme_id (dr_coin req)), uint (denomination_cents (dr_coin req)), serial_number (dr_coin req)) =
    coin_key (deposit_row_of req)"
  "(dp_scheme_id p = uint (scheme_id (dr_coin req)) \<and>
    dp_denomination_cents p = uint (denomination_cents (dr_coin req)) \<and>
    dp_serial_number p = serial_number (dr_coin req)) = (coin_key p = coin_key (deposit_row_of req))"
  by (auto simp: deposit_row_of_def coin_key_def)

lemma wf_deposit:
  "bank_wf s \<Longrightarrow> map_of (deposits s) r = Some d \<Longrightarrow> map_of (spent_serials s) (coin_key d) = Some r"
  by (simp add: wf_defs)

lemma credited_booked:
  assumes "booked c h s" and "creditable req s"
  shows "booked c h (credited req s)"
proof -
  let ?d = "uint (denomination_cents (dr_coin req))" and ?k = "coin_key (deposit_row_of req)"
  from assms(2) obtain b where new: "map_of (deposits s) (dr_request_id req) = None"
    "map_of (spent_serials s) ?k = None" and b: "map_of (accounts s) (dr_account_id req) = Some b" "b + ?d \<le> i64_max"
    by (auto simp: creditable_def)
  from assms(1) have wf: "bank_wf s" by (simp add: booked_def)
  then have b0: "0 \<le> b" using b by (auto simp: wf_defs)
  have nd: "0 \<le> ?d" by simp
  have acc: "balances_ok (credited req s)" "withdrawals_ok (credited req s)"
    using wf b b0 nd by (auto simp: wf_defs credited_def withdrawal_ok_def select_update_row)
  have keyed: "tables_keyed (credited req s)"
    using wf new by (auto simp: wf_defs credited_def keyed_def map_of_eq_None_iff)
  have "deposits_ok (credited req s)"
  proof -
    have D: "map_of (deposits (credited req s)) =
        (map_of (deposits s))(dr_request_id req \<mapsto> deposit_row_of req)"
      using new(1) by (auto simp: credited_def fun_eq_iff map_add_def split: option.splits)
    have S: "map_of (spent_serials (credited req s)) = (map_of (spent_serials s))(?k \<mapsto> dr_request_id req)"
      using new(2) by (auto simp: credited_def fun_eq_iff map_add_def split: option.splits)
    have A: "map_of (accounts (credited req s)) x = None \<longleftrightarrow> map_of (accounts s) x = None" for x
      by (simp add: credited_def)
    from wf have old: "deposits_ok s" by (simp add: bank_wf_def)
    show ?thesis
      unfolding deposits_ok_def D S A using old new b(1) unfolding deposits_ok_def by (force split: if_splits)
  qed
  with acc keyed have "bank_wf (credited req s)" by (simp add: bank_wf_def)
  moreover have "money (credited req s) = money s"
    using wf b by (auto simp: money_def credited_def fun_eq_iff sum_rows_update wf_defs)
  moreover have "evolves s (credited req s)"
    using new by (auto simp: evolves_def credited_def map_le_def map_add_def split: option.splits)
  ultimately show ?thesis using assms(1) by (auto simp: booked_def intro: evolves_trans)
qed

section \<open>A deposit under any faults: all or nothing\<close>

text \<open>The outcome the tables determine.\<close>

definition outcome_of :: "DepositRequest \<Rightarrow> 'x bank_db_scheme \<Rightarrow> DepositOutcome" where
  "outcome_of req s =
     (case map_of (deposits s) (dr_request_id req) of
        Some prior \<Rightarrow>
          if coin_key prior = coin_key (deposit_row_of req) then DepositReplay else DepositRequestIdReuse
      | None \<Rightarrow>
          if map_of (spent_serials s) (coin_key (deposit_row_of req)) \<noteq> None then DepositDoubleSpend
          else if map_of (accounts s) (dr_account_id req) = None then DepositUnknownAccount
          else DepositAccepted)"

definition after_commit :: "DepositRequest \<Rightarrow> 'x bank_db_scheme \<Rightarrow> DepositOutcome \<Rightarrow> 'x bank_db_scheme \<Rightarrow> bool" where
  "after_commit req h out s \<longleftrightarrow> out = outcome_of req h \<and>
     (if out = DepositAccepted then creditable req h \<and> same_tables (credited req h) s else same_tables h s)"

lemma fault_free_after [simp]: "fault_free (after_commit req h out)"
  by (simp add: fault_free_def after_commit_def)

lemma hoare_commit_deposit:
  fixes req :: DepositRequest
  defines "k \<equiv> coin_key (deposit_row_of req)" and "d \<equiv> uint (denomination_cents (dr_coin req))"
  shows "hoare (same_tables h) (commit_deposit req) (after_commit req h)
    (\<lambda>_ s. same_tables h s \<or> creditable req h \<and> same_tables (credited req h) s)"
proof (cases "d \<le> i64_max")
  case True
  let ?r = "dr_request_id req" and ?a = "dr_account_id req"
  let ?h1 = "h\<lparr>spent_serials := spent_serials h @ [(k, ?r)]\<rparr>"
  let ?h2 = "?h1\<lparr>accounts := snd (update_row ?a (\<lambda>b. b + d) (accounts h))\<rparr>"
  have pool: "hoare (same_tables h) (pool_get Pool) (\<lambda>_. same_tables h)
      (\<lambda>_ s. same_tables h s \<or> creditable req h \<and> same_tables (credited req h) s)"
    by (rule hoare_pool_get) simp_all
  have sel: "hoare (same_tables h) (query Db (\<lambda>s. select_key (deposits s) ?r))
      (\<lambda>x s. x = map_of (deposits h) ?r \<and> same_tables h s) (\<lambda>_ _. True)"
    by (rule hoare_weaken [OF hoare_query [where P = "same_tables h" and E = "\<lambda>_ _. True"]])
      (auto simp: fault_free_def dest: same_tablesD)
  have ins: "hoare (same_tables h) (execute Db (insert_spent k ?r))
      (\<lambda>n s. (n = 0) = (map_of (spent_serials h) k \<noteq> None) \<and> (n \<noteq> 0 \<longrightarrow> same_tables ?h1 s)) (\<lambda>_ _. True)"
    by (rule hoare_execute, simp, cases "map_of (spent_serials h) k")
      (auto simp: insert_spent_def insert_row_new insert_row_old same_tables_def split: prod.splits
        dest!: same_tablesD [unfolded same_tables_def])
  have add: "hoare (same_tables ?h1) (execute Db (add_balance ?a d))
      (\<lambda>n s. (if n = 0 then map_of (accounts h) ?a = None
              else \<exists>b. map_of (accounts h) ?a = Some b \<and> b + d \<le> i64_max) \<and>
             (n \<noteq> 0 \<longrightarrow> same_tables ?h2 s)) (\<lambda>_ _. True)"
  proof (rule hoare_execute)
    fix s n s'
    assume P: "same_tables ?h1 s" and st: "add_balance ?a d s = Inr (n, s')"
    then obtain fs where s: "s = ?h1\<lparr>faults := fs\<rparr>" by (auto dest: same_tablesD)
    from st show "(if n = 0 then map_of (accounts h) ?a = None
        else \<exists>b. map_of (accounts h) ?a = Some b \<and> b + d \<le> i64_max) \<and> (n \<noteq> 0 \<longrightarrow> same_tables ?h2 s')"
      by (cases rule: add_balance_cases) (auto simp: s same_tables_def)
  qed simp_all
  have dep: "hoare (same_tables ?h2) (execute Db (insert_deposit ?r (deposit_row_of req)))
      (\<lambda>_ s. same_tables (credited req h) s) (\<lambda>_ _. True)" if "map_of (deposits h) ?r = None"
    by (rule hoare_execute)
      (auto simp: that insert_deposit_def insert_row_new same_tables_def credited_def k_def d_def
        dest!: same_tablesD [unfolded same_tables_def])
  from True have i64: "to_i64 (denomination_cents (dr_coin req)) ''denomination'' = Inr d" by (simp add: d_def)
  show ?thesis
    unfolding commit_deposit_def Let_def i64 bind_of_Inr deposit_row_folds [where req = req, folded d_def, folded k_def]
    apply (rule hoare_bind [OF pool], rule hoare_transaction_body [OF fault_free_same fault_free_after])
      apply (rule hoare_bind [OF sel], rule hoare_pure, rule hoare_option)
       apply (rule hoare_bind [OF ins], rule hoare_pure, rule hoare_if)
        apply (rule hoare_ret, simp add: after_commit_def outcome_of_def k_def)
       apply (rule hoare_pre, rule hoare_bind [OF add], rule hoare_pure, rule hoare_if)
         apply (rule hoare_ret, simp add: after_commit_def outcome_of_def k_def)
        apply (rule hoare_pre, rule hoare_bind [OF dep], simp, rule hoare_ret)
    using True
    by (auto simp: after_commit_def outcome_of_def creditable_def k_def d_def intro!: hoare_ret
        split: if_splits option.splits)
qed (simp add: commit_deposit_def Let_def bind_of_result to_i64_def i64_try_from_def hoare_def d_def)

lemma keeps_commit_deposit [wp]: "keeps (booked c h) (commit_deposit req)"
proof (rule keepsI)
  fix s r s'
  assume B: "booked c h s" and run: "commit_deposit req s = (r, s')"
  note hoare_Inr [OF hoare_commit_deposit same_tables_refl, of req s]
    hoare_Inl [OF hoare_commit_deposit same_tables_refl, of req s]
  with run have "same_tables s s' \<or> creditable req s \<and> same_tables (credited req s) s'"
    by (cases r) (auto simp: after_commit_def split: if_splits)
  with B show "booked c h s'" by (auto dest!: same_tablesD intro: credited_booked)
qed

text \<open>A registry client that does not touch the bank's own tables.\<close>

definition tables_apart :: "'x bank_db_scheme submit option \<Rightarrow> bool" where
  "tables_apart rc \<longleftrightarrow> (\<forall>f c h d sc n t. rc = Some f \<longrightarrow> keeps (booked c h) (f d sc n t))"

text \<open>
  What such a client does is in the part of the state that is not the bank's database: the bank's
  tables and the script of its database calls are those from before.
\<close>

definition leaves_bank :: "'x bank_db_scheme submit option \<Rightarrow> bool" where
  "leaves_bank rc \<longleftrightarrow> (\<forall>f d sc n t s. rc = Some f \<longrightarrow>
     bank_db.truncate (snd (f d sc n t s)) = bank_db.truncate s)"

lemma truncate_tables:
  assumes "bank_db.truncate s' = bank_db.truncate s"
  shows "faults s' = faults s" "accounts s' = accounts s" "identities s' = identities s"
    "spent_serials s' = spent_serials s" "withdraw_states s' = withdraw_states s" "deposits s' = deposits s"
    "nonce_store s' = nonce_store s"
  using assms by (simp_all add: bank_db.truncate_def)

lemma truncate_books:
  assumes "bank_db.truncate s' = bank_db.truncate s"
  shows "bank_wf s' = bank_wf s" "money s' = money s" "evolves h s' = evolves h s"
  by (simp_all add: wf_defs money_def evolves_def truncate_tables [OF assms] fun_eq_iff)

lemma truncate_booked:
  assumes "bank_db.truncate s' = bank_db.truncate s"
  shows "booked c h s' = booked c h s"
  unfolding booked_def truncate_books [OF assms] ..

lemma leaves_bank_apart: "leaves_bank rc \<Longrightarrow> tables_apart rc"
  unfolding leaves_bank_def tables_apart_def keeps_def by (metis truncate_booked)

lemma leaves_bank_simps [simp]: "leaves_bank None" "leaves_bank (Some (\<lambda>d sc n t. ret x))"
  by (simp_all add: leaves_bank_def)

lemma keeps_deposit:
  assumes "tables_apart rc"
  shows "keeps (booked c h) (deposit R keys rc now req)"
  unfolding deposit_def Let_def
  using assms by (auto simp: tables_apart_def split: SerialOutcome.splits intro!: wp)

section \<open>Behaviour without faults\<close>

lemma commit_deposit_ok:
  assumes "faults s = []" and "balances_ok s"
  shows "commit_deposit req s =
    (if i64_max < uint (denomination_cents (dr_coin req))
     then (Inl (ValueRange (''denomination '' @ u64_to_string (denomination_cents (dr_coin req)) @
             '' exceeds the i64 column range'')), s)
     else if outcome_of req s = DepositAccepted \<and> \<not> creditable req s then (Inl (Db Bigint_Out_Of_Range), s)
     else (Inr (outcome_of req s), if outcome_of req s = DepositAccepted then credited req s else s))"
proof -
  let ?d = "uint (denomination_cents (dr_coin req))" and ?k = "coin_key (deposit_row_of req)"
  let ?r = "dr_request_id req" and ?a = "dr_account_id req"
  let ?s1 = "s\<lparr>spent_serials := spent_serials s @ [(?k, ?r)]\<rparr>"
  have spent: "insert_spent ?k ?r s = Inr (1, ?s1)" if "map_of (spent_serials s) ?k = None"
    using that by (simp add: insert_spent_def insert_row_new)
  show ?thesis
  proof (cases "?d \<le> i64_max")
    case True
    then have i64: "to_i64 (denomination_cents (dr_coin req)) ''denomination'' = Inr ?d" by simp
    have "0 \<le> b" if "map_of (accounts s) ?a = Some b" for b using assms(2) that by (auto simp: balances_ok_def)
    then have add: "add_balance ?a ?d ?s1 = (case map_of (accounts s) ?a of
        None \<Rightarrow> Inr (0, ?s1)
      | Some b \<Rightarrow> if b + ?d \<le> i64_max
          then Inr (1, ?s1\<lparr>accounts := snd (update_row ?a (\<lambda>b. b + ?d) (accounts s))\<rparr>)
          else Inl Bigint_Out_Of_Range)"
      using add_balance_ok [of ?s1 ?a _ ?d]
      by (auto simp: add_balance_def [of ?a ?d ?s1] is_i64_def split: option.splits)
    note body = commit_deposit_def Let_def i64 bind_of_Inr deposit_row_folds
    consider p where "map_of (deposits s) ?r = Some p"
      | r where "map_of (deposits s) ?r = None" "map_of (spent_serials s) ?k = Some r"
      | "map_of (deposits s) ?r = None" "map_of (spent_serials s) ?k = None" by fastforce
    then show ?thesis
    proof cases
      case 1
      then show ?thesis
        unfolding body using assms(1) True by (simp add: transaction_rollback_ok outcome_of_def)
    next
      case 2
      then have "insert_spent ?k ?r s = Inr (0, s)" by (simp add: insert_spent_def insert_row_old)
      with 2 show ?thesis
        unfolding body using assms(1) True by (simp add: transaction_rollback_ok outcome_of_def)
    next
      case 3
      show ?thesis
      proof (cases "map_of (accounts s) ?a")
        case None
        with 3 show ?thesis
          unfolding body using assms(1) True
          by (simp add: spent add transaction_rollback_ok outcome_of_def)
      next
        case (Some b)
        with 3 show ?thesis
          unfolding body using assms(1) True
          by (simp add: spent add transaction_ok outcome_of_def creditable_def credited_def
              insert_deposit_def insert_row_new)
      qed
    qed
  qed (simp add: commit_deposit_def Let_def to_i64_def i64_try_from_def)
qed

lemma ensure_supported_scheme_Inr [simp]:
  "ensure_supported_scheme i = Inr u \<longleftrightarrow> i = SCHEME_ID_RSA_DETERMINISTIC"
  by (simp add: ensure_supported_scheme_def)

text \<open>Two states whose bank databases have the same tables.\<close>

definition same_bank :: "'x bank_db_scheme \<Rightarrow> 'x bank_db_scheme \<Rightarrow> bool" where
  "same_bank h s \<longleftrightarrow> (bank_db.truncate s)\<lparr>faults := []\<rparr> = (bank_db.truncate h)\<lparr>faults := []\<rparr>"

lemma same_bank_refl [simp]: "same_bank s s"
  by (simp add: same_bank_def)

lemma same_bank_trans: "same_bank h s \<Longrightarrow> same_bank s t \<Longrightarrow> same_bank h t"
  by (simp add: same_bank_def)

lemma same_bank_tables: "same_tables h s \<Longrightarrow> same_bank h s"
  by (auto simp: same_bank_def bank_db.truncate_def dest!: same_tablesD)

lemma same_bank_truncate: "bank_db.truncate s = bank_db.truncate h \<Longrightarrow> same_bank h s"
  by (simp add: same_bank_def)

lemma same_bankD:
  assumes "same_bank h s"
  shows "accounts s = accounts h" "spent_serials s = spent_serials h" "deposits s = deposits h"
    "identities s = identities h" "withdraw_states s = withdraw_states h" "nonce_store s = nonce_store h"
  using assms by (auto simp: same_bank_def bank_db.truncate_def)

lemma creditable_same: "same_bank h s \<Longrightarrow> creditable req s = creditable req h"
  by (simp add: creditable_def same_bankD)

lemma credited_same: "same_bank h s \<Longrightarrow> same_bank (credited req h) (credited req s)"
  by (auto simp: credited_def same_bank_def bank_db.truncate_def)

lemma credited_not_creditable: "\<not> creditable req (credited req s)"
  by (auto simp: creditable_def credited_def map_add_def split: option.splits)

text \<open>The tables are the old ones or those of one credit.\<close>

abbreviation one_credit :: "DepositRequest \<Rightarrow> 'x bank_db_scheme \<Rightarrow> 'x bank_db_scheme \<Rightarrow> bool" where
  "one_credit req s t \<equiv> same_bank s t \<or> creditable req s \<and> same_bank (credited req s) t"

lemma one_credit_trans:
  assumes "one_credit req s t" and "one_credit req t u"
  shows "one_credit req s u"
  using assms creditable_same credited_same credited_not_creditable same_bank_trans by metis

text \<open>A deposit changes the bank's tables through its transaction only.\<close>

lemma commit_deposit_one_credit: "commit_deposit req s = (x, t) \<Longrightarrow> one_credit req s t"
  using hoare_Inr [OF hoare_commit_deposit same_tables_refl, of req s _ t]
    hoare_Inl [OF hoare_commit_deposit same_tables_refl, of req s _ t]
  by (cases x) (auto simp: after_commit_def same_bank_tables split: if_splits)

lemma deposit_run:
  assumes "leaves_bank rc" and "deposit R keys rc now req s = (r, s')"
  shows "one_credit req s s'"
proof -
  let ?coin = "dr_coin req" and ?J = "one_credit req s"
  let ?ask = "case rc of None \<Rightarrow> ret SerialAccepted
    | Some submit \<Rightarrow> submit (denomination_cents ?coin) (scheme_id ?coin) (serial_number ?coin) now"
  have "bank_db.truncate (snd (?ask t)) = bank_db.truncate t" for t
    using assms(1) by (cases rc) (simp_all add: leaves_bank_def)
  then have "same_bank s (snd (?ask t))" if "same_bank s t" for t
    using that by (simp add: same_bank_def)
  then have ask: "hoare (same_bank s) ?ask (\<lambda>_. same_bank s) (\<lambda>_. ?J)"
    by (intro hoareI disjI1) (metis snd_conv)+
  have com: "hoare (same_bank s) (commit_deposit req) (\<lambda>_. ?J) (\<lambda>_. ?J)"
    by (rule hoareI; erule one_credit_trans [OF disjI1 commit_deposit_one_credit])
  have "hoare (same_bank s) (deposit R keys rc now req) (\<lambda>_. ?J) (\<lambda>_. ?J)"
    unfolding deposit_def Let_def
    apply (rule hoare_sum, rule hoare_ret, simp)
    apply (rule hoare_option, rule hoare_ret, simp)
    apply (rule hoare_sum, rule hoare_ret, simp)
    apply (rule hoare_bind [OF ask])
    subgoal for _ _ _ oc by (cases oc) (auto intro!: hoare_ret hoare_bind [OF com])
    done
  from hoare_Inr [OF this same_bank_refl] hoare_Inl [OF this same_bank_refl] assms(2) show ?thesis
    by (cases r) blast+
qed

lemma keeps_one_credit:
  assumes "leaves_bank rc"
  shows "keeps (one_credit req s) (deposit R keys rc now req)"
proof (rule keepsI)
  fix t r t'
  assume "one_credit req s t" and "deposit R keys rc now req t = (r, t')"
  with deposit_run [OF assms this(2)] show "one_credit req s t'" using one_credit_trans by blast
qed

lemma keeps_fold: "(\<And>x. keeps I (m x)) \<Longrightarrow> I s \<Longrightarrow> I (fold (\<lambda>x t. snd (m x t)) xs s)"
  by (induction xs arbitrary: s) (auto simp: keeps_def)

text \<open>Acceptance means that the request has its row in the index.\<close>

lemma deposit_commits:
  assumes "deposit R keys rc now req s = (Inr resp, s')" and "accepted resp"
  obtains s1 out where "commit_deposit req s1 = (Inr out, s')" "out = DepositAccepted \<or> out = DepositReplay"
proof -
  from assms obtain kp where kp: "scheme_id (dr_coin req) = SCHEME_ID_RSA_DETERMINISTIC"
    "key_get keys (denomination_cents (dr_coin req)) (scheme_id (dr_coin req)) = Some kp"
    "verify R (kp_pk kp) (Serial (serial_number (dr_coin req))) (signature (dr_coin req)) = Inr ()"
    by (auto simp: deposit_def Let_def ensure_supported_scheme_def reject_def serial_from_bytes_def
        split: if_splits option.splits sum.splits)
  with assms(1) obtain oc s1 where oc: "(case oc of
      SerialDoubleSpend \<Rightarrow> ret (reject RegistryDoubleSpend)
    | SerialExposureCapExceeded \<Rightarrow> ret (reject ExposureCapExceeded)
    | SerialAccepted \<Rightarrow> bind_op (commit_deposit req) (\<lambda>out. ret (deposit_response out))) s1 = (Inr resp, s')"
    by (auto simp: deposit_def Let_def ensure_supported_scheme_def serial_from_bytes_def bind_op_Inr)
  then obtain out where com: "commit_deposit req s1 = (Inr out, s')" and "resp = deposit_response out"
    using assms(2) by (cases oc) (auto simp: bind_op_Inr reject_def)
  with assms(2) have out: "out = DepositAccepted \<or> out = DepositReplay"
    by (cases out) (auto simp: reject_def)
  with com show thesis by (rule that)
qed

lemma deposit_accept_row:
  assumes "deposit R keys rc now req s = (Inr resp, s')" and "accepted resp"
  shows "\<exists>d. map_of (deposits s') (dr_request_id req) = Some d \<and> coin_key d = coin_key (deposit_row_of req)"
proof -
  obtain s1 out where com: "commit_deposit req s1 = (Inr out, s')" and out: "out = DepositAccepted \<or> out = DepositReplay"
    using deposit_commits [OF assms] .
  have "after_commit req s1 out s'" by (rule hoare_Inr [OF hoare_commit_deposit same_tables_refl com])
  with out show ?thesis
    by (auto simp: after_commit_def outcome_of_def creditable_def credited_def map_add_def
        split: option.splits if_splits dest!: same_tablesD)
qed

section \<open>Properties\<close>

text \<open>
  A deposit conserves money and history, whatever the database does: with any registry
  client that leaves the bank's tables alone, the database stays well-formed, the books of every
  set of accounts are unchanged (what was credited is a deposit), and nothing recorded before is
  lost.
\<close>

lemma deposit_keeps_books:
  assumes "bank_wf s" and "tables_apart rc" and "deposit R keys rc now req s = (r, s')"
  shows "bank_wf s' \<and> money s' = money s \<and> evolves s s'"
  using keeps_deposit [OF assms(2)] assms(1,3) by (rule booked_run)

text \<open>
  C11: a single bank's deposit, branch by branch, when the database answers. An unsupported
  scheme, an unserved denomination and a signature that does not verify are rejected; a request
  id seen before is a replay (accepted, nothing credited again) for the same coin and a reuse for
  another; a spent coin is a double spend; an unknown account is rejected with the serial left
  unspent; otherwise the account is credited by the denomination and serial and request recorded
  with it. Only this last branch changes the database.
\<close>

theorem deposit_single_bank:
  fixes req :: DepositRequest
  defines "coin \<equiv> dr_coin req"
  assumes "faults s = []" and "bank_wf s"
  shows "deposit R keys None now req s =
    (if scheme_id coin \<noteq> SCHEME_ID_RSA_DETERMINISTIC then (Inr (reject UnknownScheme), s)
     else case key_get keys (denomination_cents coin) (scheme_id coin) of
       None \<Rightarrow> (Inr (reject UnknownDenomination), s)
     | Some kp \<Rightarrow>
         if verify R (kp_pk kp) (Serial (serial_number coin)) (signature coin) \<noteq> Inr ()
         then (Inr (reject InvalidSignature), s)
         else if i64_max < uint (denomination_cents coin)
         then (Inl (ValueRange (''denomination '' @ u64_to_string (denomination_cents coin) @
                 '' exceeds the i64 column range'')), s)
         else (case outcome_of req s of
             DepositAccepted \<Rightarrow>
               if creditable req s then (Inr accept, credited req s) else (Inl (Db Bigint_Out_Of_Range), s)
           | DepositReplay \<Rightarrow> (Inr accept, s)
           | DepositDoubleSpend \<Rightarrow> (Inr (reject DoubleSpend), s)
           | DepositRequestIdReuse \<Rightarrow> (Inr (reject RequestIdReuse), s)
           | DepositUnknownAccount \<Rightarrow> (Inr (reject UnknownAccount), s)))"
proof -
  have bal: "balances_ok s" using assms(3) by (simp add: wf_defs)
  note com = commit_deposit_ok [OF assms(2) bal, of req]
  show ?thesis
  proof (cases "scheme_id coin = SCHEME_ID_RSA_DETERMINISTIC")
    case False
    then show ?thesis by (simp add: deposit_def coin_def Let_def ensure_supported_scheme_def)
  next
    case scheme: True
    show ?thesis
    proof (cases "key_get keys (denomination_cents coin) SCHEME_ID_RSA_DETERMINISTIC")
      case None
      with scheme show ?thesis by (simp add: deposit_def coin_def Let_def ensure_supported_scheme_def)
    next
      case (Some kp)
      with scheme com show ?thesis
        by (cases "verify R (kp_pk kp) (Serial (serial_number coin)) (signature coin)"; cases "outcome_of req s")
          (simp_all add: deposit_def coin_def Let_def ensure_supported_scheme_def serial_from_bytes_def)
    qed
  qed
qed

text \<open>
  C12: an accepted coin is genuine and recorded. If a deposit reports acceptance, under any
  faults and with any registry, the coin's scheme is supported, its signature verifies under the
  bank's key for its denomination, and afterwards its serial is spent under this request.
\<close>

theorem deposit_accepted:
  assumes "bank_wf s" and "tables_apart rc" and "deposit R keys rc now req s = (Inr resp, s')" and "accepted resp"
  shows "scheme_id (dr_coin req) = SCHEME_ID_RSA_DETERMINISTIC \<and>
    (\<exists>kp. key_get keys (denomination_cents (dr_coin req)) (scheme_id (dr_coin req)) = Some kp \<and>
      verify R (kp_pk kp) (Serial (serial_number (dr_coin req))) (signature (dr_coin req)) = Inr ()) \<and>
    map_of (spent_serials s') (uint (scheme_id (dr_coin req)), uint (denomination_cents (dr_coin req)),
      serial_number (dr_coin req)) = Some (dr_request_id req)"
proof -
  from assms(3,4) obtain kp where kp: "scheme_id (dr_coin req) = SCHEME_ID_RSA_DETERMINISTIC"
    "key_get keys (denomination_cents (dr_coin req)) (scheme_id (dr_coin req)) = Some kp"
    "verify R (kp_pk kp) (Serial (serial_number (dr_coin req))) (signature (dr_coin req)) = Inr ()"
    by (auto simp: deposit_def Let_def ensure_supported_scheme_def reject_def serial_from_bytes_def
        split: if_splits option.splits sum.splits)
  have wf: "bank_wf s'" using booked_run [OF keeps_deposit [OF assms(2)] assms(1,3)] by simp
  from deposit_accept_row [OF assms(3,4)]
  have "map_of (spent_serials s') (coin_key (deposit_row_of req)) = Some (dr_request_id req)"
    using wf_deposit [OF wf] by metis
  with kp show ?thesis by (simp add: coin_key_def deposit_row_of_def)
qed

text \<open>
  A coin is credited at most once. Once a coin's serial is spent in a bank, every deposit of
  it there in every later state, under whatever request id, account and faults, leaves all
  balances and all tables exactly as they were.
\<close>

lemma deposit_never_twice:
  assumes "map_of (spent_serials s) (uint (scheme_id (dr_coin req)),
      uint (denomination_cents (dr_coin req)), serial_number (dr_coin req)) = Some rid"
    and "evolves s s1" and "leaves_bank rc" and "deposit R keys rc now req s1 = (r, s2)"
  shows "same_bank s1 s2"
proof -
  have spent: "map_of (spent_serials s1) (coin_key (deposit_row_of req)) = Some rid"
    using assms(1,2) by (auto simp: evolves_def map_le_def coin_key_def deposit_row_of_def dom_def)
  then have "\<not> creditable req s1" by (simp add: creditable_def)
  with deposit_run [OF assms(3,4)] show ?thesis by blast
qed

text \<open>
  C4: a retried deposit credits at most once, with or without a registry. However often one
  request is sent, at whatever times, whatever the registry answers each time and whatever is lost
  on the way, the bank's tables are either as before the first attempt or exactly those of a single
  atomic credit; and if the last attempt reports acceptance of a request id that was new, the
  credit has happened. The registry client is any operation that leaves the bank's database alone,
  as the bank's own does (\<open>client_leaves_bank\<close> in \<open>Federation\<close>). The converse is not claimed: with
  a registry, a retry after a lost answer is rejected although the credit has happened.
\<close>

theorem deposit_credits_once:
  assumes "leaves_bank rc" and "s1 = fold (\<lambda>earlier t. snd (deposit R keys rc earlier req t)) attempts s"
    and "deposit R keys rc now req s1 = (r, s2)"
  shows "(same_bank s s2 \<or> creditable req s \<and> same_bank (credited req s) s2) \<and>
    (map_of (deposits s) (dr_request_id req) = None \<longrightarrow> r = Inr accept \<longrightarrow>
      creditable req s \<and> same_bank (credited req s) s2)"
proof -
  have "one_credit req s s1"
    unfolding assms(2) by (rule keeps_fold [OF keeps_one_credit [OF assms(1)]]) simp
  then have J: "one_credit req s s2" using keepsD [OF keeps_one_credit [OF assms(1)] _ assms(3)] by blast
  have "creditable req s \<and> same_bank (credited req s) s2"
    if new: "map_of (deposits s) (dr_request_id req) = None" and "r = Inr accept"
  proof (rule ccontr)
    assume "\<not> ?thesis"
    with J have "same_bank s s2" by blast
    then have "map_of (deposits s2) (dr_request_id req) = None" using new by (simp add: same_bankD)
    with deposit_accept_row [OF assms(3) [unfolded that(2)]] show False by (simp add: accept_def)
  qed
  with J show ?thesis by blast
qed

section \<open>Concrete runs\<close>

definition demo_serial :: bytes where
  "demo_serial = replicate 32 5"

definition demo_deposit :: "string \<Rightarrow> string \<Rightarrow> DepositRequest" where
  "demo_deposit account request =
     \<lparr>dr_coin = \<lparr>scheme_id = 0, denomination_cents = 8, serial_number = demo_serial, signature = 7 # demo_serial\<rparr>,
      dr_account_id = account, dr_request_id = request\<rparr>"

text \<open>The bank after bob's deposit under \<open>dep-1\<close>.\<close>

definition demo_deposited :: bank_db where
  "demo_deposited = snd (deposit demo_brsa demo_keys None 0 (demo_deposit ''bob'' ''dep-1'') (demo_bank []))"

lemma tables_apart_None [simp]: "tables_apart None"
  by (simp add: tables_apart_def)

lemma tables_apart_constant: "tables_apart (Some (\<lambda>d sc n t. ret x))"
  by (auto simp: tables_apart_def intro: wp)

lemma demo_deposit_simps [simp]:
  "dr_coin (demo_deposit a r) =
    \<lparr>scheme_id = 0, denomination_cents = 8, serial_number = demo_serial, signature = 7 # demo_serial\<rparr>"
  "dr_account_id (demo_deposit a r) = a" "dr_request_id (demo_deposit a r) = r"
  by (simp_all add: demo_deposit_def)

lemma demo_bank_deposits [simp]: "deposits (demo_bank fs) = []" "spent_serials (demo_bank fs) = []"
  by (simp_all add: demo_bank_def empty_bank_def)

theorem deposit_single_bank_witness:
  "deposit demo_brsa demo_keys None 0 (demo_deposit ''bob'' ''dep-1'') (demo_bank []) =
     (Inr accept, (demo_bank [])\<lparr>
        spent_serials := [((0, 8, demo_serial), ''dep-1'')],
        accounts := [(''alice'', 100), (''bob'', 13)],
        deposits := [(''dep-1'', \<lparr>dp_scheme_id = 0, dp_denomination_cents = 8,
          dp_serial_number = demo_serial, dp_account_id = ''bob''\<rparr>)]\<rparr>)"
  using deposit_single_bank [of "demo_bank []" demo_brsa demo_keys 0 "demo_deposit ''bob'' ''dep-1''"]
  by (simp add: demo_keys_def key_get_def model_defs verify_def demo_brsa_def outcome_of_def
      creditable_def credited_def deposit_row_of_def coin_key_def update_row_def)

theorem deposit_accepted_witness:
  "map_of (spent_serials demo_deposited) (0, 8, demo_serial) = Some ''dep-1''"
proof -
  have "fst (deposit demo_brsa demo_keys None 0 (demo_deposit ''bob'' ''dep-1'') (demo_bank [])) = Inr accept"
    by code_simp
  then have "deposit demo_brsa demo_keys None 0 (demo_deposit ''bob'' ''dep-1'') (demo_bank []) =
      (Inr accept, demo_deposited)" by (metis demo_deposited_def prod.collapse)
  from deposit_accepted [OF demo_bank_wf tables_apart_None this] show ?thesis by (simp add: accept_def)
qed

text \<open>The first attempt through a registry loses its commit; the second is accepted.\<close>

theorem deposit_credits_once_witness:
  "same_bank (credited (demo_deposit ''bob'' ''dep-1'') (demo_bank [Ack, Ack, Ack, Ack, Ack, Ack, Lost]))
     (snd (deposit demo_brsa demo_keys (Some (\<lambda>d sc n t. ret SerialAccepted)) 5 (demo_deposit ''bob'' ''dep-1'')
        (fold (\<lambda>earlier t. snd (deposit demo_brsa demo_keys (Some (\<lambda>d sc n t. ret SerialAccepted)) earlier
            (demo_deposit ''bob'' ''dep-1'') t)) [0]
          (demo_bank [Ack, Ack, Ack, Ack, Ack, Ack, Lost]))))"
proof -
  have "fst (deposit demo_brsa demo_keys (Some (\<lambda>d sc n t. ret SerialAccepted)) 5 (demo_deposit ''bob'' ''dep-1'')
        (fold (\<lambda>earlier t. snd (deposit demo_brsa demo_keys (Some (\<lambda>d sc n t. ret SerialAccepted)) earlier
            (demo_deposit ''bob'' ''dep-1'') t)) [0]
          (demo_bank [Ack, Ack, Ack, Ack, Ack, Ack, Lost]))) = Inr accept" by code_simp
  with deposit_credits_once [where R = demo_brsa and keys = demo_keys and now = 5 and attempts = "[0]" and
      req = "demo_deposit ''bob'' ''dep-1''" and s = "demo_bank [Ack, Ack, Ack, Ack, Ack, Ack, Lost]",
      OF leaves_bank_simps(2) refl prod.collapse [symmetric]]
  show ?thesis by simp
qed

end
