(* ===== verification/Bank_Api.thy ===== *)
theory Bank_Api
  imports Bank_Deposit Http_Auth
begin

text \<open>
  The bank's HTTP surface: the request-signing middleware (\<open>auth.rs\<close>) and the handlers and
  routers (\<open>api.rs\<close>). What axum and serde do (matching a path parameter, extracting a typed
  body) and the certificate authority are arguments.
\<close>

section \<open>Authentication (\<open>auth.rs\<close>)\<close>

datatype AuthenticatedAccount = AuthenticatedAccount (authenticated_id: string)

definition authenticate ::
  "digests \<Rightarrow> ('sgk, 'vk) ed25519 \<Rightarrow> u64 \<Rightarrow> http_request
   \<Rightarrow> ('x bank_db_scheme, BankError AuthRejection, AuthenticatedAccount \<times> http_request) op" where
  "authenticate H D now rq =
     bind_op (of_result (ok_or (bad_request ''request body too large or unreadable'')
                (to_bytes (rq_body rq) MAX_BODY_BYTES))) (\<lambda>body.
     bind_op (of_result (map_err headers_rejection (from_lookup (rq_header rq)))) (\<lambda>auth.
     bind_op (map_err_op internal (identity_pubkey D (ah_account_id auth))) (\<lambda>found.
     bind_op (of_result (ok_or (unauthorized ''account has no registered signing key'') found)) (\<lambda>pubkey.
     if outside_window (ah_timestamp auth) now
     then fail (unauthorized ''request timestamp outside the accepted window'')
     else
       bind_op (of_result (decode_signature H (ah_signature auth))) (\<lambda>sig.
       let payload = canonical_payload H (rq_method rq) (rq_path rq) body (ah_timestamp auth) (ah_nonce auth) in
       bind_op (of_result (map_err (\<lambda>_. unauthorized ''signature verification failed'')
                  (identity_verify D pubkey (str_bytes payload) sig))) (\<lambda>_.
       bind_op (map_err_op internal (check_and_record_nonce (ah_nonce auth) now NONCE_TTL_SECS)) (\<lambda>fresh.
       if \<not> fresh then fail (unauthorized ''nonce already used (replay)'')
       else ret (AuthenticatedAccount (ah_account_id auth), rq\<lparr>rq_body := Some body\<rparr>))))))))"

section \<open>Handlers (\<open>api.rs\<close>)\<close>

record ApiError =
  ae_status :: int
  ae_message :: "string + BankError"

fun bank_error_status :: "BankError \<Rightarrow> int" where
  "bank_error_status (AccountExists _) = 409"
| "bank_error_status (WithdrawPreviouslyFailed _) = 409"
| "bank_error_status (IdentityExists _) = 409"
| "bank_error_status (AccountNotFound _) = 404"
| "bank_error_status (InsufficientBalance _ _ _) = 422"
| "bank_error_status (NoKeyForDenomination _) = 400"
| "bank_error_status _ = 500"

definition api_error_from :: "BankError \<Rightarrow> ApiError" where
  "api_error_from e = \<lparr>ae_status = bank_error_status e, ae_message = Inr e\<rparr>"

definition api_error :: "int \<Rightarrow> string \<Rightarrow> ApiError" where
  "api_error status msg = \<lparr>ae_status = status, ae_message = Inl msg\<rparr>"

definition ensure_account :: "AuthenticatedAccount \<Rightarrow> string \<Rightarrow> ApiError + unit" where
  "ensure_account auth target =
     (if authenticated_id auth = target then Inr ()
      else Inl (api_error 403 (''authenticated account '' @ authenticated_id auth @
                '' may not act on account '' @ target)))"

text \<open>
  What a handler calls of the certificate authority (\<open>tls.rs\<close>, modelled in \<open>Bank_Tls\<close>): issuing a client
  certificate and key, and reading the authority's own certificate.
\<close>

record ca_handle =
  ca_issue :: "string \<Rightarrow> BankError + string \<times> string"
  ca_pem :: string

definition register_account ::
  "digests \<Rightarrow> ('sgk, 'vk) ed25519 \<Rightarrow> ca_handle \<Rightarrow> RegisterRequest
   \<Rightarrow> ('x bank_db_scheme, ApiError, RegisterResponse) op" where
  "register_account H D ca req =
     bind_op (of_result (ok_or (api_error 400 ''public_key_hex is not valid hex'')
                (hex_decode H (public_key_hex req)))) (\<lambda>raw.
     if length raw \<noteq> IDENTITY_PUBLIC_KEY_LEN then fail (api_error 400 ''public key must be 32 bytes'')
     else
       bind_op (of_result (map_err (\<lambda>e. api_error 400 (core_error_to_string e)) (identity_from_bytes D raw))) (\<lambda>pk.
       bind_op (map_err_op api_error_from (register_identity D (reg_account_id req) pk)) (\<lambda>_.
       bind_op (of_result (map_err api_error_from (ca_issue ca (reg_account_id req)))) (\<lambda>(cert, key).
         ret \<lparr>client_cert_pem = cert, client_key_pem = key, ca_cert_pem = ca_pem ca\<rparr>))))"

definition create_account_authenticated ::
  "AuthenticatedAccount \<Rightarrow> CreateAccountRequest \<Rightarrow> ('x bank_db_scheme, ApiError, BalanceResponse) op" where
  "create_account_authenticated auth req =
     bind_op (of_result (ensure_account auth (ca_account_id req))) (\<lambda>_.
       map_err_op api_error_from (create_account (ca_account_id req) (initial_balance_cents req)))"

definition balance_response :: "string \<Rightarrow> ('x bank_db_scheme, ApiError, BalanceResponse) op" where
  "balance_response account_id =
     bind_op (map_err_op api_error_from (balance account_id)) (\<lambda>found.
       case found of
         Some v \<Rightarrow> ret \<lparr>bal_account_id = account_id, balance_cents = v\<rparr>
       | None \<Rightarrow> fail (api_error 404 (''account '' @ account_id @ '' not found'')))"

definition get_balance_authenticated ::
  "AuthenticatedAccount \<Rightarrow> string \<Rightarrow> ('x bank_db_scheme, ApiError, BalanceResponse) op" where
  "get_balance_authenticated auth account_id =
     bind_op (of_result (ensure_account auth account_id)) (\<lambda>_. balance_response account_id)"

definition withdraw_authenticated ::
  "('sk, 'pk, 'br) brsa \<Rightarrow> ('sk, 'pk) KeyStore \<Rightarrow> AuthenticatedAccount \<Rightarrow> WithdrawRequest
   \<Rightarrow> ('x bank_db_scheme, ApiError, WithdrawResponse) op" where
  "withdraw_authenticated R keys auth req =
     bind_op (of_result (ensure_account auth (wr_account_id req))) (\<lambda>_.
       map_err_op api_error_from (withdraw R keys req))"

definition deposit_authenticated ::
  "('sk, 'pk, 'br) brsa \<Rightarrow> ('sk, 'pk) KeyStore \<Rightarrow> 'x bank_db_scheme submit option \<Rightarrow> u64
   \<Rightarrow> AuthenticatedAccount \<Rightarrow> DepositRequest \<Rightarrow> ('x bank_db_scheme, ApiError, DepositResponse) op" where
  "deposit_authenticated R keys rc now auth req =
     bind_op (of_result (ensure_account auth (dr_account_id req))) (\<lambda>_.
       map_err_op api_error_from (deposit R keys rc now req))"

definition denominations_handler ::
  "('sk, 'pk, 'br) brsa \<Rightarrow> ('sk, 'pk) KeyStore \<Rightarrow> ApiError + DenominationsResponse" where
  "denominations_handler R keys =
     bind_result (map_err api_error_from (published_keys R keys)) (\<lambda>ks. Inr \<lparr>denominations = ks\<rparr>)"

subsection \<open>The authenticated router\<close>

datatype bank_reply =
    BalanceReply BalanceResponse
  | WithdrawReply WithdrawResponse
  | DepositReply DepositResponse
  | DenominationsReply DenominationsResponse

datatype bank_failure =
    Rejected "BankError AuthRejection"
  | Failed ApiError
  | Unextracted int
  | Unrouted int

text \<open>
  Extraction by axum and serde: the account id of a \<open>/accounts/{id}/balance\<close> path, and the typed
  bodies, or the status with which the extractor answers.
\<close>

record extractors =
  ex_balance_path :: "string \<Rightarrow> string option"
  ex_create :: "http_request \<Rightarrow> int + CreateAccountRequest"
  ex_withdraw :: "http_request \<Rightarrow> int + WithdrawRequest"
  ex_deposit :: "http_request \<Rightarrow> int + DepositRequest"

text \<open>The layer that authenticates, then runs the rest with the account and the buffered request.\<close>

definition verify_signed_request ::
  "digests \<Rightarrow> ('sgk, 'vk) ed25519 \<Rightarrow> u64 \<Rightarrow> http_request
   \<Rightarrow> (AuthenticatedAccount \<Rightarrow> http_request \<Rightarrow> ('x bank_db_scheme, bank_failure, 'a) op)
   \<Rightarrow> ('x bank_db_scheme, bank_failure, 'a) op" where
  "verify_signed_request H D now rq next =
     bind_op (map_err_op Rejected (authenticate H D now rq)) (\<lambda>(auth, rq'). next auth rq')"

definition handle_json ::
  "('b \<Rightarrow> bank_reply) \<Rightarrow> int + 'q \<Rightarrow> ('q \<Rightarrow> ('s, ApiError, 'b) op) \<Rightarrow> ('s, bank_failure, bank_reply) op" where
  "handle_json wrap extracted handler =
     bind_op (of_result (map_err Unextracted extracted)) (\<lambda>req.
     bind_op (map_err_op Failed (handler req)) (\<lambda>resp. ret (wrap resp)))"

text \<open>
  axum's \<open>get\<close> answers HEAD requests too. The signing layer wraps whole routes: a path that exists under
  another method is answered 405 behind it.
\<close>

definition is_get :: "string \<Rightarrow> bool" where
  "is_get m \<longleftrightarrow> m = ''GET'' \<or> m = ''HEAD''"

definition authenticated_router ::
  "extractors \<Rightarrow> ('sk, 'pk, 'br) brsa \<Rightarrow> digests \<Rightarrow> ('sgk, 'vk) ed25519 \<Rightarrow> ('sk, 'pk) KeyStore
   \<Rightarrow> 'x bank_db_scheme submit option \<Rightarrow> u64 \<Rightarrow> http_request
   \<Rightarrow> ('x bank_db_scheme, bank_failure, bank_reply) op" where
  "authenticated_router X R H D keys rc now rq =
     (let protected = verify_signed_request H D now rq in
      if rq_path rq = ''/accounts'' then
        if rq_method rq = ''POST''
        then protected (\<lambda>auth rq'. handle_json BalanceReply (ex_create X rq') (create_account_authenticated auth))
        else protected (\<lambda>auth rq'. fail (Unrouted 405))
      else if rq_path rq = ''/withdraw'' then
        if rq_method rq = ''POST''
        then protected (\<lambda>auth rq'. handle_json WithdrawReply (ex_withdraw X rq') (withdraw_authenticated R keys auth))
        else protected (\<lambda>auth rq'. fail (Unrouted 405))
      else if rq_path rq = ''/deposit'' then
        if rq_method rq = ''POST''
        then protected (\<lambda>auth rq'. handle_json DepositReply (ex_deposit X rq') (deposit_authenticated R keys rc now auth))
        else protected (\<lambda>auth rq'. fail (Unrouted 405))
      else if rq_path rq = ''/denominations'' then
        if is_get (rq_method rq)
        then of_result (map_err Failed (bind_result (denominations_handler R keys) (\<lambda>d. Inr (DenominationsReply d))))
        else fail (Unrouted 405)
      else (case ex_balance_path X (rq_path rq) of
          Some account_id \<Rightarrow>
            if is_get (rq_method rq)
            then protected (\<lambda>auth rq'. handle_json BalanceReply (Inr account_id) (get_balance_authenticated auth))
            else protected (\<lambda>auth rq'. fail (Unrouted 405))
        | None \<Rightarrow> fail (Unrouted 404)))"

section \<open>What authentication does to the state\<close>

lemma keeps_authenticate [wp]: "keeps (booked c h) (authenticate H D now rq)"
  unfolding authenticate_def Let_def by (intro wp)

text \<open>The ledger: every table but the nonces.\<close>

definition ledger :: "'x bank_db_scheme \<Rightarrow> (string, int) table \<times> (string, bytes) table \<times>
    (int \<times> int \<times> bytes, string) table \<times> (string, withdraw_row) table \<times> (string, deposit_row) table" where
  "ledger s = (accounts s, identities s, spent_serials s, withdraw_states s, deposits s)"

lemma ledger_simps [simp]:
  "ledger (s\<lparr>faults := fs\<rparr>) = ledger s"
  "ledger (s\<lparr>nonce_store := t\<rparr>) = ledger s"
  "ledger (s\<lparr>nonce_ops := k\<rparr>) = ledger s"
  by (simp_all add: ledger_def)

lemma fault_free_ledger [simp]: "fault_free (\<lambda>s. P (ledger s))"
  by (simp add: fault_free_def)

lemma keeps_ledger_nonce: "keeps (\<lambda>s. P (ledger s)) (check_and_record_nonce n now ttl)"
  unfolding check_and_record_nonce_def purge_expired_nonces_def
  by (intro wp fault_free_ledger) (auto simp: purge_nonces_def fetch_add_nonce_ops_def)

lemma keeps_ledger_identity: "keeps (\<lambda>s. P (ledger s)) (identity_pubkey D a)"
  unfolding identity_pubkey_def by (intro wp fault_free_ledger)

lemma keeps_ledger_authenticate: "keeps (\<lambda>s. P (ledger s)) (authenticate H D now rq)"
  unfolding authenticate_def Let_def by (intro wp keeps_ledger_identity keeps_ledger_nonce)

lemma identity_pubkey_store:
  "identity_pubkey D a s = (r, s') \<Longrightarrow> nonce_store s' = nonce_store s \<and> ledger s' = ledger s"
proof -
  have "keeps (\<lambda>t. nonce_store t = nonce_store s \<and> ledger t = ledger s) (identity_pubkey D a)"
    unfolding identity_pubkey_def by (intro wp) (simp_all add: fault_free_def)
  then show "identity_pubkey D a s = (r, s') \<Longrightarrow> ?thesis" by (rule keepsD) simp
qed

lemma identity_pubkey_Inr:
  assumes "identity_pubkey D a s = (Inr (Some pk), s')"
  shows "\<exists>b. map_of (identities s) a = Some b \<and> length b = IDENTITY_PUBLIC_KEY_LEN \<and>
    identity_from_bytes D b = Inr pk"
proof -
  from assms obtain s1 row where "pool_get Pool s = (Inr (), s1)"
    and q: "query Db (\<lambda>s. map_of (identities s) a) s1 = (Inr row, s')" and row: "row \<noteq> None"
      "\<And>b. row = Some b \<Longrightarrow> length b = IDENTITY_PUBLIC_KEY_LEN \<and> identity_from_bytes D b = Inr pk"
    by (auto simp: identity_pubkey_def bind_op_Inr split: option.splits if_splits)
  then have "map_of (identities s') a = map_of (identities s) a" "row = map_of (identities s') a"
    by (auto dest!: pool_get_Inr query_Inr)
  with row show ?thesis by auto
qed

text \<open>The middleware is the shared check over the bank's identities and nonces.\<close>

lemma authenticate_signed:
  "authenticate H D = signed_request H D AuthenticatedAccount ''account has no registered signing key''
     (identity_pubkey D) check_and_record_nonce"
  by (simp add: fun_eq_iff authenticate_def signed_request_def)

lemmas authenticate_Inr = signed_request_Inr [where wrap = AuthenticatedAccount
    and absent = "''account has no registered signing key''" and lookup = "identity_pubkey D"
    and check = check_and_record_nonce and D = D for D, folded authenticate_signed]

interpretation bank_auth: request_auth check_and_record_nonce nonce_store "identity_pubkey D"
  for D
  by unfold_locales (auto dest: identity_pubkey_store)

section \<open>Acceptance without faults\<close>

lemma check_nonce_ok:
  fixes now ttl :: u64
  assumes "faults s = []" and "uint now + uint ttl \<le> i64_max"
  shows "\<exists>s'. check_and_record_nonce n now ttl s =
      (Inr (fst (upsert_nonce n (uint now + uint ttl) (uint now) (nonce_store s)) = 1), s') \<and>
    faults s' = [] \<and> ledger s' = ledger s"
proof -
  have "0 \<le> uint ttl" by simp
  then have le: "uint now \<le> i64_max" using assms(2) by linarith
  then have i64: "to_i64 (u64_saturating_add now ttl) w = Inr (uint now + uint ttl)"
    "to_i64 now w = Inr (uint now)" for w using assms(2) by (auto simp: uint_saturating_add min_def)
  have u64: "to_u64 (uint now) w = Inr now" for w by simp
  have purge: "purge_expired_nonces now t = (Inr (), t\<lparr>nonce_store := unexpired (uint now) (nonce_store t)\<rparr>)"
    if "faults t = []" for t :: "'a bank_db_scheme"
    using that by (simp add: purge_expired_nonces_def i64 purge_nonces_def)
  show ?thesis
    using assms(1) by (simp add: check_and_record_nonce_def i64 u64 fetch_add_nonce_ops_def purge)
qed

lemma check_nonce_exact:
  fixes now ttl :: u64
  assumes "faults s = []" and "uint now + uint ttl \<le> i64_max" and "nonce_ops s mod 1024 \<noteq> 1023"
  shows "snd (check_and_record_nonce n now ttl s) =
    s\<lparr>nonce_store := snd (upsert_nonce n (uint now + uint ttl) (uint now) (nonce_store s)),
      nonce_ops := nonce_ops s + 1\<rparr>"
proof -
  have "0 \<le> uint ttl" by simp
  then have le: "uint now \<le> i64_max" using assms(2) by linarith
  then have i64: "to_i64 (u64_saturating_add now ttl) w = Inr (uint now + uint ttl)"
    "to_i64 now w = Inr (uint now)" for w using assms(2) by (auto simp: uint_saturating_add min_def)
  show ?thesis
    using assms(1,3)
    by (simp add: check_and_record_nonce_def i64 fetch_add_nonce_ops_def NONCE_PRUNE_INTERVAL_def)
qed

lemma authenticate_ok:
  assumes "faults s = []" and "hex_laws H" and "ed25519_laws D"
    and "rq_body rq = Some body" and "length body \<le> 2 ^ 20" and "from_lookup (rq_header rq) = Inr auth"
    and "map_of (identities s) (ah_account_id auth) = Some (vk_to_bytes D (sgk_verifying_key D k))"
    and "ah_signature auth = hex_encode H (sgk_sign D k
      (str_bytes (canonical_payload H (rq_method rq) (rq_path rq) body (ah_timestamp auth) (ah_nonce auth))))"
    and "\<bar>uint (ah_timestamp auth) - uint now\<bar> \<le> 60" and "uint now + 120 \<le> i64_max"
    and "\<forall>e. map_of (nonce_store s) (ah_nonce auth) = Some e \<longrightarrow> e \<le> uint now"
  defines "s' \<equiv> snd (check_and_record_nonce (ah_nonce auth) now NONCE_TTL_SECS s)"
  shows "authenticate H D now rq s = (Inr (AuthenticatedAccount (ah_account_id auth), rq), s') \<and>
    faults s' = [] \<and> ledger s' = ledger s"
proof -
  let ?v = "sgk_verifying_key D k"
  from assms(3) have laws: "length (vk_to_bytes D ?v) = 32" "vk_from_bytes D (vk_to_bytes D ?v) = Inr ?v"
    by (simp_all add: ed25519_laws_def)
  have idt: "identity_pubkey D (ah_account_id auth) s = (Inr (Some (IdentityPublicKey ?v)), s)"
    using assms(1,7) laws by (simp add: identity_pubkey_def identity_from_bytes_def model_defs)
  have "fst (upsert_nonce (ah_nonce auth) (uint now + uint NONCE_TTL_SECS) (uint now) (nonce_store s)) = 1"
    using assms(11) by (cases "map_of (nonce_store s) (ah_nonce auth)")
      (auto simp: upsert_nonce_def insert_row_new update_row_count)
  with check_nonce_ok [OF assms(1), of now NONCE_TTL_SECS "ah_nonce auth"] assms(10) have
    s': "check_and_record_nonce (ah_nonce auth) now NONCE_TTL_SECS s = (Inr True, s')" "faults s' = []" "ledger s' = ledger s"
    by (auto simp: NONCE_TTL_SECS_def s'_def)
  show ?thesis
    unfolding authenticate_signed using signed_request_ok [where lookup = "identity_pubkey D" and check = check_and_record_nonce,
      OF assms(2-6) idt assms(8,9) s'(1)] s'(2,3) by blast
qed

section \<open>Handlers and the books\<close>

lemma create_account_books:
  assumes "bank_wf s" and "create_account a v s = (r, s')"
  shows "bank_wf s' \<and> evolves s s' \<and>
    (money s' = money s \<or> map_of (accounts s) a = None \<and> money s' = credit (money s) a (uint v))"
proof -
  let ?I = "\<lambda>t. same_tables s t"
  let ?J = "\<lambda>t. bank_wf t \<and> evolves s t \<and>
    (money t = money s \<or> map_of (accounts s) a = None \<and> money t = credit (money s) a (uint v))"
  have I: "?J t" if "?I t" for t using that assms(1) by (auto dest!: same_tablesD simp: evolves_def)
  have ins: "hoare ?I (execute Db (insert_account a (uint v))) (\<lambda>_. ?J) (\<lambda>_. ?J)" if v: "uint v \<le> i64_max"
  proof (rule hoare_execute)
    fix t n t'
    assume t: "?I t" and st: "insert_account a (uint v) t = Inr (n, t')"
    from t obtain fs where t: "t = s\<lparr>faults := fs\<rparr>" by (auto dest: same_tablesD)
    then have "bank_wf t" using assms(1) by simp
    note books = insert_account_books [OF this _ v st]
    have "money t' = (if map_of (accounts s) a = None then credit (money s) a (uint v) else money s)"
      using books t by (auto simp: credit_def fun_eq_iff)
    moreover have "evolves s t'"
      using st t books by (auto simp: insert_account_def evolves_def split: if_splits prod.splits)
    ultimately show "?J t'" using books by auto
  qed (use I in \<open>simp_all add: fault_free_def evolves_def\<close>)
  have pool: "hoare ?I (pool_get Pool) (\<lambda>_. ?I) (\<lambda>_. ?J)" by (rule hoare_pool_get) (use I in simp_all)
  have "hoare ?I (create_account a v) (\<lambda>_. ?J) (\<lambda>_. ?J)"
    unfolding create_account_def bind_of_result
    by (rule hoare_sum, rule hoare_fail, erule I, simp, rule hoare_bind [OF pool], rule hoare_bind [OF ins], simp,
        rule hoare_if, rule hoare_fail, simp, rule hoare_ret, simp)
  from hoare_Inr [OF this same_tables_refl] hoare_Inl [OF this same_tables_refl] assms(2)
  show ?thesis by (cases r) auto
qed

text \<open>
  The effect any handler may have on behalf of an account: the tables stay well-formed and
  evolve, and the books change at most by its creation with an opening balance.
\<close>

definition on_behalf :: "string \<Rightarrow> 'x bank_db_scheme \<Rightarrow> 'x bank_db_scheme \<Rightarrow> bool" where
  "on_behalf a s s' \<longleftrightarrow> bank_wf s' \<and> evolves s s' \<and>
     (money s' = money s \<or>
      map_of (accounts s) a = None \<and> (\<exists>v. money s' = credit (money s) a (uint (v :: u64))))"

lemma booked_on_behalf:
  assumes "\<And>c h. keeps (booked c h) m" and "bank_wf s" and "m s = (r, s')"
  shows "on_behalf a s s'"
  using booked_run [OF assms] by (simp add: on_behalf_def)

lemma create_on_behalf:
  assumes "bank_wf s" and "create_account a v s = (r, s')"
  shows "on_behalf a s s'"
  using create_account_books [OF assms] unfolding on_behalf_def by blast

lemma on_behalf_after_auth:
  assumes "authenticate H D now rq s = (x, s1)" and "bank_wf s" and "bank_wf s1 \<Longrightarrow> on_behalf a s1 s2"
  shows "on_behalf a s s2"
proof -
  have led: "ledger s1 = ledger s"
    using keepsD [OF keeps_ledger_authenticate [where P = "\<lambda>l. l = ledger s"] _ assms(1)] by simp
  with booked_run [OF keeps_authenticate assms(2,1)] assms(3) show ?thesis
    by (auto simp: on_behalf_def ledger_def intro: evolves_trans)
qed

lemma on_behalf_auth: "authenticate H D now rq s = (x, s1) \<Longrightarrow> bank_wf s \<Longrightarrow> on_behalf a s s1"
  using booked_on_behalf [OF keeps_authenticate] by blast

text \<open>Every protected route acts on behalf of the authenticated account.\<close>

lemma handler_on_behalf:
  assumes "bank_wf s" and "tables_apart rc"
  shows "create_account_authenticated auth q s = (r, s') \<Longrightarrow> on_behalf (authenticated_id auth) s s'"
    and "get_balance_authenticated auth b s = (r, s') \<Longrightarrow> on_behalf (authenticated_id auth) s s'"
    and "withdraw_authenticated R keys auth w s = (r1, s') \<Longrightarrow> on_behalf (authenticated_id auth) s s'"
    and "deposit_authenticated R keys rc now auth d s = (r2, s') \<Longrightarrow> on_behalf (authenticated_id auth) s s'"
proof -
  have same: "on_behalf x s s" for x using assms(1) by (simp add: on_behalf_def)
  show "create_account_authenticated auth q s = (r, s') \<Longrightarrow> on_behalf (authenticated_id auth) s s'"
    using same create_on_behalf [OF assms(1)]
    by (cases r) (auto simp: create_account_authenticated_def ensure_account_def bind_of_result map_err_op_eq
        split: if_splits)
  have "keeps (booked c h) (get_balance_authenticated auth b)" for c h
    unfolding get_balance_authenticated_def balance_response_def by (intro wp)
  then show "get_balance_authenticated auth b s = (r, s') \<Longrightarrow> on_behalf (authenticated_id auth) s s'"
    using booked_on_behalf [OF _ assms(1)] by blast
  have "keeps (booked c h) (withdraw_authenticated R keys auth w)" for c h
    unfolding withdraw_authenticated_def by (intro wp)
  then show "withdraw_authenticated R keys auth w s = (r1, s') \<Longrightarrow> on_behalf (authenticated_id auth) s s'"
    using booked_on_behalf [OF _ assms(1)] by blast
  have "keeps (booked c h) (deposit_authenticated R keys rc now auth d)" for c h
    unfolding deposit_authenticated_def by (intro wp keeps_deposit assms)
  then show "deposit_authenticated R keys rc now auth d s = (r2, s') \<Longrightarrow> on_behalf (authenticated_id auth) s s'"
    using booked_on_behalf [OF _ assms(1)] by blast
qed

text \<open>
  What an account keeps whatever is done for others: it is not created, no withdrawal is recorded
  for it and no deposit, and so its balance can only have changed by the refund of a withdrawal it
  had (a request id of another account's withdrawal resumes that withdrawal, and may roll it back).
\<close>

definition spared :: "string \<Rightarrow> 'x bank_db_scheme \<Rightarrow> 'x bank_db_scheme \<Rightarrow> bool" where
  "spared x h s \<longleftrightarrow>
     (map_of (accounts h) x = None \<longrightarrow> map_of (accounts s) x = None) \<and>
     (\<forall>r w. at_row r w s \<longrightarrow> ws_account_id w = x \<longrightarrow> (\<exists>w0. at_row r w0 h)) \<and>
     (\<forall>r d. map_of (deposits s) r = Some d \<longrightarrow> dp_account_id d = x \<longrightarrow> map_of (deposits h) r = Some d)"

lemma spared_simps [simp]:
  "spared x h (s\<lparr>faults := fs\<rparr>) = spared x h s" "spared x s s"
  by (simp_all add: spared_def)

lemma fault_free_spared [simp]: "fault_free (spared x h)"
  by (simp add: fault_free_def)

lemma spared_add_balance: "spared x h s \<Longrightarrow> add_balance a d s = Inr (n, s') \<Longrightarrow> spared x h s'"
  by (erule add_balance_cases) (auto simp: spared_def)

lemma spared_update:
  "(\<And>w. ws_account_id (g w) = ws_account_id w) \<Longrightarrow> spared x h s \<Longrightarrow>
   spared x h (s\<lparr>withdraw_states := snd (update_row r g (withdraw_states s))\<rparr>)"
  by (auto simp: spared_def select_update_row split: if_splits)

lemma keeps_spared_finalize: "keeps (spared x h) (finalize_withdraw R keys r a d bm)"
  unfolding finalize_withdraw_def compensate_def set_state_def
  by (intro wp fault_free_spared) (auto intro: spared_add_balance spared_update)

lemma keeps_spared_withdraw:
  assumes "wr_account_id req \<noteq> x"
  shows "keeps (spared x h) (withdraw R keys req)"
proof -
  have ins: "spared x h s'" if "spared x h s" "insert_withdrawal r w s = Inr (n, s')" "ws_account_id w \<noteq> x" for r w n s s'
    using that by (cases "map_of (withdraw_states s) r")
      (auto simp: spared_def insert_withdrawal_def insert_row_new insert_row_old map_add_def split: option.splits if_splits)
  have "keeps (spared x h) (load_record (wr_request_id req))"
    unfolding load_record_def by (intro wp fault_free_spared)
  moreover have "keeps (spared x h) (debit_and_record_pending req)"
    unfolding debit_and_record_pending_def bind_of_result [of "to_i64 (wr_denomination_cents req) ''denomination''"]
    by (intro wp fault_free_spared) (use assms in \<open>auto intro: spared_add_balance ins\<close>)
  moreover have "keeps (spared x h) (resume_withdraw R keys (wr_request_id req) rcd)" for rcd
    unfolding resume_withdraw_def set_state_def
    by (intro wp fault_free_spared keeps_spared_finalize) (auto intro: spared_update)
  ultimately show ?thesis
    unfolding withdraw_def by (intro wp keeps_spared_finalize)
qed

lemma keeps_spared_deposit:
  assumes "dr_account_id req \<noteq> x" and "leaves_bank rc"
  shows "keeps (spared x h) (deposit R keys rc now req)"
proof (rule keepsI)
  fix s r s'
  assume s: "spared x h s" and run: "deposit R keys rc now req s = (r, s')"
  have same: "spared x h u = spared x h t" if "same_bank t u" for t u
    using that by (simp add: spared_def same_bankD)
  have "spared x h (credited req s)"
    using s assms(1) by (auto simp: spared_def credited_def map_add_def split: option.splits)
  with deposit_run [OF assms(2) run] s same show "spared x h s'" by blast
qed

lemma keeps_spared_create:
  assumes "a \<noteq> x"
  shows "keeps (spared x h) (create_account a v)"
  unfolding create_account_def bind_of_result
  by (intro wp fault_free_spared) (use assms in \<open>auto simp: insert_account_def insert_row_def spared_def map_add_def
      split: if_splits option.splits prod.splits\<close>)

text \<open>With the books, that determines the balance.\<close>

definition left_alone :: "string \<Rightarrow> 'x bank_db_scheme \<Rightarrow> 'x bank_db_scheme \<Rightarrow> bool" where
  "left_alone x s s' \<longleftrightarrow> spared x s s' \<and>
     (map_of (accounts s') x = map_of (accounts s) x \<or>
      (\<exists>b b' r w w'. map_of (accounts s) x = Some b \<and> map_of (accounts s') x = Some b' \<and> b \<le> b' \<and>
         at_row r w s \<and> at_row r w' s' \<and> ws_account_id w = x \<and>
         ws_state w \<noteq> as_str Compensated \<and> ws_state w' = as_str Compensated))"

lemma spared_left_alone:
  assumes wf: "bank_wf s" "bank_wf s'" and ev: "evolves s s'" and sp: "spared x s s'"
    and money: "money s' (\<lambda>y. y = x) = money s (\<lambda>y. y = x)"
  shows "left_alone x s s'"
proof -
  let ?W = "fst ` set (withdraw_states s) \<union> fst ` set (withdraw_states s')"
  let ?E = "fst ` set (deposits s) \<union> fst ` set (deposits s')"
  let ?g = "\<lambda>t k. case map_of (withdraw_states t) k of None \<Rightarrow> 0 | Some w \<Rightarrow> if ws_account_id w = x then outstanding w else 0"
  let ?e = "\<lambda>t k. case map_of (deposits t) k of None \<Rightarrow> 0 | Some d \<Rightarrow> if dp_account_id d = x then dp_denomination_cents d else 0"
  let ?b = "\<lambda>t. case map_of (accounts t) x of None \<Rightarrow> 0 | Some b \<Rightarrow> b"
  let ?refund = "\<lambda>r. \<exists>w w'. at_row r w s \<and> at_row r w' s' \<and> ws_account_id w = x \<and>
    ws_state w \<noteq> as_str Compensated \<and> ws_state w' = as_str Compensated"
  have k: "keyed (accounts t)" "keyed (withdraw_states t)" "keyed (deposits t)" if "t = s \<or> t = s'" for t
    using wf that by (auto simp: wf_defs)
  have m: "money t (\<lambda>y. y = x) = ?b t + (\<Sum>r \<in> ?W. ?g t r) - (\<Sum>r \<in> ?E. ?e t r)" if "t = s \<or> t = s'" for t
  proof -
    have in_range: "finite ?W" "finite ?E" "fst ` set (withdraw_states t) \<subseteq> ?W" "fst ` set (deposits t) \<subseteq> ?E"
      using that by auto
    show ?thesis
      unfolding money_def sum_rows_key [OF k(1) [OF that]] sum_rows_keys [OF k(2) [OF that] in_range(1,3)]
        sum_rows_keys [OF k(3) [OF that] in_range(2,4)] by (rule refl)
  qed
  have e: "?e s' r = ?e s r" for r
  proof (cases "map_of (deposits s) r")
    case None
    with sp have "dp_account_id d \<noteq> x" if "map_of (deposits s') r = Some d" for d
      using that unfolding spared_def by (metis option.distinct(1))
    with None show ?thesis by (simp split: option.split)
  next
    case (Some d)
    with ev have "map_of (deposits s') r = Some d" unfolding evolves_def map_le_def by (metis domI)
    with Some show ?thesis by simp
  qed
  have g: "?g s' r \<le> ?g s r \<and> (\<not> ?refund r \<longrightarrow> ?g s' r = ?g s r)" for r
  proof (cases "map_of (withdraw_states s) r")
    case None
    with sp have "ws_account_id w' \<noteq> x" if "at_row r w' s'" for w'
      using that unfolding spared_def by (metis option.distinct(1))
    with None show ?thesis by (simp split: option.split)
  next
    case (Some w)
    with ev obtain w' where w': "at_row r w' s'" "row_evolves w w'" unfolding evolves_def by blast
    from wf_row [OF wf(1) Some] obtain st where ok: "0 \<le> ws_denomination_cents w" "ws_state w = as_str st"
      by (auto simp: withdrawal_ok_def)
    with w'(2) obtain st' where st': "ws_state w' = as_str st'" "st \<le> st'" by (auto simp: row_evolves_def)
    then have "st = Compensated \<Longrightarrow> st' = Compensated" by (auto simp: less_eq_WithdrawState_def)
    with Some w' ok st' show ?thesis by (auto simp: row_evolves_def outstanding_def)
  qed
  have dom: "map_of (accounts s') x = None \<longleftrightarrow> map_of (accounts s) x = None"
    using ev sp by (auto simp: evolves_def spared_def)
  have "?b s' - ?b s = (\<Sum>r \<in> ?W. ?g s r) - (\<Sum>r \<in> ?W. ?g s' r)"
    using money m [of s] m [of s'] e by simp
  moreover have "(\<Sum>r \<in> ?W. ?g s' r) \<le> (\<Sum>r \<in> ?W. ?g s r)" using g by (simp add: sum_mono)
  moreover have "(\<Sum>r \<in> ?W. ?g s' r) = (\<Sum>r \<in> ?W. ?g s r)" if "\<forall>r. \<not> ?refund r" using g that by simp
  ultimately show ?thesis
    unfolding left_alone_def using sp dom by (cases "\<exists>r. ?refund r") (auto split: option.splits)
qed


text \<open>
  What a request to the router comes to: it fails before any handler, it is the public list of
  denominations, the middleware turns it down, or a handler runs for the authenticated account.
\<close>

definition answers :: "('b \<Rightarrow> bank_reply) \<Rightarrow> ApiError + 'b \<Rightarrow> bank_failure + bank_reply \<Rightarrow> bool" where
  "answers wrap x r \<longleftrightarrow> r = (case x of Inl e \<Rightarrow> Inl (Failed e) | Inr b \<Rightarrow> Inr (wrap b))"

lemma answers_Inr: "answers wrap x (Inr reply) \<longleftrightarrow> (\<exists>b. x = Inr b \<and> reply = wrap b)"
  by (cases x) (auto simp: answers_def)

definition handled ::
  "('sk, 'pk, 'br) brsa \<Rightarrow> ('sk, 'pk) KeyStore \<Rightarrow> 'x bank_db_scheme submit option \<Rightarrow> u64 \<Rightarrow> AuthenticatedAccount
   \<Rightarrow> bank_failure + bank_reply \<Rightarrow> 'x bank_db_scheme \<Rightarrow> 'x bank_db_scheme \<Rightarrow> bool" where
  "handled R keys rc now auth r s s' \<longleftrightarrow>
     (\<exists>f. r = Inl f \<and> s' = s) \<or>
     (\<exists>q x. create_account_authenticated auth q s = (x, s') \<and> answers BalanceReply x r) \<or>
     (\<exists>a x. get_balance_authenticated auth a s = (x, s') \<and> answers BalanceReply x r) \<or>
     (\<exists>q x. withdraw_authenticated R keys auth q s = (x, s') \<and> answers WithdrawReply x r) \<or>
     (\<exists>q x. deposit_authenticated R keys rc now auth q s = (x, s') \<and> answers DepositReply x r)"

lemma handle_json_runs:
  assumes "handle_json wrap x handler s = (r, s')"
  shows "(\<exists>f. r = Inl f \<and> s' = s) \<or> (\<exists>q y. handler q s = (y, s') \<and> answers wrap y r)"
proof (cases x)
  case (Inl n)
  with assms show ?thesis by (auto simp: handle_json_def)
next
  case (Inr q)
  obtain y s1 where y: "handler q s = (y, s1)" by fastforce
  with Inr assms have "s' = s1 \<and> answers wrap y r"
    by (cases y) (auto simp: handle_json_def bind_op_def map_err_op_def answers_def)
  with y show ?thesis by blast
qed

lemma router_runs:
  assumes "authenticated_router X R H D keys rc now rq s = (r, s')"
  obtains (public) "s' = s" "\<And>reply. r = Inr reply \<Longrightarrow> \<exists>d. reply = DenominationsReply d"
  | (rejected) e where "authenticate H D now rq s = (Inl e, s')" "r = Inl (Rejected e)"
  | (handled) acc rq' s1 where "authenticate H D now rq s = (Inr (AuthenticatedAccount acc, rq'), s1)"
      "handled R keys rc now (AuthenticatedAccount acc) r s1 s'"
proof -
  let ?v = "verify_signed_request H D now rq"
  let ?ok = "\<lambda>h. \<forall>auth rq' t x t'. h auth rq' t = (x, t') \<longrightarrow> handled R keys rc now auth x t t'"
  have run: thesis if "?v h s = (r, s')" "?ok h" for h
  proof -
    obtain x s1 where auth: "authenticate H D now rq s = (x, s1)" by fastforce
    show thesis
    proof (cases x)
      case (Inl e)
      with auth that(1) show thesis
        by (intro rejected [of e]) (auto simp: verify_signed_request_def map_err_op_def bind_op_def)
    next
      case (Inr p)
      then obtain acc rq' where p: "x = Inr (AuthenticatedAccount acc, rq')" by (cases p, cases "fst p") auto
      with auth that(1) have "h (AuthenticatedAccount acc) rq' s1 = (r, s')"
        by (auto simp: verify_signed_request_def map_err_op_def bind_op_def)
      with that(2) auth p show thesis by (intro handled) blast+
    qed
  qed
  have ok: "?ok (\<lambda>auth rq'. handle_json BalanceReply (ex_create X rq') (create_account_authenticated auth))"
    "?ok (\<lambda>auth rq'. handle_json WithdrawReply (ex_withdraw X rq') (withdraw_authenticated R keys auth))"
    "?ok (\<lambda>auth rq'. handle_json DepositReply (ex_deposit X rq') (deposit_authenticated R keys rc now auth))"
    "?ok (\<lambda>auth rq'. handle_json BalanceReply (Inr a) (get_balance_authenticated auth))"
    "?ok (\<lambda>auth rq'. fail (Unrouted 405))" for a
    by (auto simp: handled_def dest!: handle_json_runs)
  note route = run [OF _ ok(1)] run [OF _ ok(2)] run [OF _ ok(3)] run [OF _ ok(4)] run [OF _ ok(5)]
  have list: "\<exists>d. reply = DenominationsReply d"
    if "map_err Failed (bind_result (denominations_handler R keys) (\<lambda>d. Inr (DenominationsReply d))) = Inr reply" for reply
    using that by (cases "denominations_handler R keys") (auto simp: map_err_def)
  from assms show thesis
    unfolding authenticated_router_def Let_def
    by (auto split: if_splits option.splits elim!: route intro!: public dest: list)
qed

text \<open>The handlers act on behalf of the account, and leave every other one alone.\<close>

lemma handled_on_behalf:
  assumes "bank_wf s" and "tables_apart rc" and "handled R keys rc now auth r s s'"
  shows "on_behalf (authenticated_id auth) s s'"
proof -
  have same: "on_behalf (authenticated_id auth) s s" using assms(1) by (simp add: on_behalf_def)
  show ?thesis
    using assms(3) unfolding handled_def
    by (elim disjE exE conjE) (simp add: same, (erule handler_on_behalf [OF assms(1,2)])+)
qed

lemma keeps_spared_mine:
  assumes "x \<noteq> authenticated_id auth" and "a \<noteq> x \<Longrightarrow> keeps (spared x h) m"
  shows "keeps (spared x h) (bind_op (of_result (ensure_account auth a)) (\<lambda>_. m))"
  using assms by (cases "authenticated_id auth = a") (auto simp: ensure_account_def bind_of_result intro: wp)

lemma handler_spared:
  assumes "x \<noteq> authenticated_id auth" and "leaves_bank rc"
  shows "keeps (spared x h) (create_account_authenticated auth q)"
    "keeps (spared x h) (get_balance_authenticated auth a)"
    "keeps (spared x h) (withdraw_authenticated R keys auth w)"
    "keeps (spared x h) (deposit_authenticated R keys rc now auth d)"
  unfolding create_account_authenticated_def get_balance_authenticated_def balance_response_def balance_def
    withdraw_authenticated_def deposit_authenticated_def
  by (rule keeps_spared_mine [OF assms(1)],
      intro wp fault_free_spared keeps_spared_create keeps_spared_withdraw keeps_spared_deposit assms(2), assumption?)+

lemma handled_spared:
  assumes "leaves_bank rc" and "handled R keys rc now auth r s s'" and "x \<noteq> authenticated_id auth"
  shows "spared x s s'"
  using assms(2) unfolding handled_def
  by (elim disjE exE conjE)
    (simp, (erule keepsD [OF handler_spared(1) [OF assms(3,1)] spared_simps(2)]
      keepsD [OF handler_spared(2) [OF assms(3,1)] spared_simps(2)]
      keepsD [OF handler_spared(3) [OF assms(3,1)] spared_simps(2)]
      keepsD [OF handler_spared(4) [OF assms(3,1)] spared_simps(2)])+)

lemma handled_balance_reply:
  assumes "handled R keys rc now auth (Inr (BalanceReply b)) s s'"
  shows "bal_account_id b = authenticated_id auth"
proof -
  have mine: "bal_account_id b = authenticated_id auth"
    if "create_account_authenticated auth q s = (Inr b, s') \<or> get_balance_authenticated auth a s = (Inr b, s')" for q a
    using that by (auto simp: create_account_authenticated_def get_balance_authenticated_def balance_response_def
      create_account_def ensure_account_def bind_op_Inr map_err_op_eq split: if_splits option.splits)
  from assms show ?thesis
    unfolding handled_def answers_Inr using mine by auto
qed

lemma router_effect:
  assumes "bank_wf s" and "tables_apart rc" and "authenticated_router X R H D keys rc now rq s = (r, s')"
  shows "ledger s' = ledger s \<and> bank_wf s' \<and> evolves s s' \<or>
    (\<exists>auth rq' s1. authenticate H D now rq s = (Inr (auth, rq'), s1) \<and> on_behalf (authenticated_id auth) s s')"
  using assms(3)
proof (cases rule: router_runs)
  case public
  with assms(1) show ?thesis by simp
next
  case (rejected e)
  have "ledger s' = ledger s"
    using keepsD [OF keeps_ledger_authenticate [where P = "\<lambda>l. l = ledger s"] _ rejected(1)] by simp
  with booked_run [OF keeps_authenticate assms(1) rejected(1)] show ?thesis by simp
next
  case (handled acc rq' s1)
  have "on_behalf acc s s'"
    using on_behalf_after_auth [OF handled(1) assms(1)] handled_on_behalf [OF _ assms(2) handled(2)] by simp
  with handled(1) show ?thesis by (metis AuthenticatedAccount.sel)
qed

section \<open>Properties\<close>

text \<open>
  C13: what an accepted request proves. If the middleware accepts a request as an account, then
  the account has a registered key, the timestamp is within 60 seconds of the bank's clock, and
  the 64-byte signature in the headers verifies, under that key, over the canonical payload of
  the very method, path, body, timestamp and nonce that are handed on, whatever the database does.
\<close>

theorem authenticate_sound:
  assumes "authenticate H D now rq s = (Inr (AuthenticatedAccount acc, rq'), s')"
  shows "\<exists>auth key pk sig body.
    from_lookup (rq_header rq) = Inr auth \<and> ah_account_id auth = acc \<and>
    map_of (identities s) acc = Some key \<and> identity_from_bytes D key = Inr pk \<and>
    \<bar>uint (ah_timestamp auth) - uint now\<bar> \<le> 60 \<and>
    hex_decode H (ah_signature auth) = Some sig \<and> length sig = 64 \<and>
    rq_body rq' = Some body \<and> rq_body rq = Some body \<and> length body \<le> 2 ^ 20 \<and>
    vk_verify D (pk_verifying pk)
      (str_bytes (canonical_payload H (rq_method rq') (rq_path rq') body (ah_timestamp auth) (ah_nonce auth))) sig = Inr ()"
  using assms
proof (rule authenticate_Inr)
  fix auth body pk sig s1
  assume b: "to_bytes (rq_body rq) MAX_BODY_BYTES = Some body" and a: "from_lookup (rq_header rq) = Inr auth"
    and i: "identity_pubkey D (ah_account_id auth) s = (Inr (Some pk), s1)"
    and w: "\<not> outside_window (ah_timestamp auth) now"
    and d: "hex_decode H (ah_signature auth) = Some sig" "length sig = IDENTITY_SIGNATURE_LEN"
    and v: "identity_verify D pk (str_bytes (canonical_payload H (rq_method rq) (rq_path rq) body
       (ah_timestamp auth) (ah_nonce auth))) sig = Inr ()"
    and out: "AuthenticatedAccount acc = AuthenticatedAccount (ah_account_id auth)" "rq' = rq\<lparr>rq_body := Some body\<rparr>"
  from b have "rq_body rq = Some body" "length body \<le> 2 ^ 20"
    by (auto simp: to_bytes_def MAX_BODY_BYTES_def split: option.splits if_splits)
  with identity_pubkey_Inr [OF i] a w d v out show ?thesis
    by (auto simp: within_window decode_signature_Inr identity_verify_def model_defs)
qed

text \<open>
  C14: replay protection. A request the bank accepted at time \<open>t\<close> is not accepted again at any
  \<open>t' \<ge> t\<close>, after any further service by a clock that has not passed \<open>t'\<close> and whatever the
  database does, except at one instant: when it was dated exactly 60 seconds ahead and comes back
  exactly 120 seconds later.
\<close>

theorem authenticate_replay:
  assumes "keyed (nonce_store s)" and "authenticate H D t rq s = (Inr x, s1)"
    and "served (authenticate H D) nonce_store (uint t') s1 s2" and "uint t \<le> uint t'"
    and "authenticate H D t' rq s2 = (Inr y, s3)" and "from_lookup (rq_header rq) = Inr auth"
  shows "uint t' = uint t + 120 \<and> uint (ah_timestamp auth) = uint t + 60"
  using assms unfolding authenticate_signed by (rule bank_auth.signed.replay)

text \<open>
  C15: authorisation. Whatever a request to the value router is and whatever the database does,
  either no table of the ledger changes and an answer, if there is one, is the public list of
  denominations; or the request was authenticated as some account. Then the database stays
  well-formed and no record is lost; no other account is opened, no withdrawal and no deposit is
  recorded for another account, and no other account's balance changes, except that a withdrawal
  it had already recorded may have been rolled back, which refunds it; the books of every set of
  other accounts are unchanged; and a balance is reported for the caller's account only. The
  registry client is any that leaves the bank's database alone.
\<close>

theorem router_acts_for_caller:
  assumes "bank_wf s" and "leaves_bank rc" and "authenticated_router X R H D keys rc now rq s = (r, s')"
  shows "ledger s' = ledger s \<and> (\<forall>reply. r = Inr reply \<longrightarrow> (\<exists>d. reply = DenominationsReply d)) \<or>
    (\<exists>acc rq' s1. authenticate H D now rq s = (Inr (AuthenticatedAccount acc, rq'), s1) \<and>
      bank_wf s' \<and> evolves s s' \<and> (\<forall>x. x \<noteq> acc \<longrightarrow> left_alone x s s') \<and>
      (\<forall>P. \<not> P acc \<longrightarrow> money s' P = money s P) \<and>
      (\<forall>b. r = Inr (BalanceReply b) \<longrightarrow> bal_account_id b = acc))"
  using assms(3)
proof (cases rule: router_runs)
  case (rejected e)
  with keepsD [OF keeps_ledger_authenticate [where P = "\<lambda>l. l = ledger s"] _ rejected(1)] show ?thesis by simp
next
  case (handled acc rq' s1)
  have b: "on_behalf acc s s'"
    using on_behalf_after_auth [OF handled(1) assms(1)]
      handled_on_behalf [OF _ leaves_bank_apart [OF assms(2)] handled(2)] by simp
  then have other: "\<forall>P. \<not> P acc \<longrightarrow> money s' P = money s P" by (auto simp: on_behalf_def credit_def)
  have "ledger s1 = ledger s"
    using keepsD [OF keeps_ledger_authenticate [where P = "\<lambda>l. l = ledger s"] _ handled(1)] by simp
  then have "spared x s s' = spared x s1 s'" for x by (simp add: ledger_def spared_def)
  then have "left_alone x s s'" if "x \<noteq> acc" for x
    using spared_left_alone [OF assms(1)] handled_spared [OF assms(2) handled(2)] b other that by (simp add: on_behalf_def)
  with handled b other handled_balance_reply show ?thesis by (fastforce simp: on_behalf_def)
qed simp

section \<open>The bank as a machine\<close>

text \<open>
  A bank serves requests and enrolments, one at a time, restarts with whatever keys and configuration
  it finds, and the database's behaviour may change at any moment. Requests served at the same time
  are the subject of \<open>Bank_Concurrent\<close>.
\<close>

inductive bank_step ::
  "('sk, 'pk, 'br) brsa \<Rightarrow> ('sgk, 'vk) ed25519 \<Rightarrow> 'x bank_db_scheme \<Rightarrow> 'x bank_db_scheme \<Rightarrow> bool"
  for R D where
  bank_request: "tables_apart rc \<Longrightarrow> authenticated_router X R H D keys rc now rq s = (r, s') \<Longrightarrow>
    bank_step R D s s'"
| bank_enrol: "register_account H D ca req s = (r, s') \<Longrightarrow> bank_step R D s s'"
| bank_restart: "connect R migrations pool loaded (rc :: BankError + unit option) now s = (r, s') \<Longrightarrow>
    bank_step R D s s'"
| bank_faults: "bank_step R D s (s\<lparr>faults := fs\<rparr>)"

definition fresh_bank :: "'x bank_db_scheme \<Rightarrow> bool" where
  "fresh_bank s \<longleftrightarrow> accounts s = [] \<and> identities s = [] \<and> spent_serials s = [] \<and> withdraw_states s = [] \<and>
     deposits s = [] \<and> nonce_store s = []"

text \<open>
  What one step may do: keep the tables well-formed and evolving, and leave the books of accounts
  that exist alone.
\<close>

definition books_kept :: "'x bank_db_scheme \<Rightarrow> 'x bank_db_scheme \<Rightarrow> bool" where
  "books_kept s s' \<longleftrightarrow> bank_wf s' \<and> evolves s s' \<and>
     (\<forall>P. (\<forall>a. P a \<longrightarrow> map_of (accounts s) a \<noteq> None) \<longrightarrow> money s' P = money s P)"

lemma books_kept_trans: "books_kept s t \<Longrightarrow> books_kept t u \<Longrightarrow> books_kept s u"
proof -
  assume st: "books_kept s t" and tu: "books_kept t u"
  have "\<forall>a. P a \<longrightarrow> map_of (accounts t) a \<noteq> None" if "\<forall>a. P a \<longrightarrow> map_of (accounts s) a \<noteq> None" for P
    using st that unfolding books_kept_def evolves_def by metis
  with st tu show "books_kept s u" unfolding books_kept_def by (metis evolves_trans)
qed

lemma booked_books_kept:
  assumes "\<And>c h. keeps (booked c h) m" and "bank_wf s" and "m s = (r, s')"
  shows "books_kept s s'"
  using booked_run [OF assms] by (simp add: books_kept_def)

lemma on_behalf_books_kept: "on_behalf a s s' \<Longrightarrow> books_kept s s'"
  by (auto simp: on_behalf_def books_kept_def credit_def)

lemma keeps_register_account [wp]: "keeps (booked c h) (register_account H D ca req)"
  unfolding register_account_def by (intro wp) (auto split: prod.splits intro: wp)

lemma bank_step_books:
  assumes "bank_step R D s s'" and "bank_wf s"
  shows "books_kept s s'"
  using assms
proof (cases rule: bank_step.cases)
  case (bank_request rc X H keys now rq r)
  from router_effect [OF assms(2) this] show ?thesis
  proof (elim disjE exE conjE)
    assume "ledger s' = ledger s" "bank_wf s'" "evolves s s'"
    then show ?thesis by (simp add: books_kept_def ledger_def money_def fun_eq_iff)
  qed (rule on_behalf_books_kept)
next
  case bank_enrol
  then show ?thesis using booked_books_kept [OF keeps_register_account assms(2)] by blast
next
  case bank_restart
  then show ?thesis using booked_books_kept [OF keeps_connect assms(2)] by blast
next
  case bank_faults
  then show ?thesis using assms(2) by (simp add: books_kept_def evolves_def)
qed

interpretation bank: machine fresh_bank "bank_step R D" bank_wf
  for R D
proof
  show "fresh_bank s \<Longrightarrow> bank_wf s" for s :: "'x bank_db_scheme"
    by (simp add: fresh_bank_def wf_defs)
  show "bank_wf s \<Longrightarrow> bank_step R D s t \<Longrightarrow> bank_wf t" for s t :: "'x bank_db_scheme"
    using bank_step_books by (auto simp: books_kept_def)
qed

lemma steps_books:
  assumes "bank_wf s" and "steps (bank_step R D) s t"
  shows "books_kept s t"
proof (rule bank.steps_mono [OF assms(2,1)])
  show "books_kept s s" using assms(1) by (simp add: books_kept_def)
  show "books_kept s v" if "bank_wf u" "bank_step R D u v" "books_kept s u" for u v
    using that bank_step_books books_kept_trans by blast
qed

text \<open>
  C1: the life of a bank that serves one request at a time. In every state a bank reaches from an
  empty database, over any sequence of requests, enrolments, restarts and faults, each completed or
  cut short by a fault before the next: the tables are well-formed, so every
  balance is a non-negative \<open>BIGINT\<close>; whatever happens later keeps every spent serial, deposit
  and identity; and the books of every set of existing accounts never change again, so what such
  accounts hold is always what they were opened with, less their withdrawals that were not
  refunded, plus their deposits. The real server interleaves requests: that withdrawals then keep
  the books, as long as signing does not fail, is C5 (\<open>concurrent_withdrawals_safe\<close>), and that two
  retries of a withdrawal whose signature fails can both refund it is \<open>double_refund\<close>. The registry
  client is any operation that keeps the books of the bank, as the bank's own does
  (\<open>client_tables_apart\<close> in \<open>Federation\<close>).
\<close>

theorem bank_life:
  assumes "fresh_bank s0" and "steps (bank_step R D) s0 s" and "steps (bank_step R D) s t"
  shows "bank_wf s \<and> evolves s t \<and>
    (\<forall>a b. map_of (accounts s) a = Some b \<longrightarrow> 0 \<le> b \<and> b \<le> i64_max) \<and>
    (\<forall>P. (\<forall>a. P a \<longrightarrow> map_of (accounts s) a \<noteq> None) \<longrightarrow> money t P = money s P)"
proof -
  have wf: "bank_wf s" using bank.reachable_inv [OF assms(1,2)] .
  with steps_books [OF wf assms(3)] show ?thesis by (simp add: books_kept_def wf_defs)
qed

text \<open>
  C2: no coin buys twice. In every state a bank reaches, two entries of the deposit index with
  the same scheme, denomination and serial are one entry: each coin has been credited to at most
  one account, once.
\<close>

theorem coin_credited_once:
  assumes "fresh_bank s0" and "steps (bank_step R D) s0 s"
    and "map_of (deposits s) r1 = Some d1" and "map_of (deposits s) r2 = Some d2"
    and "dp_scheme_id d1 = dp_scheme_id d2" and "dp_denomination_cents d1 = dp_denomination_cents d2"
    and "dp_serial_number d1 = dp_serial_number d2"
  shows "r1 = r2 \<and> d1 = d2"
proof -
  have wf: "bank_wf s" using bank.reachable_inv [OF assms(1,2)] .
  have "coin_key d1 = coin_key d2" using assms(5-7) by (simp add: coin_key_def)
  with wf_deposit [OF wf assms(3)] wf_deposit [OF wf assms(4)] have "r1 = r2" by simp
  with assms(3,4) show ?thesis by simp
qed

text \<open>
  C16: enrolment is first-wins. Once an account has a registered key, no request, enrolment or
  restart ever replaces it: the key any later request of that account is checked against is the
  one first registered.
\<close>

theorem identity_permanent:
  assumes "bank_wf s" and "map_of (identities s) acc = Some key" and "steps (bank_step R D) s t"
    and "authenticate H D now rq t = (Inr (AuthenticatedAccount acc, rq'), t')"
  shows "\<exists>pk auth sig. identity_from_bytes D key = Inr pk \<and> from_lookup (rq_header rq) = Inr auth \<and>
    identity_verify D pk (str_bytes (canonical_payload H (rq_method rq) (rq_path rq) (the (rq_body rq))
      (ah_timestamp auth) (ah_nonce auth))) sig = Inr ()"
proof -
  have "evolves s t" using steps_books [OF assms(1,3)] by (simp add: books_kept_def)
  with assms(2) have key: "map_of (identities t) acc = Some key"
    by (auto simp: evolves_def map_le_def dom_def)
  from assms(4) show ?thesis
  proof (rule authenticate_Inr)
    fix auth body pk sig s1
    assume b: "to_bytes (rq_body rq) MAX_BODY_BYTES = Some body" and a: "from_lookup (rq_header rq) = Inr auth"
      and i: "identity_pubkey D (ah_account_id auth) t = (Inr (Some pk), s1)"
      and v: "identity_verify D pk (str_bytes (canonical_payload H (rq_method rq) (rq_path rq) body
         (ah_timestamp auth) (ah_nonce auth))) sig = Inr ()"
      and acc: "AuthenticatedAccount acc = AuthenticatedAccount (ah_account_id auth)"
    from b have "rq_body rq = Some body" by (auto simp: to_bytes_def split: option.splits if_splits)
    moreover have "identity_from_bytes D key = Inr pk" using identity_pubkey_Inr [OF i] key acc by auto
    ultimately show ?thesis using a v by auto
  qed
qed

section \<open>Concrete runs\<close>

text \<open>Extractors with fixed bodies, and the bank that knows bob's key.\<close>

definition demo_extractors :: extractors where
  "demo_extractors =
     \<lparr>ex_balance_path = (\<lambda>_. None),
      ex_create = (\<lambda>_. Inr \<lparr>ca_account_id = ''bob'', initial_balance_cents = 5\<rparr>),
      ex_withdraw = (\<lambda>_. Inr (demo_withdraw [1, 2, 3, 4])),
      ex_deposit = (\<lambda>_. Inr (demo_deposit ''bob'' ''dep-1''))\<rparr>"

definition demo_ca :: ca_handle where
  "demo_ca = \<lparr>ca_issue = (\<lambda>a. Inr (''cert'', ''key'')), ca_pem = ''ca''\<rparr>"

definition demo_enrolled :: bank_db where
  "demo_enrolled = empty_bank\<lparr>identities := [(''bob'', replicate 31 0 @ [3])]\<rparr>"

definition demo_served :: "string \<Rightarrow> u64 \<Rightarrow> string \<Rightarrow> bank_db \<Rightarrow> bank_db" where
  "demo_served path now nonce s =
     snd (authenticated_router demo_extractors demo_brsa demo_digests demo_ed25519 demo_keys None now
       (demo_signed path now nonce [9]) s)"

lemma demo_accepts:
  assumes "faults s = []" and "map_of (identities s) ''bob'' = Some (replicate 31 0 @ [3])" and "n \<noteq> []"
    and "\<bar>uint ts - uint now\<bar> \<le> 60" and "uint now + 120 \<le> i64_max" and "nonce_ops s mod 1024 \<noteq> 1023"
    and "\<forall>e. map_of (nonce_store s) n = Some e \<longrightarrow> e \<le> uint now"
  shows "authenticate demo_digests demo_ed25519 now (demo_signed p ts n [9]) s =
    (Inr (AuthenticatedAccount ''bob'', demo_signed p ts n [9]),
     s\<lparr>nonce_store := snd (upsert_nonce n (uint now + 120) (uint now) (nonce_store s)),
       nonce_ops := nonce_ops s + 1\<rparr>)"
proof -
  have "vk_to_bytes demo_ed25519 (sgk_verifying_key demo_ed25519 3) = replicate 31 0 @ [3]"
    by (simp add: demo_ed25519_def)
  then have "authenticate demo_digests demo_ed25519 now (demo_signed p ts n [9]) s =
      (Inr (AuthenticatedAccount (ah_account_id (demo_headers p ts n [9])), demo_signed p ts n [9]),
       snd (check_and_record_nonce (ah_nonce (demo_headers p ts n [9])) now NONCE_TTL_SECS s))"
    using assms by (intro conjunct1 [OF authenticate_ok [where k = 3 and body = "[9]"]])
      (simp_all add: hex_laws_demo ed25519_laws_demo demo_from_lookup demo_headers_def)
  moreover have "snd (check_and_record_nonce n now NONCE_TTL_SECS s) =
      s\<lparr>nonce_store := snd (upsert_nonce n (uint now + 120) (uint now) (nonce_store s)),
        nonce_ops := nonce_ops s + 1\<rparr>"
    using check_nonce_exact [OF assms(1), of now NONCE_TTL_SECS n] assms(5,6) by (simp add: NONCE_TTL_SECS_def)
  ultimately show ?thesis by (simp add: demo_headers_def)
qed

lemma demo_enrolled_simps [simp]:
  "faults demo_enrolled = []" "identities demo_enrolled = [(''bob'', replicate 31 0 @ [3])]"
  "nonce_store demo_enrolled = []" "nonce_ops demo_enrolled = 0" "accounts demo_enrolled = []"
  "deposits demo_enrolled = []" "spent_serials demo_enrolled = []" "withdraw_states demo_enrolled = []"
  by (simp_all add: demo_enrolled_def empty_bank_def)

theorem authenticate_sound_witness:
  "\<exists>auth key. from_lookup (rq_header (demo_signed ''/withdraw'' 1060 ''n'' [9])) = Inr auth \<and>
     ah_account_id auth = ''bob'' \<and> map_of (identities demo_enrolled) ''bob'' = Some key \<and>
     \<bar>uint (ah_timestamp auth) - uint (1000 :: u64)\<bar> \<le> 60"
proof -
  note demo_accepts [of demo_enrolled "''n''" 1060 1000 "''/withdraw''"]
  then obtain rq' s' where "authenticate demo_digests demo_ed25519 1000 (demo_signed ''/withdraw'' 1060 ''n'' [9])
      demo_enrolled = (Inr (AuthenticatedAccount ''bob'', rq'), s')" by simp
  from authenticate_sound [OF this] show ?thesis by blast
qed

definition demo_after_first :: bank_db where
  "demo_after_first = demo_enrolled\<lparr>nonce_store := [(''n'', 1120)], nonce_ops := 1\<rparr>"

theorem authenticate_replay_witness:
  "\<exists>y s3. authenticate demo_digests demo_ed25519 1120 (demo_signed ''/withdraw'' 1060 ''n'' [9]) demo_after_first =
      (Inr y, s3) \<and> uint (1120 :: u64) = uint (1000 :: u64) + 120"
proof -
  have 1: "authenticate demo_digests demo_ed25519 1000 (demo_signed ''/withdraw'' 1060 ''n'' [9]) demo_enrolled =
      (Inr (AuthenticatedAccount ''bob'', demo_signed ''/withdraw'' 1060 ''n'' [9]), demo_after_first)"
    using demo_accepts [of demo_enrolled "''n''" 1060 1000 "''/withdraw''"]
    by (simp add: upsert_nonce_def insert_row_def demo_after_first_def)
  obtain s3 where 2: "authenticate demo_digests demo_ed25519 1120 (demo_signed ''/withdraw'' 1060 ''n'' [9]) demo_after_first =
      (Inr (AuthenticatedAccount ''bob'', demo_signed ''/withdraw'' 1060 ''n'' [9]), s3)"
    using demo_accepts [of demo_after_first "''n''" 1060 1120 "''/withdraw''"] by (simp add: demo_after_first_def)
  have hdr: "from_lookup (rq_header (demo_signed ''/withdraw'' 1060 ''n'' [9])) =
      Inr (demo_headers ''/withdraw'' 1060 ''n'' [9])" by (simp add: demo_from_lookup)
  have "keyed (nonce_store demo_enrolled)" by simp
  from authenticate_replay [OF this 1 served_refl _ 2 hdr] 2 show ?thesis by auto
qed

text \<open>Enrolment, account creation and a deposit, from an empty database.\<close>

definition demo_opened :: bank_db where
  "demo_opened = demo_enrolled\<lparr>nonce_store := [(''n1'', 1120)], nonce_ops := 1, accounts := [(''bob'', 5)]\<rparr>"

definition demo_credited :: bank_db where
  "demo_credited = credited (demo_deposit ''bob'' ''dep-1'')
     (demo_opened\<lparr>nonce_store := [(''n1'', 1120), (''n2'', 1121)], nonce_ops := 2\<rparr>)"

lemma demo_route:
  assumes "authenticate demo_digests demo_ed25519 now (demo_signed p ts n [9]) s =
      (Inr (AuthenticatedAccount ''bob'', demo_signed p ts n [9]), s1)"
  shows "verify_signed_request demo_digests demo_ed25519 now (demo_signed p ts n [9]) nxt s =
    nxt (AuthenticatedAccount ''bob'') (demo_signed p ts n [9]) s1"
  using assms by (simp add: verify_signed_request_def map_err_op_eq)

lemma demo_opens: "demo_served ''/accounts'' 1000 ''n1'' demo_enrolled = demo_opened"
proof -
  let ?s = "demo_enrolled\<lparr>nonce_store := [(''n1'', 1120)], nonce_ops := 1\<rparr>"
  have 1: "authenticate demo_digests demo_ed25519 1000 (demo_signed ''/accounts'' 1000 ''n1'' [9]) demo_enrolled =
      (Inr (AuthenticatedAccount ''bob'', demo_signed ''/accounts'' 1000 ''n1'' [9]), ?s)"
    using demo_accepts [of demo_enrolled "''n1''" 1000 1000 "''/accounts''"]
    by (simp add: upsert_nonce_def insert_row_def)
  have "create_account_authenticated (AuthenticatedAccount ''bob'')
      \<lparr>ca_account_id = ''bob'', initial_balance_cents = 5\<rparr> ?s =
      (Inr \<lparr>bal_account_id = ''bob'', balance_cents = 5\<rparr>, demo_opened)"
    by (simp add: create_account_authenticated_def ensure_account_def map_err_op_eq create_account_ok demo_opened_def)
  then show ?thesis
    by (simp add: demo_served_def authenticated_router_def Let_def demo_route [OF 1] handle_json_def
        demo_extractors_def map_err_op_eq)
qed

lemma demo_credits: "demo_served ''/deposit'' 1001 ''n2'' demo_opened = demo_credited"
proof -
  let ?s = "demo_opened\<lparr>nonce_store := [(''n1'', 1120), (''n2'', 1121)], nonce_ops := 2\<rparr>"
  have 1: "authenticate demo_digests demo_ed25519 1001 (demo_signed ''/deposit'' 1001 ''n2'' [9]) demo_opened =
      (Inr (AuthenticatedAccount ''bob'', demo_signed ''/deposit'' 1001 ''n2'' [9]), ?s)"
    using demo_accepts [of demo_opened "''n2''" 1001 1001 "''/deposit''"]
    by (simp add: upsert_nonce_def insert_row_def demo_opened_def)
  have "balances_ok ?s" by (auto simp: balances_ok_def demo_opened_def split: if_splits)
  then have "commit_deposit (demo_deposit ''bob'' ''dep-1'') ?s = (Inr DepositAccepted, demo_credited)"
    by (subst commit_deposit_ok) (simp_all add: outcome_of_def creditable_def demo_opened_def demo_credited_def)
  then have "deposit_authenticated demo_brsa demo_keys None 1001 (AuthenticatedAccount ''bob'')
      (demo_deposit ''bob'' ''dep-1'') ?s = (Inr accept, demo_credited)"
    by (simp add: deposit_authenticated_def ensure_account_def map_err_op_eq deposit_def ensure_supported_scheme_def
        demo_keys_def key_get_def model_defs verify_def serial_from_bytes_def demo_brsa_def)
  then show ?thesis
    by (simp add: demo_served_def authenticated_router_def Let_def demo_route [OF 1] handle_json_def
        demo_extractors_def map_err_op_eq)
qed

lemma demo_enrols_with:
  assumes "ca_issue ca ''bob'' = Inr (cert, key)"
  shows "register_account demo_digests demo_ed25519 ca
     \<lparr>reg_account_id = ''bob'', public_key_hex = hex_encode demo_digests (replicate 31 0 @ [3])\<rparr> empty_bank =
   (Inr \<lparr>client_cert_pem = cert, client_key_pem = key, ca_cert_pem = ca_pem ca\<rparr>, demo_enrolled)"
proof -
  have "hex_decode demo_digests (hex_encode demo_digests b) = Some b" for b
    using hex_laws_demo by (simp add: hex_laws_def)
  moreover have "register_identity demo_ed25519 ''bob'' (IdentityPublicKey 3) empty_bank = (Inr (), demo_enrolled)"
    by (simp add: register_identity_def insert_identity_def insert_row_def identity_to_bytes_def demo_ed25519_def
        demo_enrolled_def empty_bank_def)
  ultimately show ?thesis
    by (simp add: register_account_def assms identity_from_bytes_def demo_ed25519_def model_defs map_err_op_eq)
qed

lemmas demo_enrols = demo_enrols_with [of demo_ca "''cert''" "''key''", unfolded demo_ca_def ca_handle.simps, OF refl, folded demo_ca_def]

lemma demo_life:
  "fresh_bank empty_bank" "steps (bank_step demo_brsa demo_ed25519) empty_bank demo_enrolled"
  "steps (bank_step demo_brsa demo_ed25519) demo_enrolled demo_credited"
proof -
  show "fresh_bank empty_bank" by (simp add: fresh_bank_def empty_bank_def)
  have serve: "bank_step demo_brsa demo_ed25519 s (demo_served p now n s)" for p now n s
    unfolding demo_served_def by (rule bank_request [OF tables_apart_None prod.collapse [symmetric]])
  show "steps (bank_step demo_brsa demo_ed25519) empty_bank demo_enrolled"
    by (rule steps_step [OF steps_refl], rule bank_enrol [OF demo_enrols])
  show "steps (bank_step demo_brsa demo_ed25519) demo_enrolled demo_credited"
    unfolding demo_credits [symmetric] demo_opens [symmetric]
    by (rule steps_step, rule steps_step, rule steps_refl, rule serve, rule serve)
qed

text \<open>Bob's deposit was made as bob, and leaves alice's account alone.\<close>

theorem router_acts_for_caller_witness:
  "\<exists>acc rq' s1. authenticate demo_digests demo_ed25519 1001 (demo_signed ''/deposit'' 1001 ''n2'' [9]) demo_opened =
       (Inr (AuthenticatedAccount acc, rq'), s1) \<and> acc = ''bob'' \<and> left_alone ''alice'' demo_opened demo_credited"
proof -
  have wf: "bank_wf demo_opened" by (auto simp: wf_defs keyed_def demo_opened_def withdrawal_ok_def split: if_splits)
  have changed: "ledger demo_credited \<noteq> ledger demo_opened"
    by (simp add: ledger_def demo_credited_def demo_opened_def credited_def)
  have acc: "acc = ''bob''" if "authenticate demo_digests demo_ed25519 1001 (demo_signed ''/deposit'' 1001 ''n2'' [9]) demo_opened =
      (Inr (AuthenticatedAccount acc, rq'), s1)" for acc rq' s1
    using that demo_accepts [of demo_opened "''n2''" 1001 1001 "''/deposit''"] by (simp add: demo_opened_def)
  note run = demo_credits [unfolded demo_served_def]
  from router_acts_for_caller [OF wf leaves_bank_simps(1) prod.collapse [symmetric],
      of demo_extractors demo_brsa demo_digests demo_ed25519 demo_keys 1001 "demo_signed ''/deposit'' 1001 ''n2'' [9]"]
  show ?thesis unfolding run using changed acc by fastforce
qed

theorem bank_life_witness:
  "bank_wf demo_enrolled \<and> evolves demo_enrolled demo_credited"
  using bank_life [OF demo_life] by blast

theorem coin_credited_once_witness:
  "\<exists>d. map_of (deposits demo_credited) ''dep-1'' = Some d \<and> dp_account_id d = ''bob''"
proof -
  have d: "map_of (deposits demo_credited) ''dep-1'' = Some (deposit_row_of (demo_deposit ''bob'' ''dep-1''))"
    by (simp add: demo_credited_def credited_def demo_opened_def)
  from coin_credited_once [OF demo_life(1) steps_trans [OF demo_life(3,2)] d d] d show ?thesis by simp
qed

theorem identity_permanent_witness:
  "\<exists>pk. identity_from_bytes demo_ed25519 (replicate 31 0 @ [3]) = Inr pk"
proof -
  have key: "map_of (identities demo_enrolled) ''bob'' = Some (replicate 31 0 @ [3])" by simp
  have wf: "bank_wf demo_enrolled" using bank.reachable_inv [OF demo_life(1,2)] .
  obtain rq' s' where "authenticate demo_digests demo_ed25519 1000 (demo_signed ''/withdraw'' 1060 ''n'' [9])
      demo_enrolled = (Inr (AuthenticatedAccount ''bob'', rq'), s')"
    using demo_accepts [of demo_enrolled "''n''" 1060 1000 "''/withdraw''"] by simp
  from identity_permanent [OF wf key steps_refl this] show ?thesis by blast
qed

end
