(* ===== verification/Wallet_Bank.thy ===== *)
theory Wallet_Bank
  imports Wallet_Ops Bank_Api
begin

text \<open>
  The wallet and the bank together: what a wallet signs, the bank accepts, and what a wallet
  withdrew, the bank credits. Both sides are the models of the two crates; between them stands only
  what the connection delivers, stated as hypotheses on the request that arrives.
\<close>

section \<open>Enrolment and signed requests\<close>

text \<open>A successful enrolment has recorded the key that was sent.\<close>

lemma register_account_Inr:
  assumes "hex_laws H" and "ed25519_laws D"
    and "register_account H D ca \<lparr>reg_account_id = a, public_key_hex = hex_encode H (identity_to_bytes D pk)\<rparr> s = (Inr resp, s')"
  shows "map_of (identities s') a = Some (identity_to_bytes D pk)"
proof -
  have hex: "hex_decode H (hex_encode H b) = Some b" for b using assms(1) by (simp add: hex_laws_def)
  have key: "identity_from_bytes D (identity_to_bytes D pk) = Inr pk"
    using assms(2) by (cases pk) (simp add: ed25519_laws_def identity_from_bytes_def identity_to_bytes_def)
  have "length (identity_to_bytes D pk) = IDENTITY_PUBLIC_KEY_LEN"
    using assms(2) by (simp add: ed25519_laws_def identity_to_bytes_def model_defs)
  with assms(3) hex key obtain s1 where reg: "register_identity D a pk s = (Inr (), s1)" and "s' = s1"
    by (auto simp: register_account_def bind_op_Inr map_err_op_eq split: prod.splits)
  from reg obtain s2 n where "n \<noteq> 0" and ins: "execute Db (insert_identity a (identity_to_bytes D pk)) s2 = (Inr n, s1)"
    by (auto simp: register_identity_def bind_op_Inr split: if_splits)
  from execute_Inr [OF ins] obtain fs where "insert_identity a (identity_to_bytes D pk) (s2\<lparr>faults := fs\<rparr>) = Inr (n, s1)" ..
  with \<open>n \<noteq> 0\<close> \<open>s' = s1\<close> show ?thesis
    by (auto simp: insert_identity_def insert_row_def map_add_def image_iff split: if_splits option.splits
        dest!: map_of_SomeD) force
qed

text \<open>What the signature headers of a request say.\<close>

lemma sign_Inr:
  assumes "sign P H D client mthd path body w = (Inr auth, w')"
  obtains ts b w1 w2 where "os_now P w = (Inr ts, w1)" "os_random P 16 w1 = (Inr b, w2)" "w' = w2"
    "auth = \<lparr>sa_timestamp = u64_to_string ts, sa_nonce = hex_encode H b,
       sa_signature = hex_encode H (identity_sign D (bc_keypair client)
         (str_bytes (canonical_payload H mthd path body ts (hex_encode H b))))\<rparr>"
  using assms by (auto simp: sign_def now_unix_def random_nonce_def Let_def bind_op_Inr map_err_op_eq)

text \<open>The request arrives as it was sent.\<close>

definition arrives :: "string \<Rightarrow> string \<Rightarrow> bytes \<Rightarrow> string \<Rightarrow> SignedAuth \<Rightarrow> http_request \<Rightarrow> bool" where
  "arrives mthd path body account_id auth rq \<longleftrightarrow>
     rq_method rq = mthd \<and> rq_path rq = path \<and> rq_body rq = Some body \<and>
     (\<forall>(h, v) \<in> set (auth_pairs account_id auth). rq_header rq h = Some v)"

text \<open>
  C37: An enrolled wallet is served. Once the bank has registered the wallet's public key, then
  after any requests, restarts and faults, a request the wallet signs with the key restored from its
  stored secret, which arrives as sent with a body of at most a megabyte, within the time window and with
  a nonce that is not in use, passes the bank's authentication as that account and changes nothing
  but the nonces.
\<close>

theorem enrolled_wallet_accepted:
  assumes laws: "hex_laws H" "ed25519_laws D" "\<forall>k. sgk_from_bytes D (sgk_to_bytes D k) = k"
      "\<forall>w b w'. os_random P 16 w = (Inr b, w') \<longrightarrow> length b = 16"
    and enrol: "bank_wf s0" "register_account H D ca \<lparr>reg_account_id = account_id,
        public_key_hex = hex_encode H (identity_to_bytes D (identity_public_key D kp))\<rparr> s0 = (Inr resp, s1)"
      "steps (bank_step R D) s1 s"
    and client: "bc_account_id client = account_id" "account_id \<noteq> []"
      "bc_keypair client = identity_from_secret_bytes D (identity_secret_bytes D kp)"
    and sent: "os_now P w = (Inr ts, w1)" "sign P H D client mthd path body w = (Inr auth, w')"
    and arrived: "arrives mthd path body account_id auth rq" "length body \<le> 2 ^ 20"
    and bank: "faults s = []" "\<bar>uint ts - uint now\<bar> \<le> 60" "uint now + 120 \<le> i64_max"
      "\<forall>e. map_of (nonce_store s) (sa_nonce auth) = Some e \<longrightarrow> e \<le> uint now"
  shows "\<exists>s'. authenticate H D now rq s = (Inr (AuthenticatedAccount account_id, rq), s') \<and> ledger s' = ledger s"
proof -
  have kp: "bc_keypair client = kp"
    using client(3) laws(3) by (cases kp) (simp add: identity_from_secret_bytes_def identity_secret_bytes_def)
  have "map_of (identities s1) account_id = Some (identity_to_bytes D (identity_public_key D kp))"
    using register_account_Inr [OF laws(1,2) enrol(2)] .
  moreover have wf1: "bank_wf s1"
    using bank_step_books [OF bank_enrol [OF enrol(2)] enrol(1)] by (simp add: books_kept_def)
  then have "evolves s1 s" using steps_books [OF _ enrol(3)] by (simp add: books_kept_def)
  ultimately have key: "map_of (identities s) account_id = Some (vk_to_bytes D (sgk_verifying_key D (kp_signing kp)))"
    by (auto simp: evolves_def map_le_def dom_def identity_to_bytes_def identity_public_key_def)
  from sent(2) obtain ts' b w2 w3 where "os_now P w = (Inr ts', w2)" and b: "os_random P 16 w2 = (Inr b, w3)"
    and auth: "auth = \<lparr>sa_timestamp = u64_to_string ts', sa_nonce = hex_encode H b,
       sa_signature = hex_encode H (identity_sign D kp (str_bytes (canonical_payload H mthd path body ts' (hex_encode H b))))\<rparr>"
    by (rule sign_Inr) (use kp in auto)
  with sent(1) have ts: "ts' = ts" by simp
  let ?sig = "hex_encode H (identity_sign D kp (str_bytes (canonical_payload H mthd path body ts (hex_encode H b))))"
  let ?auth = "\<lparr>ah_account_id = account_id, ah_timestamp = ts, ah_nonce = hex_encode H b, ah_signature = ?sig\<rparr>"
  have len: "length (hex_encode H x) = 2 * length x" for x using laws(1) by (simp add: hex_laws_def)
  have "length b = 16" using laws(4) b by blast
  then have "hex_encode H b \<noteq> []" using len [of b] by (metis length_0_conv mult_eq_0_iff zero_neq_numeral)
  moreover have "length (identity_sign D kp m) = 64" for m using laws(2) by (simp add: ed25519_laws_def identity_sign_def)
  then have "?sig \<noteq> []" using len by (metis length_0_conv mult_eq_0_iff zero_neq_numeral)
  ultimately have hdr: "from_lookup (rq_header rq) = Inr ?auth"
    using arrived(1) client(2) by (simp add: from_lookup_Inr arrives_def auth_pairs_def auth ts)
  have ok: "authenticate H D now rq s = (Inr (AuthenticatedAccount (ah_account_id ?auth), rq),
      snd (check_and_record_nonce (ah_nonce ?auth) now NONCE_TTL_SECS s)) \<and>
    faults (snd (check_and_record_nonce (ah_nonce ?auth) now NONCE_TTL_SECS s)) = [] \<and>
    ledger (snd (check_and_record_nonce (ah_nonce ?auth) now NONCE_TTL_SECS s)) = ledger s"
    by (rule authenticate_ok [where k = "kp_signing kp" and body = body, OF bank(1) laws(1,2) _ arrived(2) hdr])
      (use arrived(1) key bank auth ts in \<open>simp_all add: arrives_def identity_sign_def\<close>)
  then show ?thesis by simp
qed

section \<open>Withdrawn coins are good\<close>

text \<open>The SPKI codec of public keys: what was encoded decodes to the same key.\<close>

definition spki_laws :: "('sk, 'pk, 'br) brsa \<Rightarrow> bool" where
  "spki_laws R \<longleftrightarrow> (\<forall>pk b. brsa_to_spki R pk = Inr b \<longrightarrow> brsa_from_spki R b = Inr pk)"

text \<open>The wallet reads from a published list exactly the bank's keys of the scheme.\<close>

lemma parse_published:
  assumes "spki_laws R" and "publish_keys R (public_keys ks) = Inr list" and "parse_keys R list m = Inr keys"
    and "keys d = Some pk" and "distinct (map fst ks)"
  shows "(\<exists>kp. map_of ks (d, SCHEME_ID_RSA_DETERMINISTIC) = Some kp \<and> kp_pk kp = pk) \<or>
    m d = Some pk \<and> map_of ks (d, SCHEME_ID_RSA_DETERMINISTIC) = None"
  using assms(2-5)
proof (induction ks arbitrary: list m)
  case (Cons e ks)
  obtain d' sc kp where e: "e = ((d', sc), kp)" by (metis surj_pair)
  from Cons.prems(1) e obtain spki rest where spki: "brsa_to_spki R (kp_pk kp) = Inr spki"
    and rest: "publish_keys R (public_keys ks) = Inr rest"
    and list: "list = \<lparr>dk_denomination_cents = d', dk_scheme_id = sc, public_key_spki = spki\<rparr> # rest"
    by (auto simp: public_keys_def bind_result_Inr)
  have dec: "brsa_from_spki R spki = Inr (kp_pk kp)" using assms(1) spki by (simp add: spki_laws_def)
  let ?m = "if sc = SCHEME_ID_RSA_DETERMINISTIC then m(d' \<mapsto> kp_pk kp) else m"
  have "parse_keys R rest ?m = Inr keys" using Cons.prems(2) list dec by (auto split: if_splits)
  from Cons.IH [OF rest this Cons.prems(3)] Cons.prems(4) e
  have IH: "(\<exists>kp. map_of ks (d, SCHEME_ID_RSA_DETERMINISTIC) = Some kp \<and> kp_pk kp = pk) \<or>
    ?m d = Some pk \<and> map_of ks (d, SCHEME_ID_RSA_DETERMINISTIC) = None" by simp
  have "map_of ks (d', sc) = None" using Cons.prems(4) e by (simp add: map_of_eq_None_iff)
  with IH e show ?case by (auto split: if_splits)
qed (simp add: public_keys_def)

lemma deposit_genuine:
  assumes "faults s = []" and "bank_wf s" and "scheme_id coin = SCHEME_ID_RSA_DETERMINISTIC"
    and "key_get keys (denomination_cents coin) SCHEME_ID_RSA_DETERMINISTIC = Some kp"
    and "verify R (kp_pk kp) (Serial (serial_number coin)) (signature coin) = Inr ()"
    and "creditable \<lparr>dr_coin = coin, dr_account_id = a, dr_request_id = rid\<rparr> s"
  shows "deposit R keys None now \<lparr>dr_coin = coin, dr_account_id = a, dr_request_id = rid\<rparr> s =
    (Inr accept, credited \<lparr>dr_coin = coin, dr_account_id = a, dr_request_id = rid\<rparr> s)"
proof -
  let ?req = "\<lparr>dr_coin = coin, dr_account_id = a, dr_request_id = rid\<rparr>"
  have bal: "balances_ok s" using assms(2) by (simp add: wf_defs)
  from assms(6) have "outcome_of ?req s = DepositAccepted" "\<not> i64_max < uint (denomination_cents coin)"
    by (auto simp: outcome_of_def creditable_def)
  then have "commit_deposit ?req s = (Inr DepositAccepted, credited ?req s)"
    using commit_deposit_ok [OF assms(1) bal, of ?req] assms(6) by simp
  with assms(3-5) show ?thesis
    by (simp add: deposit_def Let_def ensure_supported_scheme_def serial_from_bytes_def)
qed

text \<open>
  C36: What a wallet withdraws, the bank credits. If the keys the wallet fetched are the ones the
  bank publishes, then every coin a withdrawal returns is accepted when it is first deposited, at a
  bank whose database answers and which has no registry or whose registry accepts the coin: its
  serial not yet spent, the request id new, the account existing with room for the amount. The
  account is credited with exactly the coin's denomination. A registry that answers with a double
  spend or a reached exposure cap has the coin rejected.
\<close>

theorem withdrawn_coin_credited:
  assumes wallet: "machine_laws E ct fl" "coins_wf (we_json E) (ct w)"
      "wallet_withdraw E wallet amount w = (Inr coins, w')" "coin \<in> set coins"
    and published: "spki_laws (we_rsa E)" "distinct (map fst keys)"
      "\<forall>client w1 resp w2. client_denominations (we_os E) (we_wire E) (we_hex E) (we_ed E) client w1 = (Inr resp, w2) \<longrightarrow>
         denominations_handler (we_rsa E) keys = Inr resp"
    and bank: "faults s = []" "bank_wf s" "map_of (deposits s) rid = None"
      "map_of (spent_serials s) (uint (scheme_id coin), uint (denomination_cents coin), serial_number coin) = None"
      "map_of (accounts s) a = Some bal" "bal + uint (denomination_cents coin) \<le> i64_max"
    and registry: "leaves_bank rc" "rc = None \<or> (\<exists>ask s1. rc = Some ask \<and>
      ask (denomination_cents coin) (scheme_id coin) (serial_number coin) now s = (Inr SerialAccepted, s1))"
  shows "\<exists>s'. deposit (we_rsa E) keys rc now \<lparr>dr_coin = coin, dr_account_id = a, dr_request_id = rid\<rparr> s = (Inr accept, s') \<and>
    map_of (accounts s') a = Some (bal + uint (denomination_cents coin))"
proof -
  let ?req = "\<lparr>dr_coin = coin, dr_account_id = a, dr_request_id = rid\<rparr>"
  obtain pks where f: "fetched E wallet w pks" and g: "genuine (we_rsa E) pks (denomination_cents coin) coin"
    using withdraw_genuine [OF wallet(1-3)] wallet(4) by auto
  from f obtain client w1 w2 resp where resp:
      "client_denominations (we_os E) (we_wire E) (we_hex E) (we_ed E) client w1 = (Inr resp, w2)"
      "parse_keys (we_rsa E) (denominations resp) Map.empty = Inr pks"
    by (auto simp: fetched_def bank_public_keys_def bind_op_Inr)
  with published(3) have "publish_keys (we_rsa E) (public_keys keys) = Inr (denominations resp)"
    by (fastforce simp: denominations_handler_def published_keys_def bind_result_Inr)
  from g obtain pk where pk: "pks (denomination_cents coin) = Some pk"
      "verify (we_rsa E) pk (Serial (serial_number coin)) (signature coin) = Inr ()"
    and sc: "scheme_id coin = SCHEME_ID_RSA_DETERMINISTIC" by (auto simp: genuine_def)
  from parse_published [OF published(1) \<open>publish_keys _ _ = _\<close> resp(2) pk(1) published(2)]
  obtain kp where kp: "key_get keys (denomination_cents coin) SCHEME_ID_RSA_DETERMINISTIC = Some kp" "kp_pk kp = pk"
    by (auto simp: key_get_def)
  have verified: "verify (we_rsa E) (kp_pk kp) (Serial (serial_number coin)) (signature coin) = Inr ()" using pk(2) kp(2) by simp
  obtain s1 where s1: "bank_db.truncate s1 = bank_db.truncate s"
    and run: "deposit (we_rsa E) keys rc now ?req s = deposit (we_rsa E) keys None now ?req s1"
    using registry sc kp(1) verified unfolding leaves_bank_def
    by (elim disjE exE conjE) (auto simp: deposit_def Let_def ensure_supported_scheme_def serial_from_bytes_def, metis snd_conv)
  note tabs = truncate_tables [OF s1] truncate_books(1) [OF s1]
  have "0 \<le> bal" using bank(2,5) by (auto simp: wf_defs)
  then have cr: "creditable ?req s1"
    using bank(3-6) by (simp add: creditable_def coin_key_def deposit_row_of_def tabs)
  have "map_of (accounts (credited ?req s1)) a = Some (bal + uint (denomination_cents coin))"
    using bank(5) by (simp add: credited_def select_update_row tabs)
  with deposit_genuine [OF _ _ sc kp(1) _ cr] verified bank(1,2) tabs run show ?thesis by auto
qed

section \<open>Concrete runs\<close>

definition demo_client :: "(u8, unit) BankClient" where
  "demo_client = \<lparr>bc_base_url = ''https://bank'', bc_account_id = ''bob'',
     bc_keypair = identity_from_secret_bytes demo_ed25519 (identity_secret_bytes demo_ed25519 (IdentityKeypair 3)),
     bc_agent = ()\<rparr>"

definition demo_auth :: SignedAuth where
  "demo_auth = projr (fst (sign demo_platform demo_digests demo_ed25519 demo_client ''POST'' ''/withdraw'' [9] demo_registered))"

definition demo_arrived :: http_request where
  "demo_arrived = \<lparr>rq_method = ''POST'', rq_path = ''/withdraw'', rq_header = map_of (auth_pairs ''bob'' demo_auth),
     rq_body = Some [9]\<rparr>"

theorem enrolled_wallet_accepted_witness:
  "\<exists>s'. authenticate demo_digests demo_ed25519 1010 demo_arrived demo_enrolled =
     (Inr (AuthenticatedAccount ''bob'', demo_arrived), s') \<and> ledger s' = ledger demo_enrolled"
proof -
  let ?kp = "IdentityKeypair 3 :: u8 IdentityKeypair"
  have pub: "identity_to_bytes demo_ed25519 (identity_public_key demo_ed25519 ?kp) = replicate 31 0 @ [3]"
    by (simp add: identity_to_bytes_def identity_public_key_def demo_ed25519_def)
  have laws: "\<forall>k. sgk_from_bytes demo_ed25519 (sgk_to_bytes demo_ed25519 k) = k"
    "\<forall>w b w'. os_random demo_platform 16 w = (Inr b, w') \<longrightarrow> length b = 16"
    by (auto simp: demo_ed25519_def demo_platform_def)
  have sent: "os_now demo_platform demo_registered = (Inr 1000, demo_registered)"
    "sign demo_platform demo_digests demo_ed25519 demo_client ''POST'' ''/withdraw'' [9] demo_registered = (Inr demo_auth, demo_registered)"
    by (simp_all add: demo_auth_def demo_platform_def sign_def now_unix_def random_nonce_def Let_def map_err_op_def)
  have arrived: "arrives ''POST'' ''/withdraw'' [9] ''bob'' demo_auth demo_arrived"
    by (simp add: arrives_def demo_arrived_def auth_pairs_def headers_distinct [symmetric])
  have client: "bc_account_id demo_client = ''bob''" "''bob'' \<noteq> []"
    "bc_keypair demo_client = identity_from_secret_bytes demo_ed25519 (identity_secret_bytes demo_ed25519 ?kp)"
    by (simp_all add: demo_client_def)
  have "bank_wf empty_bank" using bank.start_inv [OF demo_life(1)] .
  from enrolled_wallet_accepted [OF hex_laws_demo ed25519_laws_demo laws this demo_enrols [folded pub] steps_refl
      client sent arrived, of 1010]
  show ?thesis by simp
qed

definition demo_key_list :: "(u8, u8) KeyStore" where
  "demo_key_list = map (\<lambda>d. ((d, 0), \<lparr>kp_pk = 5, kp_sk = 5\<rparr>)) DENOMINATIONS"

theorem withdrawn_coin_credited_witness:
  "\<exists>s'. deposit demo_brsa demo_key_list (Some (\<lambda>d sc n t. ret SerialAccepted)) 0 \<lparr>dr_coin = demo_withdrawn, dr_account_id = ''bob'', dr_request_id = ''r''\<rparr>
      (demo_bank []) = (Inr accept, s') \<and> map_of (accounts s') ''bob'' = Some (5 + 64)"
proof -
  have run: "wallet_withdraw demo_env (Wallet ''https://bank'') 64 demo_registered = (Inr [demo_withdrawn], demo_holding)"
    unfolding demo_holding_def using demo_withdraws by (metis prod.collapse)
  have wf: "coins_wf (we_json demo_env) (demo_trees demo_registered)" by (simp add: demo_registered_wf)
  have spki: "spki_laws (we_rsa demo_env)" by (simp add: spki_laws_def demo_env_def demo_brsa_def)
  have dist: "distinct (map fst demo_key_list)" by (simp add: demo_key_list_def DENOMINATIONS_def)
  have "denominations_handler (we_rsa demo_env) demo_key_list = Inr (projr (denominations_from_json demo_wire []))" by code_simp
  moreover have "denominations_from_json demo_wire [] = Inr (projr (denominations_from_json demo_wire []))"
    by (simp add: demo_wire_def)
  ultimately have pub: "denominations_from_json demo_wire [] = Inr resp \<longrightarrow>
      denominations_handler (we_rsa demo_env) demo_key_list = Inr resp" for resp by auto
  have same: "denominations_from_json demo_wire b = denominations_from_json demo_wire []" for b
    by (simp add: demo_wire_def)
  have fetch: "\<forall>client w1 resp w2. client_denominations (we_os demo_env) (we_wire demo_env) (we_hex demo_env) (we_ed demo_env) client w1 =
      (Inr resp, w2) \<longrightarrow> denominations_handler (we_rsa demo_env) demo_key_list = Inr resp"
    using pub same by (auto simp: client_denominations_def signed_get_def Let_def bind_op_Inr map_err_op_eq demo_env_def) metis
  show ?thesis
    using withdrawn_coin_credited [OF machine_laws_demo wf run _ spki dist fetch, of demo_withdrawn "demo_bank []" "''r''" "''bob''" 5
      "Some (\<lambda>d sc n t. ret SerialAccepted)" 0]
    by (simp add: demo_bank_wf demo_withdrawn_def) (simp add: demo_env_def)
qed

end
