(* ===== verification/Wallet_Cli.thy ===== *)
theory Wallet_Cli
  imports Wallet_Ops
begin

text \<open>
  The wallet's command line (\<open>cli.rs\<close>, \<open>lib.rs\<close>, \<open>main.rs\<close>): the commands, their dispatch to the
  operations of \<open>Wallet_Ops\<close>, and the exit code. Parsing the arguments is generated code; the
  environment variables and the two output streams are arguments.
\<close>

section \<open>Commands (\<open>cli.rs\<close>)\<close>

datatype AccountAction = Create string u64

datatype Command =
    Account AccountAction
  | Balance
  | Withdraw u64
  | Spend u64 string
  | Deposit string

section \<open>Dispatch (\<open>lib.rs\<close>)\<close>

definition DEFAULT_BANK_URL :: string where "DEFAULT_BANK_URL = ''https://127.0.0.1:3000''"
definition DEFAULT_ENROLL_URL :: string where "DEFAULT_ENROLL_URL = ''https://127.0.0.1:3001''"
definition DEFAULT_STORE_PATH :: string where "DEFAULT_STORE_PATH = ''digicash-wallet-store''"

definition env_or :: "(string \<Rightarrow> string option) \<Rightarrow> string \<Rightarrow> string \<Rightarrow> string" where
  "env_or env name fallback = (case env name of Some v \<Rightarrow> v | None \<Rightarrow> fallback)"

text \<open>\<open>std::fs::read_to_string\<close>: the file's bytes, which must be UTF-8.\<close>

definition read_to_string :: "('cfg, 'w) platform \<Rightarrow> string \<Rightarrow> ('w, string, string) op" where
  "read_to_string P path =
     bind_op (file_read P path) (\<lambda>b. of_result (ok_or ''stream did not contain valid UTF-8'' (from_utf8 b)))"

text \<open>The derived \<open>Debug\<close> text of a rejection.\<close>

fun debug_rejection :: "DepositRejection \<Rightarrow> string" where
  "debug_rejection DoubleSpend = ''DoubleSpend''"
| "debug_rejection InvalidSignature = ''InvalidSignature''"
| "debug_rejection UnknownDenomination = ''UnknownDenomination''"
| "debug_rejection UnknownScheme = ''UnknownScheme''"
| "debug_rejection UnknownAccount = ''UnknownAccount''"
| "debug_rejection RequestIdReuse = ''RequestIdReuse''"
| "debug_rejection RegistryDoubleSpend = ''RegistryDoubleSpend''"
| "debug_rejection ExposureCapExceeded = ''ExposureCapExceeded''"

fun debug_reason :: "DepositRejection option \<Rightarrow> string" where
  "debug_reason None = ''None''"
| "debug_reason (Some r) = ''Some('' @ debug_rejection r @ '')''"

text \<open>
  The report on a deposit: one line per coin and the running total. \<open>out\<close> writes a line to the standard
  output.
\<close>

definition deposit_line :: "WalletDepositOutcome \<Rightarrow> string" where
  "deposit_line outcome =
     (if do_accepted outcome then ''accepted '' @ u64_to_string (do_denomination_cents outcome) @ '' cents''
      else ''rejected '' @ u64_to_string (do_denomination_cents outcome) @ '' cents: '' @ debug_reason (do_reason outcome))"

fun report_deposit :: "(string \<Rightarrow> ('w, string, unit) op) \<Rightarrow> u64 \<Rightarrow> WalletDepositOutcome list \<Rightarrow> ('w, WalletError, u64) op" where
  "report_deposit out credited [] = ret credited"
| "report_deposit out credited (outcome # outcomes) =
     (let credited' = (if do_accepted outcome then u64_saturating_add credited (do_denomination_cents outcome) else credited) in
      bind_op (map_err_op IoError (out (deposit_line outcome))) (\<lambda>_. report_deposit out credited' outcomes))"

definition run ::
  "('sk, 'pk, 'br, 'sgk, 'vk, 'cert, 'pkey, 'roots, 'cfg, 'w) wallet_env \<Rightarrow> (string \<Rightarrow> string option)
   \<Rightarrow> (string \<Rightarrow> ('w, string, unit) op) \<Rightarrow> Command \<Rightarrow> ('w, WalletError, unit) op" where
  "run E env out command =
     (let bank_url = env_or env ''DIGICASH_BANK_URL'' DEFAULT_BANK_URL;
          store_path = env_or env ''DIGICASH_WALLET_STORE'' DEFAULT_STORE_PATH;
          writeln = (\<lambda>line. map_err_op IoError (out line)) in
      bind_op (wallet_open E bank_url store_path) (\<lambda>wallet.
        case command of
          Account (Create account_id balance) \<Rightarrow>
            bind_op (of_result (ok_or (ConfigError ''set DIGICASH_CA_CERT to the bank's CA certificate (ca-cert.pem) path'')
              (env ''DIGICASH_CA_CERT''))) (\<lambda>ca_path.
            bind_op (map_err_op (\<lambda>e. ConfigError (''cannot read CA certificate at '' @ ca_path @ '': '' @ e))
              (read_to_string (we_os E) ca_path)) (\<lambda>ca_cert_pem.
            let enroll_url = env_or env ''DIGICASH_ENROLL_URL'' DEFAULT_ENROLL_URL in
            bind_op (wallet_register E account_id ca_cert_pem enroll_url) (\<lambda>_.
            bind_op (wallet_create_account E wallet balance) (\<lambda>response.
              writeln (''registered and created account '' @ bal_account_id response @ '' with balance '' @
                u64_to_string (balance_cents response) @ '' cents'')))))
        | Balance \<Rightarrow>
            bind_op (wallet_balance E wallet) (\<lambda>response.
              writeln (u64_to_string (balance_cents response) @ '' cents''))
        | Withdraw amount_cents \<Rightarrow>
            bind_op (wallet_withdraw E wallet amount_cents) (\<lambda>coins.
              writeln (''withdrew '' @ nat_to_dec (length coins) @ '' coins totalling '' @ u64_to_string amount_cents @ '' cents''))
        | Spend amount_cents bundle_path \<Rightarrow>
            bind_op (wallet_spend E amount_cents bundle_path) (\<lambda>coins.
              writeln (''wrote '' @ nat_to_dec (length coins) @ '' coins totalling '' @ u64_to_string amount_cents @
                '' cents to '' @ bundle_path))
        | Deposit input \<Rightarrow>
            bind_op (wallet_deposit E wallet input) (\<lambda>outcomes.
            bind_op (report_deposit out 0 outcomes) (\<lambda>credited.
              writeln (''credited '' @ u64_to_string credited @ '' cents total'')))))"

section \<open>The process (\<open>main.rs\<close>)\<close>

datatype ExitCode = SUCCESS | FAILURE

definition wallet_main ::
  "('sk, 'pk, 'br, 'sgk, 'vk, 'cert, 'pkey, 'roots, 'cfg, 'w) wallet_env \<Rightarrow> (string \<Rightarrow> string option)
   \<Rightarrow> (string \<Rightarrow> ('w, string, unit) op) \<Rightarrow> (string \<Rightarrow> ('w, string, unit) op) \<Rightarrow> Command \<Rightarrow> 'w \<Rightarrow> ExitCode \<times> 'w" where
  "wallet_main E env out err command w =
     (case run E env out command w of
        (Inr _, w1) \<Rightarrow> (SUCCESS, w1)
      | (Inl e, w1) \<Rightarrow> (FAILURE, snd (err (''error: '' @ wallet_error_to_string e) w1)))"

section \<open>The report\<close>

definition credited_cents :: "WalletDepositOutcome list \<Rightarrow> int" where
  "credited_cents outcomes = (\<Sum>x\<leftarrow>outcomes. if do_accepted x then uint (do_denomination_cents x) else 0)"

lemma credited_cents_nonneg: "0 \<le> credited_cents outcomes"
  by (auto simp: credited_cents_def intro!: sum_list_nonneg)

text \<open>The total of a deposit report is the value of the accepted coins, up to the largest number it can show.\<close>

lemma report_deposit_total:
  assumes "report_deposit out credited outcomes w = (Inr t, w')"
  shows "uint t = min (uint credited + credited_cents outcomes) (2 ^ 64 - 1)"
  using assms
proof (induction outcomes arbitrary: credited w)
  case Nil
  then show ?case using uint_lt2p [of credited] by (simp add: credited_cents_def)
next
  case (Cons x outcomes)
  let ?c = "if do_accepted x then u64_saturating_add credited (do_denomination_cents x) else credited"
  from Cons.prems obtain w1 where "report_deposit out ?c outcomes w1 = (Inr t, w')"
    by (auto simp: Let_def bind_op_Inr)
  from Cons.IH [OF this] credited_cents_nonneg [of outcomes] show ?case
    by (auto simp: credited_cents_def uint_saturating_add min_def)
qed

end
