(* ===== verification/Bank_Types.thy ===== *)
theory Bank_Types
  imports Bank_Api
begin

text \<open>
  What the bank stores it can read. The columns of the schema are wider than the values the code
  reads from them (signed integers for unsigned amounts, text for states, an optional signature),
  and every read checks. These checks never fail on a database the bank has written.
\<close>

section \<open>Errors of a failed check\<close>

fun decode_error :: "BankError \<Rightarrow> bool" where
  "decode_error (MalformedRecord _ _) = True"
| "decode_error (MalformedBalance _ _) = True"
| "decode_error (ValueRange m) = ((of_char (last m) :: nat) \<in> {48..57})"
| "decode_error _ = False"

text \<open>
  \<open>to_u64\<close> ends its message with the offending number, \<open>to_i64\<close> with a word: the check covers the first
  and not the second, which reports an amount of the request that is too large.
\<close>

lemma decode_error_to_u64: "to_u64 i w = Inl e \<Longrightarrow> decode_error e"
proof -
  have "(of_char (last (nat_to_dec n)) :: nat) \<in> {48..57}" for n
    by (rule nat_to_dec_digits [of _ n], rule last_in_set, rule nat_to_dec_nonempty)
  then have "(of_char (last (int_to_string i)) :: nat) \<in> {48..57}" by (simp add: int_to_string_def)
  moreover have "int_to_string i \<noteq> []" by (simp add: int_to_string_def)
  ultimately show "to_u64 i w = Inl e \<Longrightarrow> decode_error e" by (auto simp: to_u64_def)
qed

lemma decode_error_to_i64: "to_i64 v w = Inl e \<Longrightarrow> \<not> decode_error e"
  by (auto simp: to_i64_def)

section \<open>Operations that never raise one\<close>

definition readable :: "('s, BankError, 'a) op \<Rightarrow> bool" where
  "readable m \<longleftrightarrow> (\<forall>s e s'. m s = (Inl e, s') \<longrightarrow> \<not> decode_error e)"

lemma readable_bind: "readable m \<Longrightarrow> (\<And>a. readable (f a)) \<Longrightarrow> readable (bind_op m f)"
  unfolding readable_def bind_op_Inl by blast

lemma readable_ret: "readable (ret a)"
  by (simp add: readable_def)

lemma readable_fail: "\<not> decode_error e \<Longrightarrow> readable (fail e)"
  by (simp add: readable_def)

lemma readable_of_result: "(\<And>e. r = Inl e \<Longrightarrow> \<not> decode_error e) \<Longrightarrow> readable (of_result r)"
  by (simp add: readable_def)

lemma pool_get_Inl: "pool_get pool s = (Inl e, s') \<Longrightarrow> e = pool"
  by (auto simp: pool_get_def split: prod.splits if_splits)

lemma query_Inl: "query db q s = (Inl e, s') \<Longrightarrow> \<exists>p. e = db p"
  by (auto simp: query_def split: prod.splits if_splits)

lemma execute_Inl: "execute db st s = (Inl e, s') \<Longrightarrow> \<exists>p. e = db p"
  by (auto simp: execute_def split: prod.splits if_splits sum.splits)

lemma transaction_Inl:
  "transaction db body s = (Inl e, s') \<Longrightarrow> (\<exists>p. e = db p) \<or> (\<exists>fs s1. body (s\<lparr>faults := fs\<rparr>) = (Inl e, s1))"
  by (auto simp: transaction_def split: prod.splits if_splits sum.splits tx_end.splits fault.splits dest!: next_fault_faults)

lemma readable_db:
  "readable (pool_get Pool)" "readable (query Db q)" "readable (execute Db st)"
  "readable body \<Longrightarrow> readable (transaction Db body)"
  by (fastforce simp: readable_def dest: pool_get_Inl query_Inl execute_Inl transaction_Inl)+

lemmas readable_rules = readable_bind readable_ret readable_db readable_of_result readable_fail

lemma readable_set_state: "readable (set_state r st)"
  unfolding set_state_def by (intro readable_rules)

lemma readable_compensate: "readable (compensate r a d)"
  unfolding compensate_def by (intro readable_rules decode_error_to_i64)

lemma readable_finalize: "readable (finalize_withdraw R keys r a d b)"
proof -
  have "readable (case sign_blinded R sk b of
         Inr sig \<Rightarrow> bind_op (pool_get Pool) (\<lambda>_. bind_op (execute Db (st sig)) (\<lambda>_.
           bind_op (set_state r Completed) (\<lambda>_. ret sig)))
       | Inl e \<Rightarrow> bind_op (compensate r a d) (\<lambda>_. fail (WithdrawFailed r (core_error_to_string e))))" for sk st
    by (cases "sign_blinded R sk b") (auto intro!: readable_rules readable_set_state readable_compensate)
  then show ?thesis
    unfolding finalize_withdraw_def by (intro readable_bind readable_of_result) auto
qed

section \<open>Reads of a well-formed database\<close>

lemma to_u64_nonneg: "0 \<le> i \<Longrightarrow> to_u64 i w \<noteq> Inl e"
  by (metis Inl_Inr_False to_u64_Inr)

lemma balance_errors:
  assumes "bank_wf s" and "balance a s = (Inl e, s')"
  shows "e = Pool \<or> (\<exists>p. e = Db p)"
  using assms(2) unfolding balance_def bind_op_Inl
proof (elim disjE exE conjE)
  fix u s1 row s2
  assume "pool_get Pool s = (Inr u, s1)" and "query Db (\<lambda>s. select_key (accounts s) a) s1 = (Inr row, s2)"
    and dec: "(case row of None \<Rightarrow> ret None | Some b \<Rightarrow> bind_op (of_result (to_u64 b ''balance'')) (\<lambda>v. ret (Some v))) s2 = (Inl e, s')"
  then have "row = select_key (accounts s) a" by (auto dest!: pool_get_Inr query_Inr)
  with assms(1) dec show ?thesis
    by (auto simp: bank_wf_def balances_ok_def bind_op_Inl to_u64_nonneg split: option.splits)
qed (auto dest: pool_get_Inl query_Inl)

text \<open>The record of a withdrawal is read, and carries a signature when its state says so.\<close>

lemma load_record_decodes:
  assumes "bank_wf s"
  shows "load_record r s = (Inl e, s') \<Longrightarrow> \<not> decode_error e"
    and "load_record r s = (Inr (Some rcd), s') \<Longrightarrow> rec_state rcd = Signed \<or> rec_state rcd = Completed \<Longrightarrow>
      rec_blind_signature rcd \<noteq> None"
proof -
  have ok: "0 \<le> ws_denomination_cents w \<and> (\<exists>st. parse_state (ws_state w) = Inr st \<and>
      (st = Signed \<or> st = Completed \<longrightarrow> ws_blind_signature w \<noteq> None))"
    if "select_key (withdraw_states s) r = Some w" for w
    using assms that by (force simp: bank_wf_def withdrawals_ok_def withdrawal_ok_def)
  have row: "row = select_key (withdraw_states s) r"
    if "pool_get Pool s = (Inr u, s1)" "query Db (\<lambda>s. select_key (withdraw_states s) r) s1 = (Inr row, s2)" for u s1 row s2
    using that by (auto dest!: pool_get_Inr query_Inr)
  show "load_record r s = (Inl e, s') \<Longrightarrow> \<not> decode_error e"
    unfolding load_record_def bind_op_Inl
    by (elim disjE exE conjE) (auto dest!: pool_get_Inl query_Inl dest!: row [THEN sym] dest: ok
        simp: bind_op_Inl bind_op_Inr to_u64_nonneg split: option.splits)
  show "load_record r s = (Inr (Some rcd), s') \<Longrightarrow> rec_state rcd = Signed \<or> rec_state rcd = Completed \<Longrightarrow>
      rec_blind_signature rcd \<noteq> None"
    unfolding load_record_def bind_op_Inr
    by (elim exE conjE) (auto dest!: row [THEN sym] dest: ok simp: bind_op_Inr split: option.splits)
qed

lemma debit_errors:
  assumes "bank_wf s" and "debit_and_record_pending req s = (Inl e, s')"
  shows "\<not> decode_error e"
proof -
  let ?cont = "\<lambda>denom row. case row of
      None \<Rightarrow> fail (AccountNotFound (wr_account_id req))
    | Some bal \<Rightarrow>
        if bal < denom
        then bind_op (of_result (to_u64 bal ''balance'')) (\<lambda>b.
               fail (InsufficientBalance (wr_account_id req) b (wr_denomination_cents req)))
        else
          bind_op (execute Db (add_balance (wr_account_id req) (- denom))) (\<lambda>_.
          bind_op (execute Db (insert_withdrawal (wr_request_id req)
            \<lparr>ws_state = as_str Pending, ws_account_id = wr_account_id req,
             ws_denomination_cents = denom, ws_blinded_message = wr_blinded_message req,
             ws_blind_signature = None\<rparr>)) (\<lambda>_.
            ret (Commit ())))"
  have body: "\<not> decode_error e"
    if "bank_wf t" "bind_op (query Db (\<lambda>s. select_key (accounts s) (wr_account_id req))) (?cont denom) t = (Inl e, t')"
    for t t' denom
    using that(2) unfolding bind_op_Inl
  proof (elim disjE exE conjE)
    fix row t1
    assume "query Db (\<lambda>s. select_key (accounts s) (wr_account_id req)) t = (Inr row, t1)"
      and cont: "?cont denom row t1 = (Inl e, t')"
    then have "row = select_key (accounts t) (wr_account_id req)" by (auto dest!: query_Inr)
    with cont that(1) show ?thesis
      by (auto simp: bank_wf_def balances_ok_def bind_op_Inl to_u64_nonneg split: option.splits if_splits dest!: execute_Inl)
  qed (auto dest: query_Inl)
  have wf: "bank_wf (t\<lparr>faults := fs\<rparr>)" if "pool_get Pool s = (Inr u, t)" for u t fs
    using assms(1) pool_get_Inr [OF that] by auto
  from assms(2) show ?thesis
    unfolding debit_and_record_pending_def bind_op_Inl [of "of_result _"] bind_op_Inl [of "pool_get _"]
    by (elim disjE exE conjE) (auto dest!: decode_error_to_i64 pool_get_Inl transaction_Inl dest: body [OF wf])
qed

lemma withdraw_errors:
  assumes "bank_wf s" and "withdraw R keys req s = (Inl e, s')"
  shows "\<not> decode_error e"
  using assms(2) unfolding withdraw_def bind_op_Inl [of "load_record _"]
proof (elim disjE exE conjE)
  fix found s1
  assume load: "load_record (wr_request_id req) s = (Inr found, s1)"
    and rest: "(case found of
         Some rcd \<Rightarrow> resume_withdraw R keys (wr_request_id req) rcd
       | None \<Rightarrow>
           if key_get keys (wr_denomination_cents req) SCHEME_ID_RSA_DETERMINISTIC = None
           then fail (NoKeyForDenomination (wr_denomination_cents req))
           else
             bind_op (debit_and_record_pending req) (\<lambda>_.
             bind_op (finalize_withdraw R keys (wr_request_id req) (wr_account_id req)
                        (wr_denomination_cents req) (wr_blinded_message req)) (\<lambda>sig.
               ret \<lparr>blind_signature = sig\<rparr>))) s1 = (Inl e, s')"
  show ?thesis
  proof (cases found)
    case None
    have "bank_wf s1" using hoare_Inr [OF hoare_load_record _ load, of "money s" s] assms(1) by (simp add: booked_def)
    with rest None show ?thesis
      by (auto simp: bind_op_Inl split: if_splits dest: debit_errors readable_finalize [unfolded readable_def, rule_format])
  next
    case (Some rcd)
    have "readable (resume_withdraw R keys (wr_request_id req) rcd)"
      unfolding resume_withdraw_def
      using load_record_decodes(2) [OF assms(1) load [unfolded Some]]
      by (auto intro!: readable_rules readable_set_state readable_finalize)
    with rest Some show ?thesis by (auto simp: readable_def)
  qed
qed (rule load_record_decodes(1) [OF assms(1)])

lemma to_resume_decodes:
  "\<forall>(r, w) \<in> set rows. withdrawal_ok acc w \<Longrightarrow> \<exists>items. to_resume rows = Inr items"
proof (induction rows)
  case (Cons x rows)
  obtain r w where x: "x = (r, w)" by fastforce
  with Cons.prems obtain st where "parse_state (ws_state w) = Inr st" "0 \<le> ws_denomination_cents w"
    by (auto simp: withdrawal_ok_def)
  with Cons x show ?case by (auto simp: bind_result_Inr)
qed simp

lemma in_flight_decodes:
  assumes "bank_wf s"
  shows "\<exists>items. to_resume (in_flight s) = Inr items"
proof (rule to_resume_decodes)
  have "keyed (withdraw_states s)" using assms by (simp add: bank_wf_def tables_keyed_def)
  with assms show "\<forall>(r, w) \<in> set (in_flight s). withdrawal_ok (accounts s) w"
    by (auto simp: in_flight_def bank_wf_def withdrawals_ok_def keyed_def)
qed

text \<open>
  C10: the database never holds a value the bank cannot read back. In every state a bank reaches from
  an empty database, over any requests, restarts and faults: a balance query fails only because the
  database cannot be reached; no withdrawal, first or retried, reports a corrupt record or a stored
  number out of range; and the recovery at start can decode every withdrawal in flight.
\<close>

theorem stored_data_decodes:
  assumes "fresh_bank s0" and "steps (bank_step R D) s0 s"
  shows "(\<forall>a e. fst (balance a s) = Inl e \<longrightarrow> e = Pool \<or> (\<exists>p. e = Db p)) \<and>
    (\<forall>keys req e. fst (withdraw R keys req s) = Inl e \<longrightarrow> \<not> decode_error e) \<and>
    (\<exists>items. to_resume (in_flight s) = Inr items)"
proof -
  have wf: "bank_wf s" using bank.reachable_inv [OF assms] .
  have "e = Pool \<or> (\<exists>p. e = Db p)" if "fst (balance a s) = Inl e" for a e
    using balance_errors [OF wf, of a e "snd (balance a s)"] that by (metis prod.collapse)
  moreover have "\<not> decode_error e" if "fst (withdraw R keys req s) = Inl e" for keys req e
    using withdraw_errors [OF wf, of R keys req e "snd (withdraw R keys req s)"] that by (metis prod.collapse)
  ultimately show ?thesis using in_flight_decodes [OF wf] by blast
qed

theorem stored_data_decodes_witness:
  "\<exists>e e'. fst (balance ''bob'' (demo_credited\<lparr>faults := [Ack, Lost]\<rparr>)) = Inl e \<and> (e = Pool \<or> (\<exists>p. e = Db p)) \<and>
     fst (withdraw demo_brsa [] (demo_withdraw [1, 2, 3, 4]) (demo_credited\<lparr>faults := [Ack, Lost]\<rparr>)) = Inl e' \<and>
     \<not> decode_error e' \<and> (\<exists>items. to_resume (in_flight (demo_credited\<lparr>faults := [Ack, Lost]\<rparr>)) = Inr items)"
proof -
  let ?s = "demo_credited\<lparr>faults := [Ack, Lost]\<rparr>"
  have run: "steps (bank_step demo_brsa demo_ed25519) empty_bank ?s"
    by (rule steps_step [OF steps_trans [OF demo_life(3,2)] bank_faults])
  have b: "fst (balance ''bob'' ?s) = Inl (Db Connection_Lost)"
    by (simp add: balance_def pool_get_def query_def bind_op_def next_fault_def)
  have w: "fst (withdraw demo_brsa [] (demo_withdraw [1, 2, 3, 4]) ?s) = Inl (Db Connection_Lost)"
    by (simp add: withdraw_def load_record_def pool_get_def query_def bind_op_def next_fault_def)
  from stored_data_decodes [OF demo_life(1) run] b w show ?thesis by blast
qed

end
