(* ===== verification/Bank_Concurrent.thy ===== *)
theory Bank_Concurrent
  imports Bank_Api
begin

text \<open>
  Withdrawals that run at the same time (\<open>bank.rs\<close>). A handler suspends at every round trip to the
  database, and the requests of other connections run in between. Here a withdrawal is a task with a
  program counter, one value per round trip; a bank holds any number of tasks and a scheduler picks
  which one moves. Alone, a task does what \<open>withdraw\<close> does.
\<close>

section \<open>A withdrawal as a task\<close>

datatype withdraw_pc =
    At_Load
  | At_Debit
  | At_Signed bytes
  | At_Completed bytes
  | At_Refund string u64 CoreError
  | At_Done "BankError + WithdrawResponse"

text \<open>Where \<open>finalize_withdraw\<close> goes first: the signature is computed without a round trip.\<close>

definition finalize_pc ::
  "('sk, 'pk, 'br) brsa \<Rightarrow> ('sk, 'pk) KeyStore \<Rightarrow> string \<Rightarrow> u64 \<Rightarrow> bytes \<Rightarrow> withdraw_pc" where
  "finalize_pc R keys account_id denom blinded_message =
     (case key_get keys denom SCHEME_ID_RSA_DETERMINISTIC of
        None \<Rightarrow> At_Done (Inl (NoKeyForDenomination denom))
      | Some keypair \<Rightarrow>
          (case sign_blinded R (kp_sk keypair) blinded_message of
             Inr sig \<Rightarrow> At_Signed sig
           | Inl e \<Rightarrow> At_Refund account_id denom e))"

definition resume_pc ::
  "('sk, 'pk, 'br) brsa \<Rightarrow> ('sk, 'pk) KeyStore \<Rightarrow> string \<Rightarrow> WithdrawalRecord \<Rightarrow> withdraw_pc" where
  "resume_pc R keys request_id rcd =
     (case rec_state rcd of
        Pending \<Rightarrow> finalize_pc R keys (rec_account_id rcd) (rec_denomination_cents rcd) (rec_blinded_message rcd)
      | Compensated \<Rightarrow> At_Done (Inl (WithdrawPreviouslyFailed request_id))
      | _ \<Rightarrow>
          (case rec_blind_signature rcd of
             None \<Rightarrow> At_Done (Inl (MalformedRecord request_id ''signed record has no signature''))
           | Some sig \<Rightarrow> if rec_state rcd = Signed then At_Completed sig else At_Done (Inr \<lparr>blind_signature = sig\<rparr>)))"

definition loaded_pc ::
  "('sk, 'pk, 'br) brsa \<Rightarrow> ('sk, 'pk) KeyStore \<Rightarrow> WithdrawRequest \<Rightarrow> WithdrawalRecord option \<Rightarrow> withdraw_pc" where
  "loaded_pc R keys req found =
     (case found of
        Some rcd \<Rightarrow> resume_pc R keys (wr_request_id req) rcd
      | None \<Rightarrow>
          if key_get keys (wr_denomination_cents req) SCHEME_ID_RSA_DETERMINISTIC = None
          then At_Done (Inl (NoKeyForDenomination (wr_denomination_cents req)))
          else At_Debit)"

text \<open>One round trip; an error ends the task.\<close>

definition step_to :: "('s, BankError, 'a) op \<Rightarrow> ('a \<Rightarrow> withdraw_pc) \<Rightarrow> 's \<Rightarrow> withdraw_pc \<times> 's" where
  "step_to m nxt s = (case m s of (Inl e, s') \<Rightarrow> (At_Done (Inl e), s') | (Inr a, s') \<Rightarrow> (nxt a, s'))"

definition write_signed :: "string \<Rightarrow> bytes \<Rightarrow> ('x bank_db_scheme, BankError, nat) op" where
  "write_signed request_id sig =
     bind_op (pool_get Pool) (\<lambda>_.
       execute Db (update_withdrawal request_id (\<lambda>w. w\<lparr>ws_state := as_str Signed, ws_blind_signature := Some sig\<rparr>)))"

fun withdraw_step ::
  "('sk, 'pk, 'br) brsa \<Rightarrow> ('sk, 'pk) KeyStore \<Rightarrow> WithdrawRequest \<Rightarrow> withdraw_pc \<Rightarrow> 'x bank_db_scheme
   \<Rightarrow> withdraw_pc \<times> 'x bank_db_scheme" where
  "withdraw_step R keys req At_Load = step_to (load_record (wr_request_id req)) (loaded_pc R keys req)"
| "withdraw_step R keys req At_Debit =
     step_to (debit_and_record_pending req)
       (\<lambda>_. finalize_pc R keys (wr_account_id req) (wr_denomination_cents req) (wr_blinded_message req))"
| "withdraw_step R keys req (At_Signed sig) =
     step_to (write_signed (wr_request_id req) sig) (\<lambda>_. At_Completed sig)"
| "withdraw_step R keys req (At_Completed sig) =
     step_to (set_state (wr_request_id req) Completed) (\<lambda>_. At_Done (Inr \<lparr>blind_signature = sig\<rparr>))"
| "withdraw_step R keys req (At_Refund account_id denom e) =
     step_to (compensate (wr_request_id req) account_id denom)
       (\<lambda>_. At_Done (Inl (WithdrawFailed (wr_request_id req) (core_error_to_string e))))"
| "withdraw_step R keys req (At_Done r) = Pair (At_Done r)"

text \<open>A task that runs alone, for a number of round trips.\<close>

fun run_alone ::
  "('sk, 'pk, 'br) brsa \<Rightarrow> ('sk, 'pk) KeyStore \<Rightarrow> WithdrawRequest \<Rightarrow> nat \<Rightarrow> withdraw_pc \<Rightarrow> 'x bank_db_scheme
   \<Rightarrow> withdraw_pc \<times> 'x bank_db_scheme" where
  "run_alone R keys req 0 pc s = (pc, s)"
| "run_alone R keys req (Suc n) pc s =
     (case withdraw_step R keys req pc s of (pc', s') \<Rightarrow> run_alone R keys req n pc' s')"

lemma run_alone_done [simp]: "run_alone R keys req n (At_Done r) s = (At_Done r, s)"
  by (induction n) simp_all

lemma run_alone_to:
  assumes "withdraw_step R keys req pc = step_to m nxt"
    and "\<And>a s. run_alone R keys req n (nxt a) s = (case f a s of (r, s') \<Rightarrow> (At_Done r, s'))"
  shows "run_alone R keys req (Suc n) pc s = (case bind_op m f s of (r, s') \<Rightarrow> (At_Done r, s'))"
  using assms by (simp add: step_to_def bind_op_def split: prod.split sum.split)

lemma run_completed:
  "run_alone R keys req (Suc n) (At_Completed sig) s =
     (case bind_op (set_state (wr_request_id req) Completed) (\<lambda>_. ret \<lparr>blind_signature = sig\<rparr>) s of (r, s') \<Rightarrow> (At_Done r, s'))"
  by (rule run_alone_to [OF withdraw_step.simps(4)]) simp

lemma run_finalize:
  "run_alone R keys req (Suc (Suc n)) (finalize_pc R keys a d bm) s =
     (case bind_op (finalize_withdraw R keys (wr_request_id req) a d bm) (\<lambda>sig. ret \<lparr>blind_signature = sig\<rparr>) s of
        (r, s') \<Rightarrow> (At_Done r, s'))"
proof (cases "key_get keys d SCHEME_ID_RSA_DETERMINISTIC")
  case (Some kp)
  show ?thesis
  proof (cases "sign_blinded R (kp_sk kp) bm")
    case (Inl e)
    have "run_alone R keys req (Suc (Suc n)) (At_Refund a d e) s =
        (case bind_op (compensate (wr_request_id req) a d) (\<lambda>_. fail (WithdrawFailed (wr_request_id req) (core_error_to_string e))) s of
           (r, s') \<Rightarrow> (At_Done r, s'))"
      by (rule run_alone_to [OF withdraw_step.simps(5)]) simp
    with Some Inl show ?thesis
      by (simp add: finalize_pc_def finalize_withdraw_def bind_of_Inr bind_op_assoc bind_op_unit
          del: op_simps run_alone.simps)
  next
    case (Inr sig)
    have "run_alone R keys req (Suc (Suc n)) (At_Signed sig) s =
        (case bind_op (write_signed (wr_request_id req) sig) (\<lambda>_.
           bind_op (set_state (wr_request_id req) Completed) (\<lambda>_. ret \<lparr>blind_signature = sig\<rparr>)) s of
           (r, s') \<Rightarrow> (At_Done r, s'))"
      by (rule run_alone_to [OF withdraw_step.simps(3)]) (rule run_completed)
    with Some Inr show ?thesis
      by (simp add: finalize_pc_def finalize_withdraw_def write_signed_def bind_of_Inr bind_op_assoc bind_op_unit
          del: op_simps run_alone.simps)
  qed
qed (simp add: finalize_pc_def finalize_withdraw_def bind_of_result)

text \<open>Four round trips are enough, and their result is that of \<open>withdraw\<close>.\<close>

lemma run_alone_withdraw:
  "run_alone R keys req 4 At_Load s = (case withdraw R keys req s of (r, s') \<Rightarrow> (At_Done r, s'))"
proof -
  note fin = run_finalize [of R keys req]
  have debit: "run_alone R keys req (Suc (Suc (Suc 0))) At_Debit s =
      (case bind_op (debit_and_record_pending req) (\<lambda>_. bind_op (finalize_withdraw R keys (wr_request_id req) (wr_account_id req)
         (wr_denomination_cents req) (wr_blinded_message req)) (\<lambda>sig. ret \<lparr>blind_signature = sig\<rparr>)) s of (r, s') \<Rightarrow> (At_Done r, s'))" for s
    by (rule run_alone_to [OF withdraw_step.simps(2)]) (rule fin)
  have resume: "run_alone R keys req (Suc (Suc (Suc 0))) (resume_pc R keys (wr_request_id req) rcd) s =
      (case resume_withdraw R keys (wr_request_id req) rcd s of (r, s') \<Rightarrow> (At_Done r, s'))" for rcd s
  proof (cases "rec_state rcd")
    case Pending
    with fin [of "Suc 0"] show ?thesis by (simp add: resume_pc_def resume_withdraw_def del: run_alone.simps)
  next
    case Signed
    then show ?thesis
      by (cases "rec_blind_signature rcd")
        (simp_all add: resume_pc_def resume_withdraw_def bind_of_result run_completed [of R keys req "Suc (Suc 0)"] del: run_alone.simps)
  qed (auto simp: resume_pc_def resume_withdraw_def bind_of_result split: option.split)
  have "run_alone R keys req (Suc (Suc (Suc (Suc 0)))) At_Load s = (case withdraw R keys req s of (r, s') \<Rightarrow> (At_Done r, s'))"
    unfolding withdraw_def
    by (rule run_alone_to [OF withdraw_step.simps(1)])
      (auto simp: loaded_pc_def resume debit simp del: run_alone.simps split: option.split)
  then show ?thesis by (simp add: eval_nat_numeral)
qed

section \<open>The bank with many withdrawals in flight\<close>

type_synonym tasks = "(WithdrawRequest \<times> withdraw_pc) list"

text \<open>
  The database and the tasks. A request that passes \<open>admit\<close> arrives, a task makes one round trip,
  the client of a task goes away, or a handler of another kind runs: the transaction of a deposit or
  the statement that opens an account. The database may change its mind about the faults
  to come at any time.
\<close>

inductive conc_step ::
  "('sk, 'pk, 'br) brsa \<Rightarrow> ('sk, 'pk) KeyStore \<Rightarrow> (WithdrawRequest \<Rightarrow> bool)
   \<Rightarrow> 'x bank_db_scheme \<times> tasks \<Rightarrow> 'x bank_db_scheme \<times> tasks \<Rightarrow> bool"
  for R keys admit where
  conc_arrive: "admit req \<Longrightarrow> conc_step R keys admit (s, ts) (s, ts @ [(req, At_Load)])"
| conc_run: "i < length ts \<Longrightarrow> ts ! i = (req, pc) \<Longrightarrow> withdraw_step R keys req pc s = (pc', s') \<Longrightarrow>
    conc_step R keys admit (s, ts) (s', ts[i := (req, pc')])"
| conc_cancel: "conc_step R keys admit (s, ts) (s, take i ts @ drop (Suc i) ts)"
| conc_deposit: "commit_deposit q s = (out, s') \<Longrightarrow> conc_step R keys admit (s, ts) (s', ts)"
| conc_open: "create_account a v s = (bal, s') \<Longrightarrow> conc_step R keys admit (s, ts) (s', ts)"
| conc_faults: "conc_step R keys admit (s, ts) (s\<lparr>faults := fs\<rparr>, ts)"

section \<open>Safety when signing does not fail\<close>

text \<open>The signature the keys give a message, and that they give one unless the denomination is not served.\<close>

definition signature_of :: "('sk, 'pk, 'br) brsa \<Rightarrow> ('sk, 'pk) KeyStore \<Rightarrow> u64 \<Rightarrow> bytes \<Rightarrow> bytes option" where
  "signature_of R keys d bm =
     (case key_get keys d SCHEME_ID_RSA_DETERMINISTIC of
        None \<Rightarrow> None
      | Some kp \<Rightarrow> (case sign_blinded R (kp_sk kp) bm of Inl _ \<Rightarrow> None | Inr sig \<Rightarrow> Some sig))"

definition signs :: "('sk, 'pk, 'br) brsa \<Rightarrow> ('sk, 'pk) KeyStore \<Rightarrow> u64 \<Rightarrow> bytes \<Rightarrow> bool" where
  "signs R keys d bm \<longleftrightarrow>
     key_get keys d SCHEME_ID_RSA_DETERMINISTIC = None \<or> signature_of R keys d bm \<noteq> None"

abbreviation row_signature :: "('sk, 'pk, 'br) brsa \<Rightarrow> ('sk, 'pk) KeyStore \<Rightarrow> withdraw_row \<Rightarrow> bytes option" where
  "row_signature R keys w \<equiv> signature_of R keys (word_of_int (ws_denomination_cents w)) (ws_blinded_message w)"

text \<open>A pending record can be signed and is not signed yet.\<close>

definition pending_signable :: "('sk, 'pk, 'br) brsa \<Rightarrow> ('sk, 'pk) KeyStore \<Rightarrow> 'x bank_db_scheme \<Rightarrow> bool" where
  "pending_signable R keys s \<longleftrightarrow>
     (\<forall>r w. at_row r w s \<longrightarrow> ws_state w = as_str Pending \<longrightarrow>
        ws_blind_signature w = None \<and> signs R keys (word_of_int (ws_denomination_cents w)) (ws_blinded_message w))"

text \<open>What a task relies on while others run, and guarantees them.\<close>

definition row_keeps ::
  "('sk, 'pk, 'br) brsa \<Rightarrow> ('sk, 'pk) KeyStore \<Rightarrow> withdraw_row \<Rightarrow> withdraw_row \<Rightarrow> bool" where
  "row_keeps R keys w w' \<longleftrightarrow>
     ws_account_id w' = ws_account_id w \<and> ws_denomination_cents w' = ws_denomination_cents w \<and>
     ws_blinded_message w' = ws_blinded_message w \<and>
     (ws_state w' = as_str Compensated) = (ws_state w = as_str Compensated) \<and>
     (ws_blind_signature w' = ws_blind_signature w \<or>
      ws_blind_signature w = None \<and> ws_blind_signature w' = row_signature R keys w)"

definition advances ::
  "('sk, 'pk, 'br) brsa \<Rightarrow> ('sk, 'pk) KeyStore \<Rightarrow> 'x bank_db_scheme \<Rightarrow> 'x bank_db_scheme \<Rightarrow> bool" where
  "advances R keys s s' \<longleftrightarrow>
     bank_wf s' \<and> pending_signable R keys s' \<and>
     (\<forall>r w. at_row r w s \<longrightarrow> (\<exists>w'. at_row r w' s' \<and> row_keeps R keys w w')) \<and>
     (\<forall>a. map_of (accounts s') a = None \<longrightarrow> map_of (accounts s) a = None) \<and>
     (\<forall>P. (\<forall>a. P a \<longrightarrow> map_of (accounts s) a \<noteq> None) \<longrightarrow> money s' P = money s P)"

text \<open>What holds of a task between its round trips.\<close>

fun pc_ok ::
  "('sk, 'pk, 'br) brsa \<Rightarrow> ('sk, 'pk) KeyStore \<Rightarrow> 'x bank_db_scheme \<Rightarrow> WithdrawRequest \<Rightarrow> withdraw_pc \<Rightarrow> bool" where
  "pc_ok R keys s req (At_Signed sig) \<longleftrightarrow>
     (\<exists>w. at_row (wr_request_id req) w s \<and> ws_state w \<noteq> as_str Compensated \<and> row_signature R keys w = Some sig \<and>
          (ws_blind_signature w = None \<or> ws_blind_signature w = Some sig))"
| "pc_ok R keys s req (At_Completed sig) \<longleftrightarrow>
     (\<exists>w. at_row (wr_request_id req) w s \<and> ws_state w \<noteq> as_str Compensated \<and> ws_blind_signature w = Some sig)"
| "pc_ok R keys s req (At_Done (Inr resp)) \<longleftrightarrow>
     (\<exists>w. at_row (wr_request_id req) w s \<and> ws_state w \<noteq> as_str Compensated \<and>
          ws_blind_signature w = Some (blind_signature resp))"
| "pc_ok R keys s req (At_Refund a d e) \<longleftrightarrow> False"
| "pc_ok R keys s req _ \<longleftrightarrow> True"

lemma row_keeps_refl [simp, intro]: "row_keeps R keys w w"
  by (simp add: row_keeps_def)

lemma row_keeps_trans: "row_keeps R keys u v \<Longrightarrow> row_keeps R keys v w \<Longrightarrow> row_keeps R keys u w"
  by (auto simp: row_keeps_def)

lemma advances_refl: "bank_wf s \<Longrightarrow> pending_signable R keys s \<Longrightarrow> advances R keys s s"
  by (auto simp: advances_def)

lemma advances_trans:
  assumes st: "advances R keys s t" and tu: "advances R keys t u"
  shows "advances R keys s u"
proof -
  have "\<forall>a. P a \<longrightarrow> map_of (accounts t) a \<noteq> None" if "\<forall>a. P a \<longrightarrow> map_of (accounts s) a \<noteq> None" for P
    using st that unfolding advances_def by blast
  then have "money u P = money s P" if "\<forall>a. P a \<longrightarrow> map_of (accounts s) a \<noteq> None" for P
    using st tu that by (simp add: advances_def)
  moreover have "\<exists>w'. at_row r w' u \<and> row_keeps R keys w w'" if "at_row r w s" for r w
    using st tu that unfolding advances_def by (metis row_keeps_trans)
  moreover have "map_of (accounts s) a = None" if "map_of (accounts u) a = None" for a
    using st tu that by (simp add: advances_def)
  ultimately show ?thesis using tu by (simp add: advances_def)
qed

lemma advances_row:
  assumes "advances R keys s s'" and "at_row r w s"
  obtains w' where "at_row r w' s'" "row_keeps R keys w w'"
  using assms unfolding advances_def by blast

lemma row_keeps_signature:
  "row_keeps R keys w w' \<Longrightarrow> ws_blind_signature w = Some sig \<Longrightarrow> ws_state w \<noteq> as_str Compensated \<Longrightarrow>
   ws_state w' \<noteq> as_str Compensated \<and> ws_blind_signature w' = Some sig"
  by (simp add: row_keeps_def)

lemma signed_stable:
  assumes "advances R keys s s'"
    and "\<exists>w. at_row r w s \<and> ws_state w \<noteq> as_str Compensated \<and> ws_blind_signature w = Some sig"
  shows "\<exists>w. at_row r w s' \<and> ws_state w \<noteq> as_str Compensated \<and> ws_blind_signature w = Some sig"
proof -
  from assms(2) obtain w where w: "at_row r w s" "ws_state w \<noteq> as_str Compensated" "ws_blind_signature w = Some sig"
    by blast
  from advances_row [OF assms(1) w(1)] obtain w' where "at_row r w' s'" "row_keeps R keys w w'" .
  with row_keeps_signature [OF this(2) w(3,2)] show ?thesis by blast
qed

lemma pc_ok_stable:
  assumes "pc_ok R keys s req pc" and adv: "advances R keys s s'"
  shows "pc_ok R keys s' req pc"
proof (cases pc)
  case (At_Signed sig)
  with assms(1) obtain w where w: "at_row (wr_request_id req) w s" "ws_state w \<noteq> as_str Compensated"
    "row_signature R keys w = Some sig" "ws_blind_signature w = None \<or> ws_blind_signature w = Some sig" by auto
  from advances_row [OF adv w(1)] obtain w' where w': "at_row (wr_request_id req) w' s'" "row_keeps R keys w w'" .
  with w(2-4) have "ws_state w' \<noteq> as_str Compensated" "row_signature R keys w' = Some sig"
    "ws_blind_signature w' = None \<or> ws_blind_signature w' = Some sig" by (auto simp: row_keeps_def)
  with w'(1) At_Signed show ?thesis by simp
next
  case (At_Completed sig)
  with assms(1) signed_stable [OF adv] show ?thesis by simp
next
  case (At_Done r)
  with assms(1) signed_stable [OF adv] show ?thesis by (cases r) simp_all
qed (use assms(1) in simp_all)

lemma conc_faults_simps [simp]:
  "pending_signable R keys (s\<lparr>faults := fs\<rparr>) = pending_signable R keys s"
  "advances R keys s (t\<lparr>faults := fs\<rparr>) = advances R keys s t"
  "pc_ok R keys (s\<lparr>faults := fs\<rparr>) req pc = pc_ok R keys s req pc"
proof -
  show "pc_ok R keys (s\<lparr>faults := fs\<rparr>) req pc = pc_ok R keys s req pc"
    by (cases "(R, keys, s, req, pc)" rule: pc_ok.cases) simp_all
qed (simp_all add: pending_signable_def advances_def)

subsection \<open>One round trip\<close>

lemma step_to_hoare:
  assumes "hoare P m Q E" and "P s" and "step_to m nxt s = (pc', s')"
  obtains (ok) a where "pc' = nxt a" "Q a s'" | (err) e where "pc' = At_Done (Inl e)" "E e s'"
proof -
  obtain r t where r: "m s = (r, t)" by fastforce
  show thesis
  proof (cases r)
    case (Inl e)
    with r assms(3) hoare_Inl [OF assms(1,2)] err show thesis by (auto simp: step_to_def)
  next
    case (Inr a)
    with r assms(3) hoare_Inr [OF assms(1,2)] ok show thesis by (auto simp: step_to_def)
  qed
qed

text \<open>A statement that leaves the withdrawals alone, and one that signs or completes a record.\<close>

lemma same_rows_advance:
  assumes "bank_wf s'" and "pending_signable R keys s" and "withdraw_states s' = withdraw_states s"
    and "\<And>a. map_of (accounts s') a = None \<Longrightarrow> map_of (accounts s) a = None"
    and "\<And>P. (\<forall>a. P a \<longrightarrow> map_of (accounts s) a \<noteq> None) \<Longrightarrow> money s' P = money s P"
  shows "advances R keys s s'"
  using assms by (auto simp: advances_def pending_signable_def)

lemma update_advances:
  assumes "bank_wf s" and "pending_signable R keys s" and "at_row r w s"
    and "row_keeps R keys w (g w)" and "withdrawal_ok (accounts s) (g w)" and "ws_state (g w) \<noteq> as_str Pending"
  shows "advances R keys s (s\<lparr>withdraw_states := snd (update_row r g (withdraw_states s))\<rparr>)" (is "advances _ _ s ?s'")
proof -
  from assms(4) have acct: "ws_account_id (g w) = ws_account_id w" and out: "outstanding (g w) - outstanding w = 0"
    by (auto simp: row_keeps_def outstanding_def)
  have books: "bank_wf ?s'" "money ?s' = money s"
    using update_row_books [where g = g, OF assms(1,3,5) acct] by (simp_all add: out)
  have "pending_signable R keys ?s'"
    using assms(2,3,6) by (auto simp: pending_signable_def select_update_row)
  moreover have "\<exists>w'. at_row q w' ?s' \<and> row_keeps R keys v w'" if "at_row q v s" for q v
    using assms(3,4) that by (cases "q = r") (auto simp: select_update_row)
  ultimately show ?thesis using books by (simp add: advances_def)
qed

abbreviation updated ::
  "string \<Rightarrow> (withdraw_row \<Rightarrow> withdraw_row) \<Rightarrow> 'x bank_db_scheme \<Rightarrow> 'x bank_db_scheme" where
  "updated r g s \<equiv> s\<lparr>withdraw_states := snd (update_row r g (withdraw_states s))\<rparr>"

lemma same_tables_updated: "same_tables s t \<Longrightarrow> same_tables (updated r g s) (updated r g t)"
  by (drule same_tablesD, erule exE) (simp add: same_tables_def)

lemma hoare_update_run:
  "hoare (same_tables s) (bind_op (pool_get Pool) (\<lambda>_. execute Db (update_withdrawal r g)))
     (\<lambda>_. same_tables (updated r g s)) (\<lambda>_ t. same_tables s t \<or> same_tables (updated r g s) t)"
proof (rule hoare_bind [where R = "\<lambda>_. same_tables s"])
  show "hoare (same_tables s) (pool_get Pool) (\<lambda>_. same_tables s)
      (\<lambda>_ t. same_tables s t \<or> same_tables (updated r g s) t)"
    by (rule hoare_pool_get) simp_all
  show "hoare (same_tables s) (execute Db (update_withdrawal r g)) (\<lambda>_. same_tables (updated r g s))
      (\<lambda>_ t. same_tables s t \<or> same_tables (updated r g s) t)" for u :: unit
    by (rule hoare_execute) (auto dest: same_tables_updated)
qed

lemma set_state_run: "set_state r st = bind_op (bind_op (pool_get Pool) (\<lambda>_. execute Db
    (update_withdrawal r (\<lambda>w. w\<lparr>ws_state := as_str st\<rparr>)))) (\<lambda>_. ret ())"
  by (simp add: set_state_def bind_op_assoc del: op_simps)

lemma hoare_set_state_run:
  "hoare (same_tables s) (set_state r st)
     (\<lambda>_. same_tables (updated r (\<lambda>w. w\<lparr>ws_state := as_str st\<rparr>) s))
     (\<lambda>_ t. same_tables s t \<or> same_tables (updated r (\<lambda>w. w\<lparr>ws_state := as_str st\<rparr>) s) t)"
  unfolding set_state_run by (rule hoare_bind [OF hoare_update_run hoare_ret])

lemma same_tables_conc:
  assumes "same_tables u t"
  shows "advances R keys s t = advances R keys s u" "pc_ok R keys t req pc = pc_ok R keys u req pc"
  using same_tablesD [OF assms] by auto

text \<open>The debit writes at most the pending record.\<close>

definition debited_rows :: "WithdrawRequest \<Rightarrow> 'x bank_db_scheme \<Rightarrow> 'x bank_db_scheme \<Rightarrow> bool" where
  "debited_rows req h s \<longleftrightarrow> withdraw_states s = withdraw_states h \<or>
     map_of (withdraw_states h) (wr_request_id req) = None \<and>
     withdraw_states s = withdraw_states h @ [(wr_request_id req, pending_row req)]"

lemma fault_free_debited [simp]: "fault_free (debited_rows req h)"
  by (simp add: fault_free_def debited_rows_def)

lemma debited_add_balance: "debited_rows req h s \<Longrightarrow> add_balance a d s = Inr (n, s') \<Longrightarrow> debited_rows req h s'"
  by (simp add: debited_rows_def add_balance_frame)

lemma debited_insert:
  assumes "debited_rows req h s" and "insert_withdrawal (wr_request_id req) (pending_row req) s = Inr (n, s')"
  shows "debited_rows req h s'"
proof (cases "map_of (withdraw_states s) (wr_request_id req)")
  case None
  with assms show ?thesis
    by (auto simp: debited_rows_def insert_withdrawal_def insert_row_new map_add_def)
qed (use assms in \<open>simp add: insert_withdrawal_def insert_row_old\<close>)

lemma keeps_debited: "keeps (debited_rows req h) (debit_and_record_pending req)"
  unfolding debit_and_record_pending_def bind_of_result [of "to_i64 (wr_denomination_cents req) ''denomination''"]
  by (intro wp fault_free_debited)
    (auto simp: pending_row_def [symmetric] intro: debited_add_balance debited_insert)

lemma debited_advances:
  assumes "bank_wf s" and "pending_signable R keys s" and "booked (money s) s t" and "debited_rows req s t"
    and "signs R keys (wr_denomination_cents req) (wr_blinded_message req)"
  shows "advances R keys s t"
proof -
  from assms(3) have b: "bank_wf t" "money t = money s"
    "\<forall>a. map_of (accounts t) a = None \<longrightarrow> map_of (accounts s) a = None" by (simp_all add: booked_def evolves_def)
  from assms(4) consider "withdraw_states t = withdraw_states s"
    | "map_of (withdraw_states s) (wr_request_id req) = None"
      "withdraw_states t = withdraw_states s @ [(wr_request_id req, pending_row req)]"
    unfolding debited_rows_def by auto
  then show ?thesis
  proof cases
    case 1
    with b assms(2) show ?thesis by (intro same_rows_advance) auto
  next
    case 2
    then have row: "at_row r w t \<longleftrightarrow> at_row r w s \<or> r = wr_request_id req \<and> w = pending_row req" for r w
      by (cases "r = wr_request_id req") (auto simp: map_add_def split: option.splits)
    have "ws_blind_signature (pending_row req) = None" by (simp add: pending_row_def)
    with assms(2,5) row have "pending_signable R keys t" by (auto simp: pending_signable_def)
    moreover have "\<exists>w'. at_row r w' t \<and> row_keeps R keys w w'" if "at_row r w s" for r w
      using row that row_keeps_refl by blast
    ultimately show ?thesis using b by (simp add: advances_def)
  qed
qed

lemma finalize_pc_ok:
  assumes "at_row (wr_request_id req) w s" and "ws_state w = as_str Pending" and "pending_signable R keys s"
    and "ws_denomination_cents w = uint d" and "ws_blinded_message w = bm"
  shows "pc_ok R keys s req (finalize_pc R keys a d bm)"
proof -
  have w: "ws_blind_signature w = None" "signs R keys d bm"
    using assms unfolding pending_signable_def by (metis word_of_int_uint)+
  show ?thesis
  proof (cases "key_get keys d SCHEME_ID_RSA_DETERMINISTIC")
    case (Some kp)
    with w(2) obtain sig where "sign_blinded R (kp_sk kp) bm = Inr sig" "signature_of R keys d bm = Some sig"
      by (auto simp: signs_def signature_of_def split: sum.splits)
    with Some assms(1,2,4,5) w(1) show ?thesis by (auto simp: finalize_pc_def)
  qed (simp add: finalize_pc_def)
qed

lemma resume_pc_ok:
  assumes "at_row (wr_request_id req) w s" and "pending_signable R keys s"
    and "ws_state w = as_str (rec_state rcd)" "ws_denomination_cents w = uint (rec_denomination_cents rcd)"
    "ws_blinded_message w = rec_blinded_message rcd" "ws_blind_signature w = rec_blind_signature rcd"
  shows "pc_ok R keys s req (resume_pc R keys (wr_request_id req) rcd)"
  using assms finalize_pc_ok [OF assms(1) _ assms(2,4,5)]
  by (cases "rec_state rcd"; cases "rec_blind_signature rcd") (auto simp: resume_pc_def)

abbreviation loaded_as :: "string \<Rightarrow> WithdrawalRecord \<Rightarrow> 'x bank_db_scheme \<Rightarrow> bool" where
  "loaded_as r rcd s \<equiv> \<exists>w. at_row r w s \<and> ws_state w = as_str (rec_state rcd) \<and>
     ws_denomination_cents w = uint (rec_denomination_cents rcd) \<and> ws_account_id w = rec_account_id rcd \<and>
     ws_blinded_message w = rec_blinded_message rcd \<and> ws_blind_signature w = rec_blind_signature rcd"

lemma hoare_load_same:
  assumes "bank_wf s"
  shows "hoare (same_tables s) (load_record r)
    (\<lambda>found t. same_tables s t \<and> (\<forall>rcd. found = Some rcd \<longrightarrow> loaded_as r rcd t)) (\<lambda>_. same_tables s)"
proof -
  have keep: "keeps (same_tables s) (load_record r)"
    unfolding load_record_def by (intro wp fault_free_same)
  have books: "booked (money s) s t" if "same_tables s t" for t
    using same_tablesD [OF that] assms by (auto simp: booked_def evolves_def)
  show ?thesis
  proof (rule hoareI)
    fix t found t'
    assume t: "same_tables s t" and run: "load_record r t = (Inr found, t')"
    from hoare_Inr [OF hoare_load_record books [OF t] run] keepsD [OF keep t run]
    show "same_tables s t' \<and> (\<forall>rcd. found = Some rcd \<longrightarrow> loaded_as r rcd t')" by blast
  next
    fix t e t'
    assume "same_tables s t" and "load_record r t = (Inl e, t')"
    then show "same_tables s t'" by (rule keepsD [OF keep])
  qed
qed

text \<open>A round trip by one task is progress for every other task, and keeps its own assertion.\<close>

abbreviation step_ok ::
  "('sk, 'pk, 'br) brsa \<Rightarrow> ('sk, 'pk) KeyStore \<Rightarrow> WithdrawRequest \<Rightarrow> 'x bank_db_scheme
   \<Rightarrow> withdraw_pc \<times> 'x bank_db_scheme \<Rightarrow> bool" where
  "step_ok R keys req s p \<equiv> advances R keys s (snd p) \<and> pc_ok R keys (snd p) req (fst p)"

lemma load_step_ok:
  assumes wf: "bank_wf s" and pend: "pending_signable R keys s"
  shows "step_ok R keys req s (withdraw_step R keys req At_Load s)"
proof -
  have quiet: "advances R keys s t" if "same_tables s t" for t
    using advances_refl [OF wf pend] same_tables_conc(1) [OF that] by blast
  obtain pc' s' where st: "step_to (load_record (wr_request_id req)) (loaded_pc R keys req) s = (pc', s')" by fastforce
  from hoare_load_same [OF wf] same_tables_refl st have "step_ok R keys req s (pc', s')"
  proof (cases rule: step_to_hoare)
    case (ok found)
    then have adv: "advances R keys s s'" by (blast intro: quiet)
    then have "pending_signable R keys s'" by (simp add: advances_def)
    with ok have "pc_ok R keys s' req pc'"
      by (cases found) (auto simp: loaded_pc_def intro: resume_pc_ok)
    with adv show ?thesis by simp
  qed (auto intro: quiet)
  with st show ?thesis by simp
qed

lemma debit_step_ok:
  assumes wf: "bank_wf s" and pend: "pending_signable R keys s"
    and req: "signs R keys (wr_denomination_cents req) (wr_blinded_message req)"
  shows "step_ok R keys req s (withdraw_step R keys req At_Debit s)"
proof -
  obtain pc' s' where st: "step_to (debit_and_record_pending req) (\<lambda>_. finalize_pc R keys (wr_account_id req)
      (wr_denomination_cents req) (wr_blinded_message req)) s = (pc', s')" by fastforce
  have P: "booked (money s) s s \<and> debited_rows req s s" using wf by (simp add: booked_def debited_rows_def)
  obtain r t where r: "debit_and_record_pending req s = (r, t)" by fastforce
  note adv = debited_advances [OF wf pend _ _ req]
  have a: "advances R keys s t"
    using keepsD [OF keeps_debited conjunct2 [OF P] r] hoare_Inr [OF hoare_debit conjunct1 [OF P]]
      hoare_Inl [OF hoare_debit conjunct1 [OF P]] r by (cases r) (auto intro: adv)
  then have pt: "pending_signable R keys t" by (simp add: advances_def)
  show ?thesis
  proof (cases r)
    case (Inr u)
    with r hoare_Inr [OF hoare_debit conjunct1 [OF P]] have "at_row (wr_request_id req) (pending_row req) t" by blast
    with r Inr a finalize_pc_ok [OF this _ pt] show ?thesis by (simp add: step_to_def)
  qed (use r a in \<open>simp add: step_to_def\<close>)
qed

lemma update_step_ok:
  assumes wf: "bank_wf s" and pend: "pending_signable R keys s" and w: "at_row (wr_request_id req) w s"
    and g: "row_keeps R keys w (g w)" "withdrawal_ok (accounts s) (g w)" "ws_state (g w) \<noteq> as_str Pending"
    and m: "hoare (same_tables s) m (\<lambda>_. same_tables (updated (wr_request_id req) g s))
      (\<lambda>_ t. same_tables s t \<or> same_tables (updated (wr_request_id req) g s) t)"
    and nxt: "pc_ok R keys (updated (wr_request_id req) g s) req pc"
  shows "step_ok R keys req s (step_to m (\<lambda>_. pc) s)"
proof -
  note adv = update_advances [where g = g, OF wf pend w g]
  obtain pc' s' where st: "step_to m (\<lambda>_. pc) s = (pc', s')" by fastforce
  from m same_tables_refl st have "step_ok R keys req s (pc', s')"
  proof (cases rule: step_to_hoare)
    case (ok a)
    with adv nxt show ?thesis by (simp add: same_tables_conc [OF ok(2)])
  next
    case (err e)
    with adv advances_refl [OF wf pend] show ?thesis by (auto simp: same_tables_conc)
  qed
  with st show ?thesis by simp
qed

lemma withdraw_step_ok:
  assumes wf: "bank_wf s" and pend: "pending_signable R keys s" and pc: "pc_ok R keys s req pc"
    and req: "signs R keys (wr_denomination_cents req) (wr_blinded_message req)"
  shows "step_ok R keys req s (withdraw_step R keys req pc s)"
proof (cases pc)
  case At_Load
  with load_step_ok [OF wf pend] show ?thesis by blast
next
  case At_Debit
  with debit_step_ok [OF wf pend req] show ?thesis by blast
next
  case (At_Signed sig)
  let ?g = "\<lambda>w. w\<lparr>ws_state := as_str Signed, ws_blind_signature := Some sig\<rparr>"
  from pc At_Signed obtain w where w: "at_row (wr_request_id req) w s" "ws_state w \<noteq> as_str Compensated"
    "row_signature R keys w = Some sig" "ws_blind_signature w = None \<or> ws_blind_signature w = Some sig" by auto
  then have keep: "row_keeps R keys w (?g w)" by (auto simp: row_keeps_def)
  show ?thesis
    unfolding At_Signed withdraw_step.simps write_signed_def
    by (rule update_step_ok [where g = ?g, OF wf pend w(1) keep withdrawal_state_ok(1) [OF wf_row [OF wf w(1)]] _ hoare_update_run])
      (use w(1) in \<open>simp_all add: select_update_row\<close>)
next
  case (At_Completed sig)
  let ?g = "\<lambda>w. w\<lparr>ws_state := as_str Completed\<rparr>"
  from pc At_Completed obtain w where w: "at_row (wr_request_id req) w s" "ws_state w \<noteq> as_str Compensated"
    "ws_blind_signature w = Some sig" by auto
  then have keep: "row_keeps R keys w (?g w)" by (simp add: row_keeps_def)
  show ?thesis
    unfolding At_Completed withdraw_step.simps
    by (rule update_step_ok [where g = ?g, OF wf pend w(1) keep withdrawal_state_ok(2) [OF wf_row [OF wf w(1)]] _ hoare_set_state_run])
      (use w in \<open>simp_all add: select_update_row\<close>)
next
  case (At_Done r)
  with pc advances_refl [OF wf pend] show ?thesis by simp
qed (use pc in simp)

subsection \<open>Every interleaving\<close>

text \<open>The invariant of the concurrent bank, over what it started from.\<close>

abbreviation can_sign :: "('sk, 'pk, 'br) brsa \<Rightarrow> ('sk, 'pk) KeyStore \<Rightarrow> WithdrawRequest \<Rightarrow> bool" where
  "can_sign R keys req \<equiv> signs R keys (wr_denomination_cents req) (wr_blinded_message req)"

definition conc_ok ::
  "('sk, 'pk, 'br) brsa \<Rightarrow> ('sk, 'pk) KeyStore \<Rightarrow> 'x bank_db_scheme \<Rightarrow> 'x bank_db_scheme \<times> tasks \<Rightarrow> bool" where
  "conc_ok R keys h c \<longleftrightarrow> advances R keys h (fst c) \<and>
     (\<forall>(req, pc)\<in>set (snd c). can_sign R keys req \<and> pc_ok R keys (fst c) req pc)"

lemma conc_ok_others:
  assumes "conc_ok R keys h (s, ts)" and "advances R keys s s'" and "set ts' \<subseteq> set ts"
  shows "conc_ok R keys h (s', ts')"
proof -
  have "can_sign R keys req \<and> pc_ok R keys s' req pc" if "(req, pc) \<in> set ts'" for req pc
    using assms that pc_ok_stable [OF _ assms(2)] by (fastforce simp: conc_ok_def)
  with assms(1,2) show ?thesis by (auto simp: conc_ok_def intro: advances_trans)
qed

lemma set_take_drop: "set (take i xs @ drop j xs) \<subseteq> set xs"
  by (auto dest: in_set_takeD in_set_dropD)

lemma keeps_rows:
  "keeps (\<lambda>s. withdraw_states s = x) (commit_deposit q)" "keeps (\<lambda>s. withdraw_states s = x) (create_account a v)"
  unfolding commit_deposit_def Let_def create_account_def bind_of_result
  by (intro wp; auto simp: fault_free_def add_balance_frame insert_spent_def insert_deposit_def insert_account_def
      split: prod.splits if_splits)+

lemma deposit_advances:
  assumes "bank_wf s" and "pending_signable R keys s" and "commit_deposit q s = (r, s')"
  shows "advances R keys s s'"
  using booked_run [OF keeps_commit_deposit assms(1,3)] keepsD [OF keeps_rows(1) refl assms(3)] assms(2)
  by (intro same_rows_advance) (auto simp: evolves_def)

lemma open_advances:
  assumes "bank_wf s" and "pending_signable R keys s" and "create_account a v s = (r, s')"
  shows "advances R keys s s'"
  using create_account_books [OF assms(1,3)] keepsD [OF keeps_rows(2) refl assms(3)] assms(2)
  by (intro same_rows_advance) (auto simp: evolves_def credit_def)

lemma conc_ok_wf: "conc_ok R keys h (s, ts) \<Longrightarrow> bank_wf s" "conc_ok R keys h (s, ts) \<Longrightarrow> pending_signable R keys s"
  by (simp_all add: conc_ok_def advances_def)

lemma conc_ok_task:
  assumes "conc_ok R keys h (s, ts)" and "can_sign R keys req" and "pc_ok R keys s req pc"
  shows "conc_ok R keys h (s, ts[i := (req, pc)])"
  using assms set_update_subset_insert [of ts i "(req, pc)"] by (fastforce simp: conc_ok_def)

lemma conc_step_ok:
  assumes "conc_step R keys (can_sign R keys) c c'" and "conc_ok R keys h c"
  shows "conc_ok R keys h c'"
  using assms
proof (cases rule: conc_step.cases)
  case (conc_arrive req s ts)
  with assms(2) show ?thesis by (auto simp: conc_ok_def)
next
  case (conc_run i ts req pc s pc' s')
  with assms(2) have ok: "conc_ok R keys h (s, ts)" by simp
  have task: "can_sign R keys req" "pc_ok R keys s req pc"
    using ok conc_run(3,4) nth_mem [of i ts] by (auto simp: conc_ok_def)
  from withdraw_step_ok [OF conc_ok_wf [OF ok] task(2,1)] conc_run(5)
  have "advances R keys s s'" "pc_ok R keys s' req pc'" by simp_all
  from conc_ok_task [OF conc_ok_others [OF ok this(1) subset_refl] task(1) this(2)] conc_run(2) show ?thesis by simp
next
  case (conc_cancel s ts i)
  with assms(2) have ok: "conc_ok R keys h (s, ts)" by simp
  from conc_ok_others [OF ok advances_refl [OF conc_ok_wf [OF ok]] set_take_drop] conc_cancel(2) show ?thesis by simp
next
  case (conc_deposit q s out s' ts)
  with assms(2) have ok: "conc_ok R keys h (s, ts)" by simp
  from conc_ok_others [OF ok deposit_advances [OF conc_ok_wf [OF ok] conc_deposit(3)] subset_refl] conc_deposit(2)
  show ?thesis by simp
next
  case (conc_open a v s bal s' ts)
  with assms(2) have ok: "conc_ok R keys h (s, ts)" by simp
  from conc_ok_others [OF ok open_advances [OF conc_ok_wf [OF ok] conc_open(3)] subset_refl] conc_open(2)
  show ?thesis by simp
next
  case (conc_faults s ts fs)
  with assms(2) show ?thesis by (simp add: conc_ok_def)
qed

interpretation conc: machine "\<lambda>c. c = (s0, []) \<and> bank_wf s0 \<and> pending_signable R keys s0"
    "conc_step R keys (can_sign R keys)" "conc_ok R keys s0"
  for R keys and s0 :: "'x bank_db_scheme"
proof
  show "conc_ok R keys s0 c" if "c = (s0, []) \<and> bank_wf s0 \<and> pending_signable R keys s0" for c :: "'x bank_db_scheme \<times> tasks"
    using that by (simp add: conc_ok_def advances_refl)
qed (rule conc_step_ok)

text \<open>
  C5: withdrawals may interleave at every round trip. Start from a well-formed bank whose pending
  records the keys can sign. Let any number of withdrawals arrive, under any request ids, run one
  round trip at a time in any order, be cancelled at any point, with deposits and new accounts in
  between and any faults of the database, and suppose that no signature asked for fails. Then the
  tables stay well-formed, the books of every set of accounts that existed are unchanged, so each
  request id has been debited at most once; every task that answered has the signature in its
  record, which is not refunded; and two answers under one request id are the same.
\<close>

theorem concurrent_withdrawals_safe:
  assumes "bank_wf s" and "pending_signable R keys s"
    and "steps (conc_step R keys (\<lambda>req. signs R keys (wr_denomination_cents req) (wr_blinded_message req))) (s, []) (t, ts)"
  shows "bank_wf t \<and>
    (\<forall>P. (\<forall>a. P a \<longrightarrow> map_of (accounts s) a \<noteq> None) \<longrightarrow> money t P = money s P) \<and>
    (\<forall>req resp. (req, At_Done (Inr resp)) \<in> set ts \<longrightarrow>
       (\<exists>w. at_row (wr_request_id req) w t \<and> ws_state w \<noteq> as_str Compensated \<and>
            ws_blind_signature w = Some (blind_signature resp))) \<and>
    (\<forall>req1 req2 resp1 resp2. (req1, At_Done (Inr resp1)) \<in> set ts \<longrightarrow> (req2, At_Done (Inr resp2)) \<in> set ts \<longrightarrow>
       wr_request_id req1 = wr_request_id req2 \<longrightarrow> resp1 = resp2)"
proof -
  have "conc_ok R keys s (t, ts)" using conc.reachable_inv [OF _ assms(3)] assms(1,2) by simp
  then have adv: "advances R keys s t" and
    tasks: "(req, At_Done (Inr resp)) \<in> set ts \<Longrightarrow> pc_ok R keys t req (At_Done (Inr resp))" for req resp
    by (auto simp: conc_ok_def)
  have "resp1 = resp2" if "(req1, At_Done (Inr resp1)) \<in> set ts" "(req2, At_Done (Inr resp2)) \<in> set ts"
    "wr_request_id req1 = wr_request_id req2" for req1 req2 resp1 resp2
    using tasks [OF that(1)] tasks [OF that(2)] that(3) by auto
  with adv tasks show ?thesis by (auto simp: advances_def)
qed

section \<open>A failing signature and a concurrent retry\<close>

text \<open>
  Without faults, the round trips of a withdrawal that cannot be signed: the debit, what a second
  task for the same request sees, and the refund either of them makes.
\<close>

abbreviation refund_failed :: "WithdrawRequest \<Rightarrow> CoreError \<Rightarrow> withdraw_pc" where
  "refund_failed req e \<equiv> At_Done (Inl (WithdrawFailed (wr_request_id req) (core_error_to_string e)))"

definition debited :: "WithdrawRequest \<Rightarrow> 'x bank_db_scheme \<Rightarrow> 'x bank_db_scheme" where
  "debited req s = s\<lparr>
     accounts := snd (update_row (wr_account_id req) (\<lambda>b. b - uint (wr_denomination_cents req)) (accounts s)),
     withdraw_states := withdraw_states s @ [(wr_request_id req, pending_row req)]\<rparr>"

definition refunded :: "WithdrawRequest \<Rightarrow> 'x bank_db_scheme \<Rightarrow> 'x bank_db_scheme" where
  "refunded req s = s\<lparr>
     accounts := snd (update_row (wr_account_id req) (\<lambda>b. b + uint (wr_denomination_cents req)) (accounts s)),
     withdraw_states := snd (update_row (wr_request_id req) (\<lambda>w. w\<lparr>ws_state := as_str Compensated\<rparr>) (withdraw_states s))\<rparr>"

lemma unsigned_steps:
  fixes req :: WithdrawRequest
  defines "rid \<equiv> wr_request_id req" and "a \<equiv> wr_account_id req" and "d \<equiv> wr_denomination_cents req"
  assumes "faults s = []" and key: "key_get keys d SCHEME_ID_RSA_DETERMINISTIC = Some kp"
    and fails: "sign_blinded R (kp_sk kp) (wr_blinded_message req) = Inl e"
  shows "map_of (withdraw_states s) rid = None \<Longrightarrow> withdraw_step R keys req At_Load s = (At_Debit, s)"
    and "at_row rid (pending_row req) s \<Longrightarrow> withdraw_step R keys req At_Load s = (At_Refund a d e, s)"
    and "balances_ok s \<Longrightarrow> map_of (withdraw_states s) rid = None \<Longrightarrow> map_of (accounts s) a = Some b \<Longrightarrow>
      uint d \<le> b \<Longrightarrow> withdraw_step R keys req At_Debit s = (At_Refund a d e, debited req s)"
    and "map_of (accounts s) a = Some b \<Longrightarrow> 0 \<le> b \<Longrightarrow> b + uint d \<le> i64_max \<Longrightarrow>
      withdraw_step R keys req (At_Refund a d e) s = (refund_failed req e, refunded req s)"
proof -
  have fin: "finalize_pc R keys a d (wr_blinded_message req) = At_Refund a d e"
    using key fails by (simp add: finalize_pc_def)
  show "withdraw_step R keys req At_Load s = (At_Debit, s)" if "map_of (withdraw_states s) rid = None"
    using load_record_ok(1) [OF assms(4) that] key by (simp add: step_to_def loaded_pc_def rid_def d_def)
  show "withdraw_step R keys req At_Load s = (At_Refund a d e, s)" if "at_row rid (pending_row req) s"
    using load_record_ok(2) [OF assms(4) that, of Pending] fin
    by (simp add: step_to_def loaded_pc_def resume_pc_def rid_def a_def d_def)
  show "withdraw_step R keys req At_Debit s = (At_Refund a d e, debited req s)"
    if "balances_ok s" "map_of (withdraw_states s) rid = None" "map_of (accounts s) a = Some b" "uint d \<le> b"
  proof -
    have "b \<le> i64_max" using that(1,3) by (auto simp: balances_ok_def)
    with debit_ok [OF assms(4) that(1), of req] that(2-4) fin show ?thesis
      by (simp add: step_to_def debited_def rid_def a_def d_def)
  qed
  show "withdraw_step R keys req (At_Refund a d e) s = (refund_failed req e, refunded req s)"
    if "map_of (accounts s) a = Some b" "0 \<le> b" "b + uint d \<le> i64_max"
    using compensate_ok [OF assms(4) that, of "wr_request_id req"] by (simp add: step_to_def refunded_def a_def d_def)
qed

lemma steps_arrive:
  assumes "steps (conc_step R keys admit) c (s, ts)" and "admit req" and "ts' = ts @ [(req, At_Load)]"
  shows "steps (conc_step R keys admit) c (s, ts')"
  using steps_step [OF assms(1) conc_arrive [where admit = admit, OF assms(2)]] assms(3) by simp

lemma steps_run:
  assumes "steps (conc_step R keys admit) c (s, ts)" and "i < length ts" and "ts ! i = (req, pc)"
    and "withdraw_step R keys req pc s = (pc', s')" and "ts' = ts[i := (req, pc')]"
  shows "steps (conc_step R keys admit) c (s', ts')"
  using steps_step [OF assms(1) conc_run [OF assms(2-4)]] assms(5) by simp

lemma refunded_twice_money:
  assumes "keyed (accounts s)" and "map_of (accounts s) (wr_account_id req) = Some b"
    and "map_of (withdraw_states s) (wr_request_id req) = None"
  shows "money (refunded req (refunded req (debited req s))) =
    credit (money s) (wr_account_id req) (uint (wr_denomination_cents req))"
  using assms
  by (simp add: money_def credit_def fun_eq_iff refunded_def debited_def update_row_compose update_row_last
      sum_rows_update outstanding_def)

text \<open>
  A retry that runs beside its original is refunded twice when the signature fails. The
  original loads, debits and fails to sign; before it refunds, the retry loads the pending record,
  fails to sign as well and refunds; then the original refunds too. Both answer that the withdrawal
  failed, and the account ends with one denomination more than it started with, the books of
  every set of accounts with it raised by as much: \<open>compensate\<close> does not check that the record is
  still pending.
\<close>

lemma double_refund:
  fixes req :: WithdrawRequest
  defines "rid \<equiv> wr_request_id req" and "a \<equiv> wr_account_id req" and "d \<equiv> wr_denomination_cents req"
  assumes "bank_wf s" and "faults s = []" and "map_of (withdraw_states s) rid = None"
    and "map_of (accounts s) a = Some b" and "uint d \<le> b" and "b + uint d \<le> i64_max"
    and "key_get keys d SCHEME_ID_RSA_DETERMINISTIC = Some kp"
    and "sign_blinded R (kp_sk kp) (wr_blinded_message req) = Inl e"
  shows "\<exists>t. steps (conc_step R keys (\<lambda>_. True)) (s, [])
      (t, [(req, At_Done (Inl (WithdrawFailed rid (core_error_to_string e)))),
           (req, At_Done (Inl (WithdrawFailed rid (core_error_to_string e))))]) \<and>
    map_of (accounts t) a = Some (b + uint d) \<and> money t = credit (money s) a (uint d)"
proof -
  let ?step = "conc_step R keys (\<lambda>_. True)" and ?f = "At_Done (Inl (WithdrawFailed rid (core_error_to_string e)))" and ?r = "At_Refund a d e"
  define s1 s2 s3 where "s1 = debited req s" and "s2 = refunded req s1" and "s3 = refunded req s2"
  have wf: "balances_ok s" "keyed (accounts s)" "0 \<le> b" "b \<le> i64_max"
    using assms(4,7) by (auto simp: wf_defs)
  have f: "faults s1 = []" "faults s2 = []" using assms(5) by (simp_all add: s1_def s2_def debited_def refunded_def)
  have b: "map_of (accounts s1) a = Some (b - uint d)" "map_of (accounts s2) a = Some b"
    "map_of (accounts s3) a = Some (b + uint d)"
    using assms(7) by (simp_all add: s1_def s2_def s3_def debited_def refunded_def a_def d_def select_update_row)
  have row: "at_row rid (pending_row req) s1"
    using assms(6) by (simp add: s1_def debited_def rid_def map_add_def)
  note st = unsigned_steps [where req = req and keys = keys, folded rid_def a_def d_def, OF _ assms(10,11)]
  have "steps ?step (s, []) (s, [(req, At_Load), (req, At_Load)])"
    by (rule steps_arrive [OF steps_arrive [OF steps_refl]]) simp_all
  from steps_run [OF this, of 0, OF _ _ st(1) [OF assms(5,6)] refl]
  have "steps ?step (s, []) (s, [(req, At_Debit), (req, At_Load)])" by simp
  from steps_run [OF this, of 0, OF _ _ st(3) [OF assms(5) wf(1) assms(6-8)] refl]
  have "steps ?step (s, []) (s1, [(req, ?r), (req, At_Load)])" by (simp add: s1_def)
  from steps_run [OF this, of 1, OF _ _ st(2) [OF f(1) row] refl]
  have "steps ?step (s, []) (s1, [(req, ?r), (req, ?r)])" by simp
  from steps_run [OF this, of 1, OF _ _ st(4) [OF f(1) b(1)] refl] assms(8) wf(4)
  have "steps ?step (s, []) (s2, [(req, ?r), (req, ?f)])" by (simp add: s2_def)
  from steps_run [OF this, of 0, OF _ _ st(4) [OF f(2) b(2)] refl] wf(3) assms(9)
  have "steps ?step (s, []) (s3, [(req, ?f), (req, ?f)])" by (simp add: s3_def)
  moreover have "money s3 = credit (money s) a (uint d)"
    unfolding s1_def s2_def s3_def a_def d_def by (rule refunded_twice_money) (use assms(6,7) wf(2) in \<open>simp_all add: rid_def a_def\<close>)
  ultimately show ?thesis using b(3) by blast
qed

section \<open>Concrete runs\<close>

text \<open>A scheduler given by the tasks it picks, and its runs as steps.\<close>

fun run_schedule ::
  "('sk, 'pk, 'br) brsa \<Rightarrow> ('sk, 'pk) KeyStore \<Rightarrow> nat list \<Rightarrow> 'x bank_db_scheme \<times> tasks \<Rightarrow> 'x bank_db_scheme \<times> tasks" where
  "run_schedule R keys [] c = c"
| "run_schedule R keys (i # picks) (s, ts) =
     (if i < length ts
      then (case withdraw_step R keys (fst (ts ! i)) (snd (ts ! i)) s of
              (pc', s') \<Rightarrow> run_schedule R keys picks (s', ts[i := (fst (ts ! i), pc')]))
      else run_schedule R keys picks (s, ts))"

lemma run_schedule_steps:
  "steps (conc_step R keys admit) c c' \<Longrightarrow> steps (conc_step R keys admit) c (run_schedule R keys picks c')"
proof (induction picks arbitrary: c')
  case (Cons i picks)
  obtain s ts where c': "c' = (s, ts)" by fastforce
  obtain pc' s' where st: "withdraw_step R keys (fst (ts ! i)) (snd (ts ! i)) s = (pc', s')" by fastforce
  have "steps (conc_step R keys admit) c (s', ts[i := (fst (ts ! i), pc')])" if "i < length ts"
    using steps_run [OF Cons.prems [unfolded c'] that prod.collapse [symmetric] st refl] .
  with Cons c' st show ?case by simp
qed simp

text \<open>
  One request sent twice: the first debits, the second finds it pending; the second signs and
  completes, then the first writes the signature again.
\<close>

definition demo_race :: "bytes \<Rightarrow> nat list \<Rightarrow> bank_db \<times> tasks" where
  "demo_race bm picks = run_schedule demo_brsa demo_keys picks
     (demo_bank [], [(demo_withdraw bm, At_Load), (demo_withdraw bm, At_Load)])"

lemma demo_race_steps:
  "admit (demo_withdraw bm) \<Longrightarrow> steps (conc_step demo_brsa demo_keys admit) (demo_bank [], []) (demo_race bm picks)"
  unfolding demo_race_def
  by (rule run_schedule_steps, rule steps_arrive [OF steps_arrive [OF steps_refl]]) simp_all

theorem concurrent_withdrawals_safe_witness:
  "bank_wf (fst (demo_race [1, 2, 3, 4] [0, 0, 1, 1, 1, 0, 0])) \<and>
   money (fst (demo_race [1, 2, 3, 4] [0, 0, 1, 1, 1, 0, 0])) (\<lambda>a. a = ''alice'') = 100 \<and>
   map snd (snd (demo_race [1, 2, 3, 4] [0, 0, 1, 1, 1, 0, 0])) =
     [At_Done (Inr \<lparr>blind_signature = [7, 1, 2, 3, 4]\<rparr>), At_Done (Inr \<lparr>blind_signature = [7, 1, 2, 3, 4]\<rparr>)] \<and>
   map_of (accounts (fst (demo_race [1, 2, 3, 4] [0, 0, 1, 1, 1, 0, 0]))) ''alice'' = Some 92"
proof -
  let ?t = "demo_race [1, 2, 3, 4] [0, 0, 1, 1, 1, 0, 0]"
  have "can_sign demo_brsa demo_keys (demo_withdraw [1, 2, 3, 4])"
    by (simp add: signs_def signature_of_def demo_withdraw_def demo_keys_def key_get_def model_defs sign_blinded_def demo_brsa_def)
  from demo_race_steps [where admit = "can_sign demo_brsa demo_keys", OF this, of "[0, 0, 1, 1, 1, 0, 0]"]
  have st: "steps (conc_step demo_brsa demo_keys (can_sign demo_brsa demo_keys)) (demo_bank [], []) (fst ?t, snd ?t)" by simp
  have pend: "pending_signable demo_brsa demo_keys (demo_bank [])" by (simp add: pending_signable_def)
  have "money (demo_bank []) (\<lambda>a. a = ''alice'') = 100" by (simp add: money_def demo_bank_def empty_bank_def)
  with concurrent_withdrawals_safe [OF demo_bank_wf pend st]
  have "bank_wf (fst ?t) \<and> money (fst ?t) (\<lambda>a. a = ''alice'') = 100" by auto
  moreover have "map snd (snd ?t) = [At_Done (Inr \<lparr>blind_signature = [7, 1, 2, 3, 4]\<rparr>), At_Done (Inr \<lparr>blind_signature = [7, 1, 2, 3, 4]\<rparr>)]"
    by code_simp
  moreover have "map_of (accounts (fst ?t)) ''alice'' = Some 92" by code_simp
  ultimately show ?thesis by blast
qed

lemma double_refund_run:
  "\<exists>t. steps (conc_step demo_brsa demo_keys (\<lambda>_. True)) (demo_bank [], [])
      (t, [(demo_withdraw [1], At_Done (Inl (WithdrawFailed ''req-1'' (core_error_to_string (Signing ''short''))))),
           (demo_withdraw [1], At_Done (Inl (WithdrawFailed ''req-1'' (core_error_to_string (Signing ''short'')))))]) \<and>
    map_of (accounts t) ''alice'' = Some 108 \<and> money t = credit (money (demo_bank [])) ''alice'' 8"
  using double_refund [of "demo_bank []" "demo_withdraw [1]" 100 demo_keys "\<lparr>kp_pk = 7, kp_sk = 7\<rparr>" demo_brsa "Signing ''short''"]
  by (simp add: demo_withdraw_def demo_keys_def key_get_def model_defs sign_blinded_def demo_brsa_def)

end
