(* ===== verification/Registry_Store.thy ===== *)
theory Registry_Store
  imports Bank_Ledger "HOL-Library.Char_ord" "HOL-Library.List_Lexorder" "HOL-Library.Sublist"
begin

text \<open>
  The crate \<open>digicash-registry\<close>, its state and the operations of \<open>registry.rs\<close>: member banks,
  the shared store of spent serials with every submitted transcript, exposure caps, receivables
  and the nonce store; netting is in \<open>Registry_Settle\<close>. Definitions whose source name is also a
  name of the bank's carry the prefix \<open>registry\<close>.
\<close>

section \<open>Errors (\<open>error.rs\<close>)\<close>

datatype RegistryError =
    RegistryDb pg_error
  | RegistryPool
  | RegistryPoolBuild string
  | RegistrySqlx string
  | RegistryMigrate string
  | RegistryCa BankError
  | RegistryCore CoreError
  | RegistryValueRange string
  | MalformedMember string string
  | MemberExists string

section \<open>State\<close>

text \<open>
  The tables of the registry's schema and its nonce counter. The two append-only tables are lists
  in the order of their \<open>BIGSERIAL\<close> ids.
\<close>

record member_row =
  mb_pubkey :: bytes
  mb_is_admin :: bool

record first_row =
  first_bank_id :: string
  first_transcript :: string
  first_seen_at :: int

record transcript_row =
  tr_key :: "int \<times> int \<times> string"
  tr_bank_id :: string
  tr_transcript :: string
  tr_seen_at :: int

record claim_row =
  cr_issuing_bank_id :: string
  cr_depositing_bank_id :: string
  cr_net_amount_cents :: int
  cr_window_end :: int
  cr_created_at :: int

record registry_db = pg +
  members :: "(string, member_row) table"
  serials :: "(int \<times> int \<times> string, first_row) table"
  transcripts :: "transcript_row list"
  exposure_caps :: "(string \<times> string, int) table"
  receivables :: "(string \<times> string, int) table"
  settlement_claims :: "claim_row list"
  registry_nonces :: "(string, int) table"
  registry_nonce_ops :: u64

definition empty_registry :: registry_db where
  "empty_registry =
     \<lparr>faults = [], members = [], serials = [], transcripts = [], exposure_caps = [],
      receivables = [], settlement_claims = [], registry_nonces = [], registry_nonce_ops = 0\<rparr>"

section \<open>Numeric conversions\<close>

definition registry_to_i64 :: "u64 \<Rightarrow> string \<Rightarrow> RegistryError + int" where
  "registry_to_i64 value what =
     ok_or (RegistryValueRange (what @ '' '' @ u64_to_string value @ '' exceeds the i64 range''))
       (i64_try_from value)"

definition registry_to_u64 :: "int \<Rightarrow> string \<Rightarrow> RegistryError + u64" where
  "registry_to_u64 value what =
     ok_or (RegistryValueRange (what @ '' is negative: '' @ int_to_string value)) (u64_try_from value)"

lemma registry_to_i64_Inr [simp]: "registry_to_i64 v w = Inr i \<longleftrightarrow> i = uint v \<and> uint v \<le> i64_max"
  by (auto simp: registry_to_i64_def)

lemma registry_to_u64_Inr [simp]: "registry_to_u64 i w = Inr v \<longleftrightarrow> 0 \<le> i \<and> v = word_of_int i"
  by (auto simp: registry_to_u64_def)

section \<open>Members\<close>

definition insert_member :: "string \<Rightarrow> member_row \<Rightarrow> ('x registry_db_scheme, nat) stmt" where
  "insert_member bank_id row s =
     (case insert_row bank_id row (members s) of (n, t) \<Rightarrow> Inr (n, s\<lparr>members := t\<rparr>))"

definition register_member ::
  "('sgk, 'vk) ed25519 \<Rightarrow> string \<Rightarrow> 'vk IdentityPublicKey \<Rightarrow> bool
   \<Rightarrow> ('x registry_db_scheme, RegistryError, unit) op" where
  "register_member D bank_id public_key admin =
     (let pubkey = identity_to_bytes D public_key in
      bind_op (pool_get RegistryPool) (\<lambda>_.
      bind_op (execute RegistryDb (insert_member bank_id \<lparr>mb_pubkey = pubkey, mb_is_admin = admin\<rparr>)) (\<lambda>inserted.
        if inserted = 0 then fail (MemberExists bank_id) else ret ())))"

text \<open>
  \<open>ORDER BY\<close> on a text column follows the collation of the database, given by its sort key, with
  ties broken by the bytes.
\<close>

definition order_by :: "('a \<Rightarrow> 'c :: linorder) \<Rightarrow> ('r \<Rightarrow> 'a :: linorder) \<Rightarrow> 'r list \<Rightarrow> 'r list" where
  "order_by collation column rows = sort_key (\<lambda>r. (collation (column r), column r)) rows"

definition list_members ::
  "digests \<Rightarrow> (string \<Rightarrow> 'c :: linorder) \<Rightarrow> ('x registry_db_scheme, RegistryError, MemberInfo list) op" where
  "list_members H collation =
     bind_op (pool_get RegistryPool) (\<lambda>_.
     bind_op (query RegistryDb (\<lambda>s. order_by collation fst (members s))) (\<lambda>rows.
       ret (map (\<lambda>(bank_id, row). \<lparr>mi_bank_id = bank_id, mi_pubkey_hex = hex_encode H (mb_pubkey row),
              mi_is_admin = mb_is_admin row\<rparr>) rows)))"

definition member_pubkey ::
  "('sgk, 'vk) ed25519 \<Rightarrow> string \<Rightarrow> ('x registry_db_scheme, RegistryError, 'vk IdentityPublicKey option) op" where
  "member_pubkey D bank_id =
     bind_op (pool_get RegistryPool) (\<lambda>_.
     bind_op (query RegistryDb (\<lambda>s. map_option mb_pubkey (select_key (members s) bank_id))) (\<lambda>row.
       case row of
         Some b \<Rightarrow>
           if length b \<noteq> IDENTITY_PUBLIC_KEY_LEN
           then fail (MalformedMember bank_id
             (''key is '' @ nat_to_dec (length b) @ '' bytes, expected '' @ nat_to_dec IDENTITY_PUBLIC_KEY_LEN))
           else bind_op (of_result (map_err RegistryCore (identity_from_bytes D b))) (\<lambda>k. ret (Some k))
       | None \<Rightarrow> ret None))"

definition is_admin :: "string \<Rightarrow> ('x registry_db_scheme, RegistryError, bool) op" where
  "is_admin bank_id =
     bind_op (pool_get RegistryPool) (\<lambda>_.
     bind_op (query RegistryDb (\<lambda>s. map_option mb_is_admin (select_key (members s) bank_id))) (\<lambda>row.
       ret (case row of Some b \<Rightarrow> b | None \<Rightarrow> False)))"

section \<open>The shared spent-serial store\<close>

definition insert_transcript :: "transcript_row \<Rightarrow> ('x registry_db_scheme, nat) stmt" where
  "insert_transcript row s = Inr (1, s\<lparr>transcripts := transcripts s @ [row]\<rparr>)"

definition insert_serial :: "int \<times> int \<times> string \<Rightarrow> first_row \<Rightarrow> ('x registry_db_scheme, nat) stmt" where
  "insert_serial key row s =
     (case insert_row key row (serials s) of (n, t) \<Rightarrow> Inr (n, s\<lparr>serials := t\<rparr>))"

text \<open>\<open>INSERT ... ON CONFLICT DO UPDATE SET amount_cents = receivables.amount_cents + EXCLUDED.amount_cents\<close>.\<close>

definition add_receivable :: "string \<Rightarrow> string \<Rightarrow> int \<Rightarrow> ('x registry_db_scheme, nat) stmt" where
  "add_receivable issuing depositing d s =
     (if d < 0 then Inl (Check_Violation ''receivables_amount_cents_check'')
      else case select_key (receivables s) (issuing, depositing) of
        None \<Rightarrow> Inr (1, s\<lparr>receivables := snd (insert_row (issuing, depositing) d (receivables s))\<rparr>)
      | Some a \<Rightarrow>
          if \<not> is_i64 (a + d) then Inl Bigint_Out_Of_Range
          else if a + d < 0 then Inl (Check_Violation ''receivables_amount_cents_check'')
          else Inr (1, s\<lparr>receivables := snd (update_row (issuing, depositing) (\<lambda>a. a + d) (receivables s))\<rparr>))"

text \<open>
  \<open>SELECT ... FROM transcripts WHERE key ORDER BY seen_at, id\<close>: the rows are kept in the order of
  their ids and the sort is stable.
\<close>

definition transcripts_for :: "int \<times> int \<times> string \<Rightarrow> 'x registry_db_scheme \<Rightarrow> transcript_row list" where
  "transcripts_for key s = sort_key tr_seen_at (filter (\<lambda>t. tr_key t = key) (transcripts s))"

fun transcript_entries :: "transcript_row list \<Rightarrow> RegistryError + TranscriptEntry list" where
  "transcript_entries [] = Inr []"
| "transcript_entries (t # ts) =
     bind_result (registry_to_u64 (tr_seen_at t) ''seen_at'') (\<lambda>seen.
     bind_result (transcript_entries ts) (\<lambda>es.
       Inr (\<lparr>te_bank_id = tr_bank_id t, te_transcript = tr_transcript t, te_seen_at = seen\<rparr> # es)))"

text \<open>
  The body of the submission's transaction in two parts. First the reads that decide about the
  exposure cap, which take no lock; then the early return or the writes.
\<close>

definition submit_check :: "string \<Rightarrow> SerialSubmission \<Rightarrow> ('x registry_db_scheme, RegistryError, bool) op" where
  "submit_check depositing submission =
     (let issuing = ss_issuing_bank_id submission in
      bind_op (query RegistryDb (\<lambda>s. select_key (exposure_caps s) (issuing, depositing))) (\<lambda>cap.
        case cap of
          None \<Rightarrow> ret False
        | Some cap \<Rightarrow>
            bind_op (query RegistryDb (\<lambda>s. select_key (receivables s) (issuing, depositing))) (\<lambda>row.
              ret (cap \<le> (case row of Some a \<Rightarrow> a | None \<Rightarrow> 0)))))"

definition submit_write :: "string \<Rightarrow> SerialSubmission \<Rightarrow> int \<Rightarrow> int \<Rightarrow> bool
    \<Rightarrow> ('x registry_db_scheme, RegistryError, SerialResponse tx_end) op" where
  "submit_write depositing submission denom seen exceeded =
     (let issuing = ss_issuing_bank_id submission; serial_hex = ss_serial_hex submission;
          transcript = ss_transcript submission; scheme = uint (ss_scheme_id submission);
          key = (denom, scheme, serial_hex) in
      if exceeded
      then ret (Rollback \<lparr>sr_outcome = SerialExposureCapExceeded, sr_transcripts = []\<rparr>)
      else
        bind_op (execute RegistryDb (insert_transcript
          \<lparr>tr_key = key, tr_bank_id = depositing, tr_transcript = transcript, tr_seen_at = seen\<rparr>)) (\<lambda>_.
        bind_op (execute RegistryDb (insert_serial key
          \<lparr>first_bank_id = depositing, first_transcript = transcript, first_seen_at = seen\<rparr>)) (\<lambda>inserted.
        bind_op
          (if inserted = 1
           then bind_op (execute RegistryDb (add_receivable issuing depositing denom)) (\<lambda>_.
                  ret (SerialAccepted, []))
           else bind_op (query RegistryDb (transcripts_for key)) (\<lambda>rows.
                bind_op (of_result (transcript_entries rows)) (\<lambda>entries.
                  ret (SerialDoubleSpend, entries)))) (\<lambda>(outcome, entries).
          ret (Commit \<lparr>sr_outcome = outcome, sr_transcripts = entries\<rparr>)))))"

definition submit_serial ::
  "string \<Rightarrow> SerialSubmission \<Rightarrow> u64 \<Rightarrow> ('x registry_db_scheme, RegistryError, SerialResponse) op" where
  "submit_serial depositing submission now =
     bind_op (of_result (registry_to_i64 (ss_denomination_cents submission) ''denomination'')) (\<lambda>denom.
     bind_op (of_result (registry_to_i64 now ''timestamp'')) (\<lambda>seen.
     bind_op (pool_get RegistryPool) (\<lambda>_.
       transaction RegistryDb
         (bind_op (submit_check depositing submission) (submit_write depositing submission denom seen)))))"

text \<open>The same while other connections commit between the reads and the writes.\<close>

definition submit_serial_between :: "('x registry_db_scheme \<Rightarrow> 'x registry_db_scheme) \<Rightarrow> string \<Rightarrow> SerialSubmission
    \<Rightarrow> u64 \<Rightarrow> ('x registry_db_scheme, RegistryError, SerialResponse) op" where
  "submit_serial_between others depositing submission now =
     bind_op (of_result (registry_to_i64 (ss_denomination_cents submission) ''denomination'')) (\<lambda>denom.
     bind_op (of_result (registry_to_i64 now ''timestamp'')) (\<lambda>seen.
     bind_op (pool_get RegistryPool) (\<lambda>_.
       transaction_between RegistryDb others (submit_check depositing submission)
         (submit_write depositing submission denom seen))))"

section \<open>Exposure caps\<close>

definition upsert_cap :: "string \<Rightarrow> string \<Rightarrow> int \<Rightarrow> ('x registry_db_scheme, nat) stmt" where
  "upsert_cap issuing depositing cap s =
     (if cap < 0 then Inl (Check_Violation ''exposure_caps_cap_cents_check'')
      else case select_key (exposure_caps s) (issuing, depositing) of
        None \<Rightarrow> Inr (1, s\<lparr>exposure_caps := snd (insert_row (issuing, depositing) cap (exposure_caps s))\<rparr>)
      | Some _ \<Rightarrow> Inr (1, s\<lparr>exposure_caps := snd (update_row (issuing, depositing) (\<lambda>_. cap) (exposure_caps s))\<rparr>))"

definition set_cap :: "string \<Rightarrow> string \<Rightarrow> u64 \<Rightarrow> ('x registry_db_scheme, RegistryError, unit) op" where
  "set_cap issuing depositing cap_cents =
     bind_op (of_result (registry_to_i64 cap_cents ''cap'')) (\<lambda>cap.
     bind_op (pool_get RegistryPool) (\<lambda>_.
     bind_op (execute RegistryDb (upsert_cap issuing depositing cap)) (\<lambda>_. ret ())))"

fun cap_infos :: "((string \<times> string) \<times> int) list \<Rightarrow> RegistryError + CapInfo list" where
  "cap_infos [] = Inr []"
| "cap_infos (((issuing, depositing), cap) # rest) =
     bind_result (registry_to_u64 cap ''cap'') (\<lambda>cap_cents.
     bind_result (cap_infos rest) (\<lambda>infos.
       Inr (\<lparr>ci_issuing_bank_id = issuing, ci_depositing_bank_id = depositing, ci_cap_cents = cap_cents\<rparr> # infos)))"

definition list_caps ::
  "(string \<Rightarrow> 'c :: linorder) \<Rightarrow> ('x registry_db_scheme, RegistryError, CapInfo list) op" where
  "list_caps collation =
     bind_op (pool_get RegistryPool) (\<lambda>_.
     bind_op (query RegistryDb (\<lambda>s. order_by (\<lambda>(i, d). (collation i, i, collation d, d)) fst (exposure_caps s))) (\<lambda>rows.
       of_result (cap_infos rows)))"

section \<open>Nonces and start-up\<close>

definition REGISTRY_NONCE_PRUNE_INTERVAL :: u64 where
  "REGISTRY_NONCE_PRUNE_INTERVAL = 1024"

definition registry_record_nonce :: "string \<Rightarrow> int \<Rightarrow> int \<Rightarrow> ('x registry_db_scheme, nat) stmt" where
  "registry_record_nonce nonce expiry now s =
     (case upsert_nonce nonce expiry now (registry_nonces s) of (n, t) \<Rightarrow> Inr (n, s\<lparr>registry_nonces := t\<rparr>))"

definition registry_purge_nonces :: "int \<Rightarrow> ('x registry_db_scheme, unit) stmt" where
  "registry_purge_nonces now s = Inr ((), s\<lparr>registry_nonces := unexpired now (registry_nonces s)\<rparr>)"

definition registry_purge_expired_nonces :: "u64 \<Rightarrow> ('x registry_db_scheme, RegistryError, unit) op" where
  "registry_purge_expired_nonces now =
     bind_op (of_result (registry_to_i64 now ''nonce timestamp'')) (\<lambda>now.
     bind_op (pool_get RegistryPool) (\<lambda>_. execute RegistryDb (registry_purge_nonces now)))"

definition registry_fetch_add_nonce_ops :: "('x registry_db_scheme, RegistryError, u64) op" where
  "registry_fetch_add_nonce_ops s =
     (Inr (registry_nonce_ops s), s\<lparr>registry_nonce_ops := registry_nonce_ops s + 1\<rparr>)"

definition registry_check_and_record_nonce ::
  "string \<Rightarrow> u64 \<Rightarrow> u64 \<Rightarrow> ('x registry_db_scheme, RegistryError, bool) op" where
  "registry_check_and_record_nonce nonce now ttl_secs =
     bind_op (of_result (registry_to_i64 (u64_saturating_add now ttl_secs) ''nonce expiry'')) (\<lambda>expiry.
     bind_op (of_result (registry_to_i64 now ''nonce timestamp'')) (\<lambda>now_i.
     bind_op (pool_get RegistryPool) (\<lambda>_.
     bind_op (execute RegistryDb (registry_record_nonce nonce expiry now_i)) (\<lambda>affected.
     bind_op registry_fetch_add_nonce_ops (\<lambda>ops.
     bind_op (if ops mod REGISTRY_NONCE_PRUNE_INTERVAL = REGISTRY_NONCE_PRUNE_INTERVAL - 1
              then registry_purge_expired_nonces now else ret ()) (\<lambda>_.
       ret (affected = 1)))))))"

text \<open>
  Start-up: the migrations (which may fail, and change no row), the pool, an empty counter, and a
  purge of expired nonces.
\<close>

definition registry_connect ::
  "RegistryError + unit \<Rightarrow> RegistryError + unit \<Rightarrow> u64 \<Rightarrow> ('x registry_db_scheme, RegistryError, unit) op" where
  "registry_connect migrations pool now =
     bind_op (of_result migrations) (\<lambda>_.
     bind_op (of_result pool) (\<lambda>_.
     bind_op (\<lambda>s. (Inr (), s\<lparr>registry_nonce_ops := 0\<rparr>)) (\<lambda>_.
       registry_purge_expired_nonces now)))"

definition ping :: "('x registry_db_scheme, RegistryError, unit) op" where
  "ping = bind_op (pool_get RegistryPool) (\<lambda>_. query RegistryDb (\<lambda>_. ()))"

section \<open>What a submission does\<close>

text \<open>The receivable of a pair, and how it grows.\<close>

definition receivable_of :: "'x registry_db_scheme \<Rightarrow> string \<times> string \<Rightarrow> int" where
  "receivable_of s p = (case map_of (receivables s) p of Some a \<Rightarrow> a | None \<Rightarrow> 0)"

definition add_owed :: "string \<times> string \<Rightarrow> int \<Rightarrow> (string \<times> string, int) table \<Rightarrow> (string \<times> string, int) table" where
  "add_owed p d t = (case map_of t p of None \<Rightarrow> t @ [(p, d)] | Some _ \<Rightarrow> snd (update_row p (\<lambda>a. a + d) t))"

definition serial_key :: "SerialSubmission \<Rightarrow> int \<times> int \<times> string" where
  "serial_key sub = (uint (ss_denomination_cents sub), uint (ss_scheme_id sub), ss_serial_hex sub)"

definition transcript_of :: "string \<Rightarrow> SerialSubmission \<Rightarrow> u64 \<Rightarrow> transcript_row" where
  "transcript_of b sub now =
     \<lparr>tr_key = serial_key sub, tr_bank_id = b, tr_transcript = ss_transcript sub, tr_seen_at = uint now\<rparr>"

definition first_of :: "string \<Rightarrow> SerialSubmission \<Rightarrow> u64 \<Rightarrow> first_row" where
  "first_of b sub now =
     \<lparr>first_bank_id = b, first_transcript = ss_transcript sub, first_seen_at = uint now\<rparr>"

text \<open>The outcome the tables determine, and the tables after it.\<close>

definition over_cap :: "string \<Rightarrow> SerialSubmission \<Rightarrow> 'x registry_db_scheme \<Rightarrow> bool" where
  "over_cap b sub s =
     (case map_of (exposure_caps s) (ss_issuing_bank_id sub, b) of
        None \<Rightarrow> False
      | Some cap \<Rightarrow> cap \<le> receivable_of s (ss_issuing_bank_id sub, b))"

definition submit_outcome :: "string \<Rightarrow> SerialSubmission \<Rightarrow> 'x registry_db_scheme \<Rightarrow> SerialOutcome" where
  "submit_outcome b sub s =
     (if over_cap b sub s then SerialExposureCapExceeded
      else if map_of (serials s) (serial_key sub) \<noteq> None then SerialDoubleSpend
      else SerialAccepted)"

definition submitted :: "string \<Rightarrow> SerialSubmission \<Rightarrow> u64 \<Rightarrow> 'x registry_db_scheme \<Rightarrow> 'x registry_db_scheme" where
  "submitted b sub now s =
     (case submit_outcome b sub s of
        SerialExposureCapExceeded \<Rightarrow> s
      | SerialDoubleSpend \<Rightarrow> s\<lparr>transcripts := transcripts s @ [transcript_of b sub now]\<rparr>
      | SerialAccepted \<Rightarrow>
          s\<lparr>transcripts := transcripts s @ [transcript_of b sub now],
            serials := serials s @ [(serial_key sub, first_of b sub now)],
            receivables := add_owed (ss_issuing_bank_id sub, b) (uint (ss_denomination_cents sub)) (receivables s)\<rparr>)"

definition entry_of :: "transcript_row \<Rightarrow> TranscriptEntry" where
  "entry_of t = \<lparr>te_bank_id = tr_bank_id t, te_transcript = tr_transcript t, te_seen_at = word_of_int (tr_seen_at t)\<rparr>"

definition submit_reply :: "string \<Rightarrow> SerialSubmission \<Rightarrow> u64 \<Rightarrow> 'x registry_db_scheme \<Rightarrow> SerialResponse" where
  "submit_reply b sub now s =
     \<lparr>sr_outcome = submit_outcome b sub s,
      sr_transcripts =
        (if submit_outcome b sub s = SerialDoubleSpend
         then map entry_of (sort_key tr_seen_at
                (filter (\<lambda>t. tr_key t = serial_key sub) (transcripts s @ [transcript_of b sub now])))
         else [])\<rparr>"

text \<open>The only arithmetic that can fail: the receivable leaving \<open>BIGINT\<close>.\<close>

definition submit_fits :: "string \<Rightarrow> SerialSubmission \<Rightarrow> 'x registry_db_scheme \<Rightarrow> bool" where
  "submit_fits b sub s \<longleftrightarrow>
     (submit_outcome b sub s = SerialAccepted \<longrightarrow>
        receivable_of s (ss_issuing_bank_id sub, b) + uint (ss_denomination_cents sub) \<le> i64_max)"

lemma serial_folds:
  "(uint (ss_denomination_cents sub), uint (ss_scheme_id sub), ss_serial_hex sub) = serial_key sub"
  "\<lparr>tr_key = serial_key sub, tr_bank_id = b, tr_transcript = ss_transcript sub, tr_seen_at = uint now\<rparr> =
     transcript_of b sub now"
  "\<lparr>first_bank_id = b, first_transcript = ss_transcript sub, first_seen_at = uint now\<rparr> = first_of b sub now"
  by (simp_all add: serial_key_def transcript_of_def first_of_def)

lemma transcript_entries_eq:
  "transcript_entries ts = Inr es \<longleftrightarrow> (\<forall>t \<in> set ts. 0 \<le> tr_seen_at t) \<and> es = map entry_of ts"
  by (induction ts arbitrary: es) (auto simp: bind_result_Inr entry_of_def)

lemma add_receivable_Inr:
  assumes "add_receivable i b d s = Inr (n, s')"
  shows "s' = s\<lparr>receivables := add_owed (i, b) d (receivables s)\<rparr> \<and>
    (d \<le> i64_max \<longrightarrow> receivable_of s (i, b) + d \<le> i64_max)"
  using assms
  by (auto simp: add_receivable_def add_owed_def receivable_of_def insert_row_new is_i64_def split: option.splits if_splits)

lemma registry_same_simps [simp]:
  "receivable_of (s\<lparr>faults := fs\<rparr>) = receivable_of s"
  "over_cap b sub (s\<lparr>faults := fs\<rparr>) = over_cap b sub s"
  "submit_outcome b sub (s\<lparr>faults := fs\<rparr>) = submit_outcome b sub s"
proof -
  show o: "receivable_of (s\<lparr>faults := fs\<rparr>) = receivable_of s" by (simp add: receivable_of_def fun_eq_iff)
  show c: "over_cap b sub (s\<lparr>faults := fs\<rparr>) = over_cap b sub s" by (simp add: over_cap_def o split: option.split)
  show "submit_outcome b sub (s\<lparr>faults := fs\<rparr>) = submit_outcome b sub s" by (simp add: submit_outcome_def c)
qed

text \<open>The two parts of the transaction: the check answers what the tables say and changes nothing.\<close>

lemma hoare_submit_check:
  "hoare (same_tables h) (submit_check b sub) (\<lambda>x s. x = over_cap b sub h \<and> same_tables h s) (\<lambda>_ _. True)"
proof -
  let ?p = "(ss_issuing_bank_id sub, b)"
  have cap: "hoare (same_tables h) (query RegistryDb (\<lambda>s. select_key (exposure_caps s) ?p))
      (\<lambda>x s. x = map_of (exposure_caps h) ?p \<and> same_tables h s) (\<lambda>_ _. True)"
    by (rule hoare_weaken [OF hoare_query [where P = "same_tables h" and E = "\<lambda>_ _. True"]])
      (auto simp: fault_free_def dest: same_tablesD)
  have rec: "hoare (same_tables h) (query RegistryDb (\<lambda>s. select_key (receivables s) ?p))
      (\<lambda>x s. x = map_of (receivables h) ?p \<and> same_tables h s) (\<lambda>_ _. True)"
    by (rule hoare_weaken [OF hoare_query [where P = "same_tables h" and E = "\<lambda>_ _. True"]])
      (auto simp: fault_free_def dest: same_tablesD)
  show ?thesis
    unfolding submit_check_def Let_def
    apply (rule hoare_bind [OF cap], rule hoare_pure, rule hoare_option)
     apply (rule hoare_ret, simp add: over_cap_def)
    apply (rule hoare_bind [OF rec], rule hoare_ret)
    by (auto simp: over_cap_def receivable_of_def dest!: sym [of "Some _"])
qed

lemma keeps_submit_check: "keeps (same_tables h) (submit_check b sub)"
  unfolding submit_check_def Let_def by (intro wp fault_free_same)

text \<open>What the writes do, whatever the check saw before.\<close>

definition recorded :: "string \<Rightarrow> SerialSubmission \<Rightarrow> u64 \<Rightarrow> 'x registry_db_scheme \<Rightarrow> 'x registry_db_scheme" where
  "recorded b sub now s =
     (if map_of (serials s) (serial_key sub) \<noteq> None
      then s\<lparr>transcripts := transcripts s @ [transcript_of b sub now]\<rparr>
      else s\<lparr>transcripts := transcripts s @ [transcript_of b sub now],
             serials := serials s @ [(serial_key sub, first_of b sub now)],
             receivables := add_owed (ss_issuing_bank_id sub, b) (uint (ss_denomination_cents sub)) (receivables s)\<rparr>)"

definition recorded_reply :: "string \<Rightarrow> SerialSubmission \<Rightarrow> u64 \<Rightarrow> 'x registry_db_scheme \<Rightarrow> SerialResponse" where
  "recorded_reply b sub now s =
     (if map_of (serials s) (serial_key sub) \<noteq> None
      then \<lparr>sr_outcome = SerialDoubleSpend,
            sr_transcripts = map entry_of (sort_key tr_seen_at
              (filter (\<lambda>t. tr_key t = serial_key sub) (transcripts s @ [transcript_of b sub now])))\<rparr>
      else \<lparr>sr_outcome = SerialAccepted, sr_transcripts = []\<rparr>)"

definition record_fits :: "string \<Rightarrow> SerialSubmission \<Rightarrow> 'x registry_db_scheme \<Rightarrow> bool" where
  "record_fits b sub s \<longleftrightarrow>
     (map_of (serials s) (serial_key sub) = None \<longrightarrow>
        receivable_of s (ss_issuing_bank_id sub, b) + uint (ss_denomination_cents sub) \<le> i64_max)"

lemma submitted_recorded:
  "\<not> over_cap b sub s \<Longrightarrow> submitted b sub now s = recorded b sub now s"
  "\<not> over_cap b sub s \<Longrightarrow> submit_reply b sub now s = recorded_reply b sub now s"
  "\<not> over_cap b sub s \<Longrightarrow> submit_fits b sub s = record_fits b sub s"
  by (auto simp: submitted_def recorded_def submit_outcome_def submit_reply_def recorded_reply_def
      submit_fits_def record_fits_def)

lemma submitted_capped:
  "over_cap b sub s \<Longrightarrow> submitted b sub now s = s"
  "over_cap b sub s \<Longrightarrow> submit_reply b sub now s = \<lparr>sr_outcome = SerialExposureCapExceeded, sr_transcripts = []\<rparr>"
  "over_cap b sub s \<Longrightarrow> submit_fits b sub s"
  by (simp_all add: submitted_def submit_outcome_def submit_reply_def submit_fits_def)

lemma hoare_submit_write:
  assumes "uint (ss_denomination_cents sub) \<le> i64_max"
  shows "hoare (same_tables h) (submit_write b sub (uint (ss_denomination_cents sub)) (uint now) False)
    (\<lambda>x s. x = Commit (recorded_reply b sub now h) \<and> record_fits b sub h \<and> same_tables (recorded b sub now h) s) (\<lambda>_ _. True)"
proof -
  let ?i = "ss_issuing_bank_id sub" and ?k = "serial_key sub" and ?d = "uint (ss_denomination_cents sub)"
  let ?t = "transcript_of b sub now" and ?f = "first_of b sub now"
  let ?h1 = "h\<lparr>transcripts := transcripts h @ [?t]\<rparr>"
  let ?h2 = "?h1\<lparr>serials := serials h @ [(?k, ?f)]\<rparr>"
  have tr: "hoare (same_tables h) (execute RegistryDb (insert_transcript ?t)) (\<lambda>_. same_tables ?h1) (\<lambda>_ _. True)"
    by (rule hoare_execute) (auto simp: insert_transcript_def same_tables_def dest!: same_tablesD [unfolded same_tables_def])
  have ser: "hoare (same_tables ?h1) (execute RegistryDb (insert_serial ?k ?f))
      (\<lambda>n s. (n = 1) = (map_of (serials h) ?k = None) \<and> same_tables (if n = 1 then ?h2 else ?h1) s) (\<lambda>_ _. True)"
    by (rule hoare_execute, simp, cases "map_of (serials h) ?k")
      (auto simp: insert_serial_def insert_row_new insert_row_old same_tables_def split: prod.splits
        dest!: same_tablesD [unfolded same_tables_def])
  have add: "hoare (same_tables ?h2) (execute RegistryDb (add_receivable ?i b ?d))
      (\<lambda>_ s. receivable_of h (?i, b) + ?d \<le> i64_max \<and>
        same_tables (?h2\<lparr>receivables := add_owed (?i, b) ?d (receivables h)\<rparr>) s) (\<lambda>_ _. True)"
    by (rule hoare_execute) (use assms in \<open>auto simp: same_tables_def receivable_of_def dest!: add_receivable_Inr
        same_tablesD [unfolded same_tables_def]\<close>)
  have dbl: "hoare (same_tables ?h1) (query RegistryDb (transcripts_for ?k))
      (\<lambda>x s. x = transcripts_for ?k ?h1 \<and> same_tables ?h1 s) (\<lambda>_ _. True)"
    by (rule hoare_weaken [OF hoare_query [where P = "same_tables ?h1" and E = "\<lambda>_ _. True"]])
      (auto simp: fault_free_def transcripts_for_def dest: same_tablesD)
  let ?post = "\<lambda>x s. x = Commit (recorded_reply b sub now h) \<and> record_fits b sub h \<and> same_tables (recorded b sub now h) s"
  let ?commit = "\<lambda>(outcome, entries). ret (Commit \<lparr>sr_outcome = outcome, sr_transcripts = entries\<rparr>)"
  have new: "hoare (same_tables ?h2) (bind_op (bind_op (execute RegistryDb (add_receivable ?i b ?d)) (\<lambda>_.
      ret (SerialAccepted, []))) ?commit) ?post (\<lambda>_ _. True)" if "map_of (serials h) ?k = None"
    unfolding bind_op_assoc bind_op_unit prod.case
    by (rule hoare_bind [OF add], rule hoare_ret) (use that in \<open>simp add: recorded_reply_def record_fits_def recorded_def\<close>)
  have old: "hoare (same_tables ?h1) (bind_op (bind_op (query RegistryDb (transcripts_for ?k)) (\<lambda>rows.
      bind_op (of_result (transcript_entries rows)) (\<lambda>entries. ret (SerialDoubleSpend, entries)))) ?commit) ?post (\<lambda>_ _. True)"
    if "map_of (serials h) ?k \<noteq> None"
    unfolding bind_op_assoc bind_op_unit prod.case unfolding bind_of_result
    apply (rule hoare_bind [OF dbl], rule hoare_pure, rule hoare_sum)
     apply (rule hoare_fail, simp)
    by (rule hoare_ret)
      (use that in \<open>auto simp: transcript_entries_eq recorded_reply_def record_fits_def recorded_def transcripts_for_def\<close>)
  show ?thesis
    unfolding submit_write_def Let_def serial_folds if_False
    apply (rule hoare_bind [OF tr], rule hoare_bind [OF ser], rule hoare_pure)
    subgoal for _ n by (cases "n = 1") (simp_all add: new old del: bind_op_step)
    done
qed

text \<open>The writes as the transaction that starts once the check has answered.\<close>

lemma hoare_submit_tx:
  assumes "uint (ss_denomination_cents sub) \<le> i64_max" and "fault_free E"
    and "\<And>s. same_tables h s \<or> \<not> exceeded \<and> record_fits b sub h \<and> same_tables (recorded b sub now h) s \<Longrightarrow> E s"
  shows "hoare (same_tables h)
    (transaction RegistryDb (submit_write b sub (uint (ss_denomination_cents sub)) (uint now) exceeded))
    (\<lambda>resp s. if exceeded
       then resp = \<lparr>sr_outcome = SerialExposureCapExceeded, sr_transcripts = []\<rparr> \<and> same_tables h s
       else resp = recorded_reply b sub now h \<and> record_fits b sub h \<and> same_tables (recorded b sub now h) s) (\<lambda>_. E)"
proof (rule hoare_transaction_body)
  show "hoare (same_tables h) (submit_write b sub (uint (ss_denomination_cents sub)) (uint now) exceeded)
     (\<lambda>x s. case x of
        Commit resp \<Rightarrow> if exceeded
          then resp = \<lparr>sr_outcome = SerialExposureCapExceeded, sr_transcripts = []\<rparr> \<and> same_tables h s
          else resp = recorded_reply b sub now h \<and> record_fits b sub h \<and> same_tables (recorded b sub now h) s
      | Rollback resp \<Rightarrow> \<forall>s0. same_tables h s0 \<longrightarrow> (if exceeded
          then resp = \<lparr>sr_outcome = SerialExposureCapExceeded, sr_transcripts = []\<rparr> \<and> same_tables h s0
          else resp = recorded_reply b sub now h \<and> record_fits b sub h \<and> same_tables (recorded b sub now h) s0))
     (\<lambda>_ _. True)"
  proof (cases exceeded)
    case True
    show ?thesis unfolding submit_write_def Let_def eqTrueI [OF True] if_True by (rule hoare_ret) simp
  next
    case False
    then have "exceeded = False" by simp
    show ?thesis unfolding \<open>exceeded = False\<close> by (rule hoare_weaken [OF hoare_submit_write [OF assms(1)]]) auto
  qed
qed (use assms(2,3) in \<open>auto simp: fault_free_def split: if_splits\<close>)

text \<open>
  The whole submission under any faults: it answers what the tables determine and has done it, or
  it fails, and then it has done all of it or nothing.
\<close>

lemma submit_serial_alone: "submit_serial_between (\<lambda>s. s) = submit_serial"
  by (intro ext) (simp only: submit_serial_between_def submit_serial_def
      transaction_between_alone [OF keeps_submit_check, abs_def])

lemma hoare_submit_between:
  "hoare (same_tables h) (submit_serial_between others b sub now)
     (\<lambda>resp s. if over_cap b sub h
        then resp = \<lparr>sr_outcome = SerialExposureCapExceeded, sr_transcripts = []\<rparr> \<and> uint now \<le> i64_max \<and>
          same_tables (committed others h) s
        else resp = recorded_reply b sub now (committed others h) \<and> record_fits b sub (committed others h) \<and>
          uint now \<le> i64_max \<and> same_tables (recorded b sub now (committed others h)) s)
     (\<lambda>_ s. same_tables h s \<or> same_tables (committed others h) s \<or>
        \<not> over_cap b sub h \<and> record_fits b sub (committed others h) \<and> uint now \<le> i64_max \<and>
        same_tables (recorded b sub now (committed others h)) s)" (is "hoare _ _ ?Q ?E")
proof (cases "uint (ss_denomination_cents sub) \<le> i64_max \<and> uint now \<le> i64_max")
  case True
  then have i64: "registry_to_i64 (ss_denomination_cents sub) w = Inr (uint (ss_denomination_cents sub))"
    "registry_to_i64 now w = Inr (uint now)" for w by simp_all
  have pool: "hoare (same_tables h) (pool_get RegistryPool) (\<lambda>_. same_tables h) ?E"
    by (rule hoare_pool_get) simp_all
  have "hoare (same_tables h) (transaction_between RegistryDb others (submit_check b sub)
      (submit_write b sub (uint (ss_denomination_cents sub)) (uint now))) ?Q ?E"
  proof (rule hoare_transaction_between [OF hoare_submit_check])
    fix x
    assume x: "x = over_cap b sub h"
    show "hoare (same_tables (committed others h))
        (transaction RegistryDb (submit_write b sub (uint (ss_denomination_cents sub)) (uint now) x)) ?Q ?E"
      by (rule hoare_weaken [OF hoare_submit_tx [where E = "?E e" for e]])
        (use True x in \<open>auto simp: fault_free_def split: if_splits\<close>)
  qed simp
  then show ?thesis
    unfolding submit_serial_between_def i64 bind_of_Inr by (rule hoare_bind [OF pool])
qed (auto simp: submit_serial_between_def bind_of_result registry_to_i64_def i64_try_from_def hoare_def)

lemma hoare_submit_serial:
  "hoare (same_tables h) (submit_serial b sub now)
     (\<lambda>resp s. resp = submit_reply b sub now h \<and>
        submit_fits b sub h \<and> uint now \<le> i64_max \<and> same_tables (submitted b sub now h) s)
     (\<lambda>_ s. same_tables h s \<or> submit_fits b sub h \<and> uint now \<le> i64_max \<and> same_tables (submitted b sub now h) s)"
  unfolding submit_serial_alone [symmetric]
  by (rule hoare_weaken [OF hoare_submit_between [where others = "\<lambda>s. s"]])
    (auto simp: submitted_recorded submitted_capped split: if_splits)

section \<open>Well-formed registries\<close>

text \<open>
  What the schema and the code keep true: one row per key, caps and receivables are non-negative
  \<open>BIGINT\<close>s, claims are positive, and the serial store and the transcripts belong together: every
  transcript is of a recorded serial, and the first depositor of a serial is on the transcript list.
\<close>

definition amounts_ok :: "('k, int) table \<Rightarrow> bool" where
  "amounts_ok t \<longleftrightarrow> keyed t \<and> (\<forall>k a. map_of t k = Some a \<longrightarrow> 0 \<le> a \<and> a \<le> i64_max)"

definition transcript_of_first :: "int \<times> int \<times> string \<Rightarrow> first_row \<Rightarrow> transcript_row" where
  "transcript_of_first k f =
     \<lparr>tr_key = k, tr_bank_id = first_bank_id f, tr_transcript = first_transcript f, tr_seen_at = first_seen_at f\<rparr>"

definition serials_ok :: "'x registry_db_scheme \<Rightarrow> bool" where
  "serials_ok s \<longleftrightarrow> keyed (serials s) \<and>
     (\<forall>t \<in> set (transcripts s). 0 \<le> tr_seen_at t \<and> tr_seen_at t \<le> i64_max \<and> map_of (serials s) (tr_key t) \<noteq> None) \<and>
     (\<forall>k f. map_of (serials s) k = Some f \<longrightarrow> transcript_of_first k f \<in> set (transcripts s))"

definition claims_ok :: "'x registry_db_scheme \<Rightarrow> bool" where
  "claims_ok s \<longleftrightarrow> (\<forall>c \<in> set (settlement_claims s). 0 < cr_net_amount_cents c \<and> cr_net_amount_cents c \<le> i64_max)"

definition registry_wf :: "'x registry_db_scheme \<Rightarrow> bool" where
  "registry_wf s \<longleftrightarrow> keyed (members s) \<and> keyed (registry_nonces s) \<and> serials_ok s \<and>
     amounts_ok (exposure_caps s) \<and> amounts_ok (receivables s) \<and> claims_ok s"

lemmas registry_wf_defs = registry_wf_def serials_ok_def amounts_ok_def claims_ok_def

text \<open>
  The registry's records only grow: no row of the members, the spent serials, the transcripts or the
  settlement claims is changed or deleted. The other tables are not records and do change: a cap is
  overwritten by the next \<open>set_cap\<close>, settlement deletes the receivables, nonces expire.
\<close>

definition registry_evolves :: "'x registry_db_scheme \<Rightarrow> 'x registry_db_scheme \<Rightarrow> bool" where
  "registry_evolves h s \<longleftrightarrow>
     map_of (members h) \<subseteq>\<^sub>m map_of (members s) \<and> map_of (serials h) \<subseteq>\<^sub>m map_of (serials s) \<and>
     prefix (transcripts h) (transcripts s) \<and> prefix (settlement_claims h) (settlement_claims s)"

lemma registry_evolves_refl [simp, intro]: "registry_evolves s s"
  by (simp add: registry_evolves_def)

lemma registry_evolves_trans: "registry_evolves s t \<Longrightarrow> registry_evolves t u \<Longrightarrow> registry_evolves s u"
  unfolding registry_evolves_def by (blast intro: map_le_trans prefix_order.trans)

text \<open>
  What a bank is owed on balance: its receivables less what others hold against it, and the same
  of the settlement claims.
\<close>

definition signed :: "string \<Rightarrow> string \<Rightarrow> string \<Rightarrow> int \<Rightarrow> int" where
  "signed b issuing depositing a = (if depositing = b then a else 0) - (if issuing = b then a else 0)"

definition position :: "'x registry_db_scheme \<Rightarrow> string \<Rightarrow> int" where
  "position s b =
     sum_rows (\<lambda>(i, d) a. signed b i d a) (receivables s) +
     (\<Sum>c \<leftarrow> settlement_claims s. signed b (cr_issuing_bank_id c) (cr_depositing_bank_id c) (cr_net_amount_cents c))"

lemma registry_fault_free [simp, intro]:
  "fault_free (registry_wf :: 'x registry_db_scheme \<Rightarrow> bool)"
  "fault_free (registry_evolves h :: 'x registry_db_scheme \<Rightarrow> bool)"
  "fault_free (position :: 'x registry_db_scheme \<Rightarrow> string \<Rightarrow> int)"
  by (simp_all add: fault_free_def registry_wf_defs registry_evolves_def position_def fun_eq_iff)

lemma registry_faults [simp]:
  "registry_wf (s\<lparr>faults := fs\<rparr>) = registry_wf s"
  "registry_evolves h (s\<lparr>faults := fs\<rparr>) = registry_evolves h s"
  "position (s\<lparr>faults := fs\<rparr>) = position s"
  using registry_fault_free unfolding fault_free_def by blast+

lemma signed_zero [simp]: "signed b i d 0 = 0" and signed_add: "signed b i d (x + y) = signed b i d x + signed b i d y"
  by (simp_all add: signed_def)

lemma sum_add_owed:
  assumes "keyed t"
  shows "sum_rows (\<lambda>(i, d) a. signed b i d a) (add_owed (i, d) x t) =
    sum_rows (\<lambda>(i, d) a. signed b i d a) t + signed b i d x"
  using assms by (auto simp: add_owed_def sum_rows_update signed_add split: option.split)

lemma add_owed_ok:
  assumes "amounts_ok t" and "0 \<le> x" and "(case map_of t p of Some a \<Rightarrow> a | None \<Rightarrow> 0) + x \<le> i64_max"
  shows "amounts_ok (add_owed p x t)"
proof (cases "map_of t p")
  case None
  with assms have "keyed (t @ [(p, x)])" by (auto simp: amounts_ok_def keyed_def map_of_eq_None_iff)
  with None assms show ?thesis by (auto simp: amounts_ok_def add_owed_def map_add_def split: option.splits if_splits)
next
  case (Some a)
  with assms show ?thesis by (auto simp: amounts_ok_def add_owed_def select_update_row split: if_splits)
qed

lemma map_of_snoc_new: "map_of t k = None \<Longrightarrow> map_of (t @ [(k, v)]) = (map_of t)(k \<mapsto> v)"
  by (auto simp: fun_eq_iff map_add_def split: option.split)

lemma serials_ok_transcript:
  assumes "serials_ok s" and "uint now \<le> i64_max" and "map_of (serials s) (serial_key sub) \<noteq> None"
  shows "serials_ok (s\<lparr>transcripts := transcripts s @ [transcript_of b sub now]\<rparr>)"
  using assms by (auto simp: serials_ok_def transcript_of_def)

lemma serials_ok_new:
  assumes "serials_ok s" and "uint now \<le> i64_max" and "map_of (serials s) (serial_key sub) = None"
  shows "serials_ok (s\<lparr>transcripts := transcripts s @ [transcript_of b sub now],
    serials := serials s @ [(serial_key sub, first_of b sub now)], receivables := r\<rparr>)"
proof -
  have "transcript_of_first (serial_key sub) (first_of b sub now) = transcript_of b sub now"
    by (simp add: transcript_of_first_def first_of_def transcript_of_def)
  moreover have "keyed (serials s @ [(serial_key sub, first_of b sub now)])"
    using assms by (auto simp: serials_ok_def keyed_def map_of_eq_None_iff)
  ultimately show ?thesis
    using assms by (auto simp: serials_ok_def map_of_snoc_new transcript_of_def simp del: map_of_append)
qed

lemma submitted_books:
  assumes "registry_wf s" and "submit_fits b sub s" and "uint now \<le> i64_max"
  shows "registry_wf (submitted b sub now s) \<and> registry_evolves s (submitted b sub now s) \<and>
    position (submitted b sub now s) c = position s c +
      (if submit_outcome b sub s = SerialAccepted
       then signed c (ss_issuing_bank_id sub) b (uint (ss_denomination_cents sub)) else 0)"
proof -
  let ?p = "(ss_issuing_bank_id sub, b)" and ?d = "uint (ss_denomination_cents sub)"
  consider (cap) "submit_outcome b sub s = SerialExposureCapExceeded"
    | (dbl) "submit_outcome b sub s = SerialDoubleSpend" "map_of (serials s) (serial_key sub) \<noteq> None"
    | (new) "submit_outcome b sub s = SerialAccepted" "map_of (serials s) (serial_key sub) = None"
    unfolding submit_outcome_def by (cases "over_cap b sub s"; cases "map_of (serials s) (serial_key sub)") auto
  then show ?thesis
  proof cases
    case cap
    with assms show ?thesis by (simp add: submitted_def)
  next
    case dbl
    with assms serials_ok_transcript [OF _ assms(3), of s sub b] show ?thesis
      by (simp add: submitted_def registry_wf_def claims_ok_def registry_evolves_def position_def)
  next
    case new
    have "amounts_ok (add_owed ?p ?d (receivables s))"
      using assms new(1) by (intro add_owed_ok) (auto simp: registry_wf_def submit_fits_def receivable_of_def)
    moreover have "keyed (receivables s)" using assms(1) by (simp add: registry_wf_defs)
    moreover have "map_of (serials s) \<subseteq>\<^sub>m map_of (serials s @ [(serial_key sub, first_of b sub now)])"
      using new(2) by (auto simp: map_le_def map_of_snoc_new)
    ultimately show ?thesis
      using assms new serials_ok_new [OF _ assms(3) new(2)]
      by (simp add: submitted_def registry_wf_def claims_ok_def registry_evolves_def position_def sum_add_owed)
  qed
qed

text \<open>A submission under any faults, taken apart.\<close>

lemma submit_serial_run:
  assumes "submit_serial b sub now s = (r, s')"
  shows "same_tables s s' \<and> (\<forall>resp. r = Inr resp \<longrightarrow> submitted b sub now s = s) \<or>
    submit_fits b sub s \<and> uint now \<le> i64_max \<and> same_tables (submitted b sub now s) s'"
  using hoare_Inr [OF hoare_submit_serial same_tables_refl, of b sub now s _ s']
    hoare_Inl [OF hoare_submit_serial same_tables_refl, of b sub now s _ s'] assms
  by (cases r) auto

lemma submit_serial_Inr:
  assumes "submit_serial b sub now s = (Inr resp, s')"
  shows "resp = submit_reply b sub now s" "submit_fits b sub s" "uint now \<le> i64_max"
    "same_tables (submitted b sub now s) s'"
  using hoare_Inr [OF hoare_submit_serial same_tables_refl assms] by auto

section \<open>The other operations\<close>

lemma registry_record_nonce_ok [simp]:
  "registry_record_nonce n e now s = Inr (fst (upsert_nonce n e now (registry_nonces s)),
     s\<lparr>registry_nonces := snd (upsert_nonce n e now (registry_nonces s))\<rparr>)"
  by (simp add: registry_record_nonce_def split: prod.splits)

lemma insert_member_ok [simp]:
  "insert_member b row s = Inr (fst (insert_row b row (members s)), s\<lparr>members := snd (insert_row b row (members s))\<rparr>)"
  by (simp add: insert_member_def split: prod.splits)

text \<open>The ledger of the registry: every table but the nonces.\<close>

definition registry_ledger :: "'x registry_db_scheme \<Rightarrow> (string, member_row) table \<times>
    (int \<times> int \<times> string, first_row) table \<times> transcript_row list \<times> (string \<times> string, int) table \<times>
    (string \<times> string, int) table \<times> claim_row list" where
  "registry_ledger s =
     (members s, serials s, transcripts s, exposure_caps s, receivables s, settlement_claims s)"

lemma registry_ledger_simps [simp]:
  "registry_ledger (s\<lparr>faults := fs\<rparr>) = registry_ledger s"
  "registry_ledger (s\<lparr>registry_nonces := t\<rparr>) = registry_ledger s"
  "registry_ledger (s\<lparr>registry_nonce_ops := k\<rparr>) = registry_ledger s"
  by (simp_all add: registry_ledger_def)

lemma registry_ledger_wf:
  "registry_ledger s' = registry_ledger s \<Longrightarrow> keyed (registry_nonces s') \<Longrightarrow> registry_wf s \<Longrightarrow>
   registry_wf s' \<and> registry_evolves s s' \<and> position s' = position s"
  by (auto simp: registry_ledger_def registry_wf_defs registry_evolves_def position_def fun_eq_iff)

abbreviation quiet :: "'x registry_db_scheme \<Rightarrow> 'x registry_db_scheme \<Rightarrow> bool" where
  "quiet h s \<equiv> registry_ledger s = registry_ledger h \<and> keyed (registry_nonces s)"

lemma fault_free_quiet [simp]: "fault_free (quiet h)"
  by (simp add: fault_free_def)

lemma keeps_registry_fetch_add:
  "(\<And>s k. I (s\<lparr>registry_nonce_ops := k\<rparr>) = I s) \<Longrightarrow> keeps I registry_fetch_add_nonce_ops"
  by (simp add: keeps_def registry_fetch_add_nonce_ops_def)

lemma keeps_quiet [wp]:
  "keeps (quiet h) (member_pubkey D b)" "keeps (quiet h) (is_admin b)"
  "keeps (quiet h) (list_members H collation)" "keeps (quiet h) (list_caps collation)" "keeps (quiet h) ping"
  "keeps (quiet h) (registry_purge_expired_nonces now)"
  "keeps (quiet h) (registry_check_and_record_nonce n now ttl)"
proof -
  show purge: "keeps (quiet h) (registry_purge_expired_nonces now)" for now
    unfolding registry_purge_expired_nonces_def
    by (intro wp fault_free_quiet) (auto simp: registry_purge_nonces_def unexpired_def)
  show "keeps (quiet h) (registry_check_and_record_nonce n now ttl)"
    unfolding registry_check_and_record_nonce_def
    by (intro wp fault_free_quiet purge keeps_registry_fetch_add) (auto simp: upsert_nonce_keyed)
qed (unfold member_pubkey_def is_admin_def list_members_def list_caps_def ping_def, (intro wp fault_free_quiet)+)

lemma registry_connect_quiet [wp]: "keeps (quiet h) (registry_connect migrations pool now)"
  unfolding registry_connect_def by (intro wp) (simp add: keeps_def)

lemma quiet_books:
  assumes "\<And>h. keeps (quiet h) m" and "registry_wf s" and "m s = (r, s')"
  shows "registry_wf s' \<and> registry_ledger s' = registry_ledger s \<and> registry_evolves s s' \<and> position s' = position s"
proof -
  have "quiet s s" using assms(2) by (simp add: registry_wf_def)
  from keepsD [OF assms(1) this assms(3)] registry_ledger_wf [OF _ _ assms(2), of s'] show ?thesis by blast
qed

text \<open>Registering a member: the row is there afterwards, or nothing changed.\<close>

lemma register_member_run:
  assumes "register_member D b pk adm s = (r, s')"
  shows "same_tables s s' \<or> map_of (members s) b = None \<and>
    same_tables (s\<lparr>members := members s @ [(b, \<lparr>mb_pubkey = identity_to_bytes D pk, mb_is_admin = adm\<rparr>)]\<rparr>) s'"
proof -
  let ?row = "\<lparr>mb_pubkey = identity_to_bytes D pk, mb_is_admin = adm\<rparr>"
  let ?J = "\<lambda>t. same_tables s t \<or> map_of (members s) b = None \<and>
      same_tables (s\<lparr>members := members s @ [(b, ?row)]\<rparr>) t"
  have "keeps ?J (register_member D b pk adm)"
    unfolding register_member_def Let_def
  proof (intro wp)
    fix t n t'
    assume "?J t" and st: "insert_member b ?row t = Inr (n, t')"
    then show "?J t'"
      by (cases "map_of (members t) b")
        (auto simp: insert_row_new insert_row_old same_tables_def dest!: same_tablesD [unfolded same_tables_def])
  qed (simp_all add: fault_free_def)
  from keepsD [OF this _ assms] show ?thesis by simp
qed

definition set_capped :: "string \<Rightarrow> string \<Rightarrow> int \<Rightarrow> 'x registry_db_scheme \<Rightarrow> 'x registry_db_scheme" where
  "set_capped i b cap s =
     s\<lparr>exposure_caps :=
        (case map_of (exposure_caps s) (i, b) of
           None \<Rightarrow> exposure_caps s @ [((i, b), cap)]
         | Some _ \<Rightarrow> snd (update_row (i, b) (\<lambda>_. cap) (exposure_caps s)))\<rparr>"

lemma update_row_const: "update_row k (\<lambda>_. v) (snd (update_row k (\<lambda>_. v) t)) = update_row k (\<lambda>_. v) t"
  by (simp add: update_row_def image_image split_def)

lemma set_cap_run:
  assumes "set_cap i b cap s = (r, s')"
  shows "same_tables s s' \<or> uint cap \<le> i64_max \<and> same_tables (set_capped i b (uint cap) s) s'"
proof (cases "uint cap \<le> i64_max")
  case True
  let ?J = "\<lambda>t. same_tables s t \<or> same_tables (set_capped i b (uint cap) s) t"
  have "upsert_cap i b (uint cap) t = Inr (1, set_capped i b (uint cap) t)" for t :: "'a registry_db_scheme"
    by (auto simp: upsert_cap_def set_capped_def insert_row_new split: option.split)
  moreover have "same_tables (set_capped i b (uint cap) s) (set_capped i b (uint cap) t)" if "?J t" for t
  proof (cases "map_of (exposure_caps s) (i, b)")
    case None
    have "update_row (i, b) (\<lambda>_. uint cap) (exposure_caps s @ [((i, b), uint cap)]) =
        (1, exposure_caps s @ [((i, b), uint cap)])"
      using update_row_absent [OF None] by (simp add: update_row_def)
    with None that show ?thesis
      by (auto simp: set_capped_def same_tables_def map_of_snoc_new simp del: map_of_append
          dest!: same_tablesD [unfolded same_tables_def])
  next
    case (Some c)
    with that show ?thesis
      by (auto simp: set_capped_def same_tables_def select_update_row update_row_const
          dest!: same_tablesD [unfolded same_tables_def])
  qed
  ultimately have "keeps ?J (set_cap i b cap)"
    unfolding set_cap_def bind_of_result by (intro wp) (auto simp: fault_free_def True)
  from keepsD [OF this _ assms] True show ?thesis by simp
next
  case False
  with assms show ?thesis by (auto simp: set_cap_def registry_to_i64_def i64_try_from_def)
qed

text \<open>How registration and caps act on well-formed registries.\<close>

lemma register_member_books:
  assumes "registry_wf s" and "register_member D b pk adm s = (r, s')"
  shows "registry_wf s' \<and> registry_evolves s s' \<and> position s' = position s \<and> registry_nonces s' = registry_nonces s"
  using register_member_run [OF assms(2)]
proof (elim disjE conjE)
  assume new: "map_of (members s) b = None"
    and s': "same_tables (s\<lparr>members := members s @ [(b, \<lparr>mb_pubkey = identity_to_bytes D pk, mb_is_admin = adm\<rparr>)]\<rparr>) s'"
  have "keyed (members s @ [(b, x)])" for x
    using assms(1) new by (auto simp: registry_wf_def keyed_def map_of_eq_None_iff)
  moreover have "map_of (members s) \<subseteq>\<^sub>m map_of (members s @ [(b, x)])" for x
    using new by (auto simp: map_le_def map_of_snoc_new simp del: map_of_append)
  ultimately show ?thesis
    using assms(1) same_tablesD [OF s']
    by (auto simp: registry_wf_def serials_ok_def claims_ok_def registry_evolves_def position_def fun_eq_iff)
qed (use assms(1) in \<open>auto dest!: same_tablesD\<close>)

lemma set_capped_ok:
  assumes "amounts_ok (exposure_caps s)" and "0 \<le> cap" and "cap \<le> i64_max"
  shows "amounts_ok (exposure_caps (set_capped i b cap s))"
proof (cases "map_of (exposure_caps s) (i, b)")
  case None
  then have "keyed (exposure_caps s @ [((i, b), cap)])"
    using assms by (auto simp: amounts_ok_def keyed_def map_of_eq_None_iff)
  with None assms show ?thesis
    by (auto simp: amounts_ok_def set_capped_def map_of_snoc_new simp del: map_of_append split: if_splits)
next
  case (Some c)
  with assms show ?thesis by (auto simp: amounts_ok_def set_capped_def select_update_row)
qed

lemma set_cap_books:
  assumes "registry_wf s" and "set_cap i b cap s = (r, s')"
  shows "registry_wf s' \<and> registry_evolves s s' \<and> position s' = position s \<and> registry_nonces s' = registry_nonces s"
  using set_cap_run [OF assms(2)]
proof (elim disjE conjE)
  assume cap: "uint cap \<le> i64_max" and s': "same_tables (set_capped i b (uint cap) s) s'"
  have "amounts_ok (exposure_caps (set_capped i b (uint cap) s))"
    using assms(1) cap by (intro set_capped_ok) (simp_all add: registry_wf_def)
  moreover have "members (set_capped i b (uint cap) s) = members s" "serials (set_capped i b (uint cap) s) = serials s"
    "transcripts (set_capped i b (uint cap) s) = transcripts s" "receivables (set_capped i b (uint cap) s) = receivables s"
    "settlement_claims (set_capped i b (uint cap) s) = settlement_claims s"
    "registry_nonces (set_capped i b (uint cap) s) = registry_nonces s" by (simp_all add: set_capped_def)
  ultimately show ?thesis
    using assms(1) same_tablesD [OF s']
    by (auto simp: registry_wf_def serials_ok_def claims_ok_def registry_evolves_def position_def fun_eq_iff)
qed (use assms(1) in \<open>auto dest!: same_tablesD\<close>)

lemma submit_serial_books:
  assumes "registry_wf s" and "submit_serial b sub now s = (r, s')"
  shows "registry_wf s' \<and> registry_evolves s s' \<and> registry_nonces s' = registry_nonces s"
  using submit_serial_run [OF assms(2)]
proof (elim disjE conjE)
  assume fit: "submit_fits b sub s" "uint now \<le> i64_max" and s': "same_tables (submitted b sub now s) s'"
  have "registry_nonces (submitted b sub now s) = registry_nonces s"
    by (simp add: submitted_def split: SerialOutcome.split)
  with submitted_books [OF assms(1) fit] same_tablesD [OF s'] show ?thesis by auto
qed (use assms(1) in \<open>auto dest!: same_tablesD\<close>)

subsection \<open>The nonce store honours the anti-replay contract\<close>

lemma registry_check_nonce_hoare:
  fixes n :: string and now ttl :: u64
  defines "U T \<equiv> upsert_nonce n (uint now + uint ttl) (uint now) T"
  shows "hoare (\<lambda>s. registry_nonces s = T) (registry_check_and_record_nonce n now ttl)
    (\<lambda>b s. b = (fst (U T) = 1) \<and> purged (uint now) (snd (U T)) (registry_nonces s))
    (\<lambda>_ s. registry_nonces s = T \<or> purged (uint now) (snd (U T)) (registry_nonces s))" (is "hoare ?P _ ?Q ?E")
proof (cases "uint (u64_saturating_add now ttl) \<le> i64_max \<and> uint now \<le> i64_max")
  case True
  then have i64: "registry_to_i64 (u64_saturating_add now ttl) w = Inr (uint now + uint ttl)"
    "registry_to_i64 now w = Inr (uint now)" for w by (auto simp: uint_saturating_add min_def split: if_splits)
  let ?R = "\<lambda>s. purged (uint now) (snd (U T)) (registry_nonces s)"
  have rec: "hoare ?P (execute RegistryDb (registry_record_nonce n (uint now + uint ttl) (uint now)))
      (\<lambda>k s. k = fst (U T) \<and> ?R s) ?E"
    by (rule hoare_execute) (auto simp: fault_free_def U_def)
  have pool: "hoare ?P (pool_get RegistryPool) (\<lambda>_. ?P) ?E"
    by (rule hoare_pool_get) (simp_all add: fault_free_def)
  have ops: "keeps ?R registry_fetch_add_nonce_ops" by (rule keeps_registry_fetch_add) simp
  have purge: "keeps ?R (if p then registry_purge_expired_nonces now else ret ())" for p
    unfolding registry_purge_expired_nonces_def i64 bind_of_Inr
    by (intro wp) (auto simp: fault_free_def registry_purge_nonces_def purged_again)
  show ?thesis
    unfolding registry_check_and_record_nonce_def i64 bind_of_Inr
    by (rule hoare_nonce_check [OF pool rec ops purge]) simp
next
  case False
  then show ?thesis
    by (auto simp: registry_check_and_record_nonce_def bind_of_result registry_to_i64_def i64_try_from_def hoare_def)
qed

interpretation registry_nonce: nonce_table registry_check_and_record_nonce registry_nonces
proof
  fix n now ttl and s s' :: "'x registry_db_scheme" and r
  assume run: "registry_check_and_record_nonce n now ttl s = (r, s')"
  show "registry_nonces s' = registry_nonces s \<and> r \<noteq> Inr True \<or>
    purged (uint now) (snd (upsert_nonce n (uint now + uint ttl) (uint now) (registry_nonces s))) (registry_nonces s') \<and>
      (r = Inr True \<longrightarrow> fst (upsert_nonce n (uint now + uint ttl) (uint now) (registry_nonces s)) = 1)"
    using hoare_Inl [OF registry_check_nonce_hoare refl, of n now ttl s] run
      hoare_Inr [OF registry_check_nonce_hoare refl, of n now ttl s _ s']
    by (cases r) blast+
qed

section \<open>Behaviour without faults\<close>

lemma add_receivable_ok:
  assumes "amounts_ok (receivables s)" and "0 \<le> d" and "d \<le> i64_max"
  shows "add_receivable i b d s =
    (if receivable_of s (i, b) + d \<le> i64_max
     then Inr (1, s\<lparr>receivables := add_owed (i, b) d (receivables s)\<rparr>) else Inl Bigint_Out_Of_Range)"
proof (cases "map_of (receivables s) (i, b)")
  case (Some a)
  then have "0 \<le> a" using assms(1) by (auto simp: amounts_ok_def)
  then have "i64_min \<le> a + d" "\<not> a + d < 0" using assms(2) by linarith+
  with Some assms(2) show ?thesis by (simp add: add_receivable_def receivable_of_def add_owed_def is_i64_def)
qed (use assms in \<open>simp add: add_receivable_def receivable_of_def add_owed_def insert_row_new\<close>)

lemma transcripts_fine:
  assumes "serials_ok s"
  shows "transcript_entries (transcripts_for k (s\<lparr>transcripts := transcripts s @ [transcript_of b sub now]\<rparr>)) =
    Inr (map entry_of (sort_key tr_seen_at (filter (\<lambda>t. tr_key t = k) (transcripts s @ [transcript_of b sub now]))))"
proof -
  have "0 \<le> tr_seen_at t" if "t \<in> set (transcripts s @ [transcript_of b sub now])" for t
    using that assms by (auto simp: serials_ok_def transcript_of_def)
  then show ?thesis by (auto simp: transcript_entries_eq transcripts_for_def)
qed

lemma submit_serial_ok:
  assumes "faults s = []" and "registry_wf s"
    and "uint (ss_denomination_cents sub) \<le> i64_max" and "uint now \<le> i64_max"
  shows "submit_serial b sub now s =
    (if submit_fits b sub s then (Inr (submit_reply b sub now s), submitted b sub now s)
     else (Inl (RegistryDb Bigint_Out_Of_Range), s))"
proof -
  let ?k = "serial_key sub" and ?d = "uint (ss_denomination_cents sub)"
  let ?s1 = "s\<lparr>transcripts := transcripts s @ [transcript_of b sub now]\<rparr>"
  let ?s2 = "?s1\<lparr>serials := serials s @ [(?k, first_of b sub now)]\<rparr>"
  from assms(3,4) have i64: "registry_to_i64 (ss_denomination_cents sub) w = Inr ?d" "registry_to_i64 now w = Inr (uint now)" for w
    by simp_all
  have tr: "insert_transcript (transcript_of b sub now) s = Inr (1, ?s1)" by (simp add: insert_transcript_def)
  have am: "amounts_ok (receivables ?s2)" and ok: "serials_ok s" using assms(2) by (simp_all add: registry_wf_def)
  note add = add_receivable_ok [OF am _ assms(3), of "ss_issuing_bank_id sub" b]
  have rec: "receivable_of ?s2 = receivable_of s" by (simp add: receivable_of_def fun_eq_iff)
  note body = submit_serial_def submit_check_def submit_write_def Let_def i64 bind_of_Inr serial_folds bind_op_assoc
  consider (cap) c where "map_of (exposure_caps s) (ss_issuing_bank_id sub, b) = Some c" "over_cap b sub s"
      "c \<le> receivable_of s (ss_issuing_bank_id sub, b)"
    | (free) "\<not> over_cap b sub s"
    unfolding over_cap_def by (cases "map_of (exposure_caps s) (ss_issuing_bank_id sub, b)") auto
  then show ?thesis
  proof cases
    case cap
    then show ?thesis
      unfolding body using assms(1)
      by (simp add: transaction_rollback_ok submit_fits_def submit_reply_def submit_outcome_def submitted_def
          receivable_of_def)
  next
    case free
    then have exc: "bind_op (case map_of (exposure_caps s) (ss_issuing_bank_id sub, b) of
        None \<Rightarrow> ret False
      | Some cap \<Rightarrow> bind_op (query RegistryDb (\<lambda>s. select_key (receivables s) (ss_issuing_bank_id sub, b))) (\<lambda>row.
          ret (cap \<le> (case row of Some a \<Rightarrow> a | None \<Rightarrow> 0)))) f s = f False s" for f :: "bool \<Rightarrow> (_, _, 'q) op"
      using assms(1) by (auto simp: over_cap_def receivable_of_def split: option.splits)
    show ?thesis
    proof (cases "map_of (serials s) ?k")
      case None
      then have ser: "insert_serial ?k (first_of b sub now) ?s1 = Inr (1, ?s2)"
        by (simp add: insert_serial_def insert_row_new)
      from None free have out: "submit_outcome b sub s = SerialAccepted" by (simp add: submit_outcome_def)
      show ?thesis
        unfolding body using assms(1) add out
        by (simp add: exc tr ser rec transaction_ok submit_fits_def submit_reply_def submitted_def)
    next
      case (Some f)
      then have ser: "insert_serial ?k (first_of b sub now) ?s1 = Inr (0, ?s1)"
        by (simp add: insert_serial_def insert_row_old)
      from Some free have out: "submit_outcome b sub s = SerialDoubleSpend" by (simp add: submit_outcome_def)
      show ?thesis
        unfolding body using assms(1) out transcripts_fine [OF ok, of ?k b sub now]
        by (simp add: exc tr ser transaction_commit_ok submit_fits_def submit_reply_def submitted_def)
    qed
  qed
qed

section \<open>Properties\<close>

text \<open>
  C26: a submission refines the abstract step. When the database answers, an amount or a time
  outside \<open>BIGINT\<close> gives its error and changes nothing; a pair at its cap is refused and nothing is
  recorded, not even the transcript, so a double spend tried at the cap leaves no evidence (the
  method's doc comment says that the transcript is always appended); a known serial is a double spend, whose transcript is recorded and answered with all
  transcripts of the serial; a new serial is recorded with its transcript and its value is added
  to the depositing bank's receivable, unless the sum leaves \<open>BIGINT\<close>, when nothing changes.
\<close>

theorem submit_serial_refines:
  assumes "faults s = []" and "registry_wf s"
  shows "submit_serial b sub now s =
    (if i64_max < uint (ss_denomination_cents sub)
     then (Inl (RegistryValueRange (''denomination '' @ u64_to_string (ss_denomination_cents sub) @ '' exceeds the i64 range'')), s)
     else if i64_max < uint now
     then (Inl (RegistryValueRange (''timestamp '' @ u64_to_string now @ '' exceeds the i64 range'')), s)
     else if submit_fits b sub s then (Inr (submit_reply b sub now s), submitted b sub now s)
     else (Inl (RegistryDb Bigint_Out_Of_Range), s))"
proof (cases "uint (ss_denomination_cents sub) \<le> i64_max \<and> uint now \<le> i64_max")
  case True
  with submit_serial_ok [OF assms] show ?thesis by simp
qed (auto simp: submit_serial_def Let_def registry_to_i64_def i64_try_from_def)

text \<open>
  C27: what an exposure cap bounds, at the isolation the code runs at. When a submission is accepted
  for a pair that has a cap, whatever the database did and whatever other connections committed
  between its cap check and its writes: the receivable the check saw was below the cap, and the
  receivable afterwards is the one others left, plus exactly the coin's value, within \<open>BIGINT\<close>. So it
  stays below cap plus that value when nothing was added to it in between, which covers a submission
  that runs alone (\<open>submit_serial_alone\<close>). It need not otherwise: \<open>cap_race\<close>.
\<close>

theorem submit_cap_bound:
  assumes "submit_serial_between others b sub now s = (Inr resp, s')" and "sr_outcome resp = SerialAccepted"
    and "map_of (exposure_caps s) (ss_issuing_bank_id sub, b) = Some cap"
  shows "receivable_of s (ss_issuing_bank_id sub, b) < cap \<and>
    receivable_of s' (ss_issuing_bank_id sub, b) =
      receivable_of (committed others s) (ss_issuing_bank_id sub, b) + uint (ss_denomination_cents sub) \<and>
    receivable_of s' (ss_issuing_bank_id sub, b) \<le> i64_max \<and>
    (receivable_of (committed others s) (ss_issuing_bank_id sub, b) \<le> receivable_of s (ss_issuing_bank_id sub, b) \<longrightarrow>
      receivable_of s' (ss_issuing_bank_id sub, b) < cap + uint (ss_denomination_cents sub))"
proof -
  let ?p = "(ss_issuing_bank_id sub, b)" and ?d = "uint (ss_denomination_cents sub)" and ?u = "committed others s"
  note run = hoare_Inr [OF hoare_submit_between same_tables_refl assms(1)]
  have free: "\<not> over_cap b sub s" using run assms(2) by (auto split: if_splits)
  with assms(3) have lt: "receivable_of s ?p < cap" by (simp add: over_cap_def)
  from run free have rec: "resp = recorded_reply b sub now ?u" "record_fits b sub ?u" "same_tables (recorded b sub now ?u) s'"
    by simp_all
  from rec(1) assms(2) have new: "map_of (serials ?u) (serial_key sub) = None"
    by (simp add: recorded_reply_def split: if_splits)
  obtain fs where "s' = (recorded b sub now ?u)\<lparr>faults := fs\<rparr>" using same_tablesD [OF rec(3)] by blast
  with new have "receivable_of s' ?p = receivable_of ?u ?p + ?d"
    by (auto simp: recorded_def receivable_of_def add_owed_def select_update_row map_add_def split: option.split)
  with lt rec(2) new show ?thesis by (simp add: record_fits_def)
qed

text \<open>
  C28: a double spend is attributed. When a submission is answered as a double spend, whatever
  the database did, the answer lists, in the order they were seen, the transcript with which the
  first depositor got the serial accepted and the one just submitted, every one of them is of
  that serial, and no receivable has changed.
\<close>

theorem double_spend_attributed:
  assumes "registry_wf s" and "submit_serial b sub now s = (Inr resp, s')" and "sr_outcome resp = SerialDoubleSpend"
  shows "\<exists>f. map_of (serials s) (serial_key sub) = Some f \<and>
    \<lparr>te_bank_id = first_bank_id f, te_transcript = first_transcript f, te_seen_at = word_of_int (first_seen_at f)\<rparr>
      \<in> set (sr_transcripts resp) \<and>
    \<lparr>te_bank_id = b, te_transcript = ss_transcript sub, te_seen_at = now\<rparr> \<in> set (sr_transcripts resp) \<and>
    sorted (map (\<lambda>e. uint (te_seen_at e)) (sr_transcripts resp)) \<and>
    set (sr_transcripts resp) = entry_of ` {t \<in> set (transcripts s'). tr_key t = serial_key sub} \<and>
    receivables s' = receivables s"
proof -
  let ?k = "serial_key sub" and ?ts = "transcripts s @ [transcript_of b sub now]"
  note run = submit_serial_Inr [OF assms(2)]
  from run(1) assms(3) have dbl: "submit_outcome b sub s = SerialDoubleSpend" by (simp add: submit_reply_def)
  then obtain f where f: "map_of (serials s) ?k = Some f"
    by (cases "map_of (serials s) ?k") (auto simp: submit_outcome_def split: if_splits)
  let ?rows = "sort_key tr_seen_at (filter (\<lambda>t. tr_key t = ?k) ?ts)"
  from run(1) dbl have es: "sr_transcripts resp = map entry_of ?rows" by (simp add: submit_reply_def)
  obtain fs where "s' = (submitted b sub now s)\<lparr>faults := fs\<rparr>" using same_tablesD [OF run(4)] by blast
  with dbl have s': "transcripts s' = ?ts" "receivables s' = receivables s" by (simp_all add: submitted_def)
  have ok: "serials_ok s" using assms(1) by (simp add: registry_wf_def)
  then have "transcript_of_first ?k f \<in> set (transcripts s)" using f unfolding serials_ok_def by blast
  then have "transcript_of_first ?k f \<in> set ?rows" by (simp add: transcript_of_first_def)
  then have "entry_of (transcript_of_first ?k f) \<in> set (sr_transcripts resp)" unfolding es set_map by (rule imageI)
  moreover have "entry_of (transcript_of b sub now) \<in> set (sr_transcripts resp)"
    unfolding es set_map by (rule imageI) (simp add: transcript_of_def)
  moreover have "uint (te_seen_at (entry_of t)) = tr_seen_at t" if "t \<in> set ?rows" for t
    using that ok run(3) by (auto simp: serials_ok_def transcript_of_def entry_of_def uint_word_of_int)
  then have "map (\<lambda>e. uint (te_seen_at e)) (sr_transcripts resp) = map tr_seen_at ?rows" unfolding es by simp
  then have "sorted (map (\<lambda>e. uint (te_seen_at e)) (sr_transcripts resp))" by (simp only: sorted_sort_key)
  moreover have "set (sr_transcripts resp) = entry_of ` {t \<in> set (transcripts s'). tr_key t = ?k}"
    unfolding es s' by (simp only: set_map set_sort set_filter)
  ultimately show ?thesis
    using f s'(2) by (intro exI [of _ f]) (simp add: entry_of_def transcript_of_first_def transcript_of_def)
qed

section \<open>Concrete runs\<close>

definition demo_submission :: "string \<Rightarrow> string \<Rightarrow> SerialSubmission" where
  "demo_submission issuer serial =
     \<lparr>ss_issuing_bank_id = issuer, ss_denomination_cents = 8, ss_scheme_id = 0, ss_serial_hex = serial,
      ss_transcript = ''t''\<rparr>"

text \<open>Bank b holds 10 against a, with a cap of 16; serial 01 was first deposited there.\<close>

definition demo_registry :: registry_db where
  "demo_registry = empty_registry\<lparr>
     exposure_caps := [((''a'', ''b''), 16)], receivables := [((''a'', ''b''), 10), ((''b'', ''a''), 4)],
     serials := [((8, 0, ''01''), \<lparr>first_bank_id = ''b'', first_transcript = ''t0'', first_seen_at = 5\<rparr>)],
     transcripts := [\<lparr>tr_key = (8, 0, ''01''), tr_bank_id = ''b'', tr_transcript = ''t0'', tr_seen_at = 5\<rparr>]\<rparr>"

lemma demo_registry_simps [simp]:
  "faults demo_registry = []" "exposure_caps demo_registry = [((''a'', ''b''), 16)]"
  "receivables demo_registry = [((''a'', ''b''), 10), ((''b'', ''a''), 4)]"
  "serials demo_registry = [((8, 0, ''01''), \<lparr>first_bank_id = ''b'', first_transcript = ''t0'', first_seen_at = 5\<rparr>)]"
  "transcripts demo_registry = [\<lparr>tr_key = (8, 0, ''01''), tr_bank_id = ''b'', tr_transcript = ''t0'', tr_seen_at = 5\<rparr>]"
  "members demo_registry = []" "registry_nonces demo_registry = []" "settlement_claims demo_registry = []"
  by (simp_all add: demo_registry_def empty_registry_def)

lemma demo_registry_wf: "registry_wf demo_registry"
  by (auto simp: registry_wf_defs keyed_def transcript_of_first_def split: if_splits)

lemma demo_submit:
  "submit_serial ''b'' (demo_submission ''a'' ''02'') 7 demo_registry =
     (Inr \<lparr>sr_outcome = SerialAccepted, sr_transcripts = []\<rparr>, submitted ''b'' (demo_submission ''a'' ''02'') 7 demo_registry)"
  "\<exists>es. submit_serial ''a'' (demo_submission ''a'' ''01'') 7 demo_registry =
     (Inr \<lparr>sr_outcome = SerialDoubleSpend, sr_transcripts = es\<rparr>, submitted ''a'' (demo_submission ''a'' ''01'') 7 demo_registry)"
  by (simp_all add: submit_serial_ok demo_registry_wf demo_submission_def submit_fits_def submit_reply_def
      submit_outcome_def over_cap_def receivable_of_def serial_key_def)

theorem submit_serial_refines_witness:
  "fst (submit_serial ''b'' (demo_submission ''a'' ''02'') 7 demo_registry) =
     Inr \<lparr>sr_outcome = SerialAccepted, sr_transcripts = []\<rparr>"
  by (subst submit_serial_refines)
    (simp_all add: demo_registry_wf demo_submission_def submit_fits_def submit_reply_def submit_outcome_def
      over_cap_def receivable_of_def serial_key_def)

text \<open>
  Two submissions of bank b at the same time, both within the cap of 16 when they check it: the
  second commits between the check and the writes of the first.
\<close>

definition demo_race :: "registry_db \<Rightarrow> registry_db" where
  "demo_race s = snd (submit_serial ''b'' (demo_submission ''a'' ''03'') 7 s)"

lemma committed_demo_race:
  "committed demo_race demo_registry = submitted ''b'' (demo_submission ''a'' ''03'') 7 demo_registry"
proof -
  have "demo_registry\<lparr>faults := []\<rparr> = demo_registry" by (simp add: demo_registry_def empty_registry_def)
  then show ?thesis
    by (simp add: committed_def demo_race_def submit_serial_ok demo_registry_wf demo_submission_def submit_fits_def
        submit_outcome_def over_cap_def receivable_of_def serial_key_def submitted_def)
qed

lemma cap_race_run:
  "submit_serial_between demo_race ''b'' (demo_submission ''a'' ''02'') 7 demo_registry =
     (Inr \<lparr>sr_outcome = SerialAccepted, sr_transcripts = []\<rparr>,
      recorded ''b'' (demo_submission ''a'' ''02'') 7 (committed demo_race demo_registry))"
proof -
  let ?sub = "demo_submission ''a'' ''02''" and ?u = "committed demo_race demo_registry"
  have u: "faults ?u = []" "map_of (serials ?u) (serial_key ?sub) = None"
    "map_of (receivables ?u) (''a'', ''b'') = Some 18"
    unfolding committed_demo_race
    by (simp_all add: submitted_def submit_outcome_def over_cap_def receivable_of_def serial_key_def
        demo_submission_def add_owed_def update_row_def)
  have check: "submit_check ''b'' ?sub demo_registry = (Inr False, demo_registry)"
    by (simp add: submit_check_def Let_def demo_submission_def)
  have "transaction RegistryDb (submit_write ''b'' ?sub 8 7 False) ?u =
      (Inr \<lparr>sr_outcome = SerialAccepted, sr_transcripts = []\<rparr>, recorded ''b'' ?sub 7 ?u)"
    by (rule transaction_commit_ok [OF u(1)])
      (use u in \<open>simp_all add: submit_write_def recorded_def Let_def demo_submission_def serial_key_def insert_transcript_def
        insert_serial_def insert_row_new add_receivable_def add_owed_def transcript_of_def first_of_def is_i64_def\<close>)
  moreover have "ss_denomination_cents ?sub = 8" by (simp add: demo_submission_def)
  ultimately show ?thesis
    by (simp add: submit_serial_between_def transaction_between_ok [where reads = "submit_check ''b'' ?sub", OF _ check]
        registry_to_i64_def i64_try_from_def)
qed

text \<open>Both are accepted and the receivable ends above cap plus coin value.\<close>

lemma cap_race:
  "\<exists>s'. submit_serial_between demo_race ''b'' (demo_submission ''a'' ''02'') 7 demo_registry =
     (Inr \<lparr>sr_outcome = SerialAccepted, sr_transcripts = []\<rparr>, s') \<and> receivable_of s' (''a'', ''b'') = 26"
  unfolding cap_race_run committed_demo_race
  by (simp add: recorded_def submitted_def submit_outcome_def over_cap_def receivable_of_def serial_key_def
      demo_submission_def add_owed_def update_row_def)

theorem submit_cap_bound_witness:
  "receivable_of demo_registry (''a'', ''b'') < 16 \<and>
   receivable_of (snd (submit_serial_between demo_race ''b'' (demo_submission ''a'' ''02'') 7 demo_registry)) (''a'', ''b'') =
     receivable_of (committed demo_race demo_registry) (''a'', ''b'') + 8"
  using submit_cap_bound [OF cap_race_run, of 16] unfolding cap_race_run by (simp add: demo_submission_def)

theorem double_spend_attributed_witness:
  "\<exists>resp. fst (submit_serial ''a'' (demo_submission ''a'' ''01'') 7 demo_registry) = Inr resp \<and>
     \<lparr>te_bank_id = ''a'', te_transcript = ''t'', te_seen_at = 7\<rparr> \<in> set (sr_transcripts resp) \<and>
     \<lparr>te_bank_id = ''b'', te_transcript = ''t0'', te_seen_at = 5\<rparr> \<in> set (sr_transcripts resp)"
proof -
  from demo_submit(2) obtain es where run: "submit_serial ''a'' (demo_submission ''a'' ''01'') 7 demo_registry =
     (Inr \<lparr>sr_outcome = SerialDoubleSpend, sr_transcripts = es\<rparr>, submitted ''a'' (demo_submission ''a'' ''01'') 7 demo_registry)"
    by blast
  from double_spend_attributed [OF demo_registry_wf run] run show ?thesis
    by (auto simp: demo_submission_def serial_key_def split: if_splits)
qed

end
