(* ===== verification/Registry_Settle.thy ===== *)
theory Registry_Settle
  imports Registry_Store
begin

text \<open>
  Settlement (\<open>registry.rs\<close>, \<open>settle\<close>): the receivables of every pair of banks are netted into
  claims and cleared, in one transaction, whose query and DELETE are separate statements at READ
  COMMITTED; \<open>settle_between\<close> has the commits of others in between. The loop runs over a hash map, so its order is an
  argument, and the result is shown not to depend on it.
\<close>

section \<open>Operations\<close>

definition insert_claim :: "claim_row \<Rightarrow> ('x registry_db_scheme, nat) stmt" where
  "insert_claim row s = Inr (1, s\<lparr>settlement_claims := settlement_claims s @ [row]\<rparr>)"

definition clear_receivables :: "('x registry_db_scheme, nat) stmt" where
  "clear_receivables s = Inr (length (receivables s), s\<lparr>receivables := []\<rparr>)"

text \<open>
  One iteration of the netting loop on a pair that is not done: who owes whom, and how much.
\<close>

definition net_pair :: "(string \<times> string, int) table \<Rightarrow> string \<Rightarrow> string \<Rightarrow> int
    \<Rightarrow> (string \<times> string \<times> int) option" where
  "net_pair amounts issuer depositor forward =
     (let reverse = (case map_of amounts (depositor, issuer) of Some a \<Rightarrow> a | None \<Rightarrow> 0);
          net = forward - reverse
      in if 0 < net then Some (issuer, depositor, net)
         else if net < 0 then Some (depositor, issuer, - net)
         else None)"

text \<open>The loop over the entries of the hash map, in the order it yields them.\<close>

fun settle_pairs ::
  "(string \<times> string, int) table \<Rightarrow> u64 \<Rightarrow> int \<Rightarrow> ((string \<times> string) \<times> int) list \<Rightarrow> (string \<times> string) set
   \<Rightarrow> SettlementClaimInfo list \<Rightarrow> ('x registry_db_scheme, RegistryError, SettlementClaimInfo list) op" where
  "settle_pairs amounts now window_end [] pairs claims = ret claims"
| "settle_pairs amounts now window_end (((issuer, depositor), forward) # rest) pairs claims =
     (if (issuer, depositor) \<in> pairs then settle_pairs amounts now window_end rest pairs claims
      else
        let pairs' = insert (depositor, issuer) (insert (issuer, depositor) pairs) in
        (case net_pair amounts issuer depositor forward of
           None \<Rightarrow> settle_pairs amounts now window_end rest pairs' claims
         | Some (owes, owed, amount) \<Rightarrow>
             bind_op (execute RegistryDb (insert_claim
               \<lparr>cr_issuing_bank_id = owes, cr_depositing_bank_id = owed, cr_net_amount_cents = amount,
                cr_window_end = window_end, cr_created_at = window_end\<rparr>)) (\<lambda>_.
             bind_op (of_result (registry_to_u64 amount ''net'')) (\<lambda>net.
               settle_pairs amounts now window_end rest pairs'
                 (claims @ [\<lparr>cl_issuing_bank_id = owes, cl_depositing_bank_id = owed,
                             cl_net_amount_cents = net, cl_window_end = now\<rparr>])))))"

text \<open>
  \<open>hash_order\<close> is the order in which the standard library's hash map iterates over its entries.
\<close>

type_synonym hash_order = "((string \<times> string) \<times> int) list \<Rightarrow> ((string \<times> string) \<times> int) list"

text \<open>
  The body of the transaction in two parts: the query, which locks nothing, and the netting loop with
  its inserts and the unqualified \<open>DELETE FROM receivables\<close>.
\<close>

definition settle_rows :: "('x registry_db_scheme, RegistryError, (string \<times> string, int) table) op" where
  "settle_rows = query RegistryDb (\<lambda>s. filter (\<lambda>(_, amount). 0 < amount) (receivables s))"

definition settle_write :: "hash_order \<Rightarrow> u64 \<Rightarrow> int \<Rightarrow> (string \<times> string, int) table
    \<Rightarrow> ('x registry_db_scheme, RegistryError, SettlementClaimInfo list tx_end) op" where
  "settle_write hash_order now window_end rows =
     (let amounts = fold (\<lambda>(k, v). AList.update k v) rows [] in
      bind_op (settle_pairs amounts now window_end (hash_order amounts) {} []) (\<lambda>claims.
      bind_op (execute RegistryDb clear_receivables) (\<lambda>_.
        ret (Commit claims))))"

definition settle :: "hash_order \<Rightarrow> u64 \<Rightarrow> ('x registry_db_scheme, RegistryError, SettlementClaimInfo list) op" where
  "settle hash_order now =
     bind_op (of_result (registry_to_i64 now ''window end'')) (\<lambda>window_end.
     bind_op (pool_get RegistryPool) (\<lambda>_.
     bind_op (transaction RegistryDb (bind_op settle_rows (settle_write hash_order now window_end))) (\<lambda>claims.
       ret (sort_key (\<lambda>c. (cl_issuing_bank_id c, cl_depositing_bank_id c)) claims))))"

text \<open>The same while other connections commit between the query and the writes.\<close>

definition settle_between :: "('x registry_db_scheme \<Rightarrow> 'x registry_db_scheme) \<Rightarrow> hash_order \<Rightarrow> u64
    \<Rightarrow> ('x registry_db_scheme, RegistryError, SettlementClaimInfo list) op" where
  "settle_between others hash_order now =
     bind_op (of_result (registry_to_i64 now ''window end'')) (\<lambda>window_end.
     bind_op (pool_get RegistryPool) (\<lambda>_.
     bind_op (transaction_between RegistryDb others settle_rows (settle_write hash_order now window_end)) (\<lambda>claims.
       ret (sort_key (\<lambda>c. (cl_issuing_bank_id c, cl_depositing_bank_id c)) claims))))"

section \<open>Netting as a function\<close>

text \<open>The claims the loop produces, as (owes, owed, amount).\<close>

fun net_all :: "(string \<times> string, int) table \<Rightarrow> ((string \<times> string) \<times> int) list \<Rightarrow> (string \<times> string) set
    \<Rightarrow> (string \<times> string \<times> int) list" where
  "net_all amounts [] pairs = []"
| "net_all amounts (((issuer, depositor), forward) # rest) pairs =
     (if (issuer, depositor) \<in> pairs then net_all amounts rest pairs
      else
        let claims = net_all amounts rest (insert (depositor, issuer) (insert (issuer, depositor) pairs)) in
        (case net_pair amounts issuer depositor forward of None \<Rightarrow> claims | Some c \<Rightarrow> c # claims))"

definition claim_row_of :: "u64 \<Rightarrow> string \<times> string \<times> int \<Rightarrow> claim_row" where
  "claim_row_of now = (\<lambda>(owes, owed, amount).
     \<lparr>cr_issuing_bank_id = owes, cr_depositing_bank_id = owed, cr_net_amount_cents = amount,
      cr_window_end = uint now, cr_created_at = uint now\<rparr>)"

definition claim_info_of :: "u64 \<Rightarrow> string \<times> string \<times> int \<Rightarrow> SettlementClaimInfo" where
  "claim_info_of now = (\<lambda>(owes, owed, amount).
     \<lparr>cl_issuing_bank_id = owes, cl_depositing_bank_id = owed, cl_net_amount_cents = word_of_int amount,
      cl_window_end = now\<rparr>)"

definition open_receivables :: "'x registry_db_scheme \<Rightarrow> (string \<times> string, int) table" where
  "open_receivables s = filter (\<lambda>(_, amount). 0 < amount) (receivables s)"

definition netted :: "hash_order \<Rightarrow> 'x registry_db_scheme \<Rightarrow> (string \<times> string \<times> int) list" where
  "netted hash_order s =
     (let amounts = fold (\<lambda>(k, v). AList.update k v) (open_receivables s) []
      in net_all amounts (hash_order amounts) {})"

definition settled :: "hash_order \<Rightarrow> u64 \<Rightarrow> 'x registry_db_scheme \<Rightarrow> 'x registry_db_scheme" where
  "settled hash_order now s =
     s\<lparr>settlement_claims := settlement_claims s @ map (claim_row_of now) (netted hash_order s), receivables := []\<rparr>"

abbreviation by_banks :: "SettlementClaimInfo \<Rightarrow> string \<times> string" where
  "by_banks c \<equiv> (cl_issuing_bank_id c, cl_depositing_bank_id c)"

lemma net_pair_positive: "net_pair am i d f = Some (x, y, n) \<Longrightarrow> 0 < n"
  by (auto simp: net_pair_def Let_def split: if_splits)

lemma hoare_settle_pairs:
  "hoare (same_tables h) (settle_pairs am now (uint now) es pairs cs)
     (\<lambda>r s. r = cs @ map (claim_info_of now) (net_all am es pairs) \<and>
        same_tables (h\<lparr>settlement_claims := settlement_claims h @ map (claim_row_of now) (net_all am es pairs)\<rparr>) s)
     (\<lambda>_ _. True)"
proof (induction am es pairs arbitrary: cs h rule: net_all.induct)
  case (1 am pairs)
  show ?case unfolding settle_pairs.simps net_all.simps by (rule hoare_ret) simp
next
  case (2 am i d f rest pairs)
  let ?pairs = "insert (d, i) (insert (i, d) pairs)"
  show ?case
  proof (cases "(i, d) \<in> pairs")
    case True
    with 2(1) show ?thesis by simp
  next
    case False
    show ?thesis
    proof (cases "net_pair am i d f")
      case None
      with False 2(2) show ?thesis by (simp add: Let_def)
    next
      case (Some c)
      obtain x y n where c: "c = (x, y, n)" by (cases c)
      with Some have n: "registry_to_u64 n w = Inr (word_of_int n)" for w
        using net_pair_positive [of am i d f x y n] by simp
      let ?row = "claim_row_of now c" and ?h = "h\<lparr>settlement_claims := settlement_claims h @ [claim_row_of now c]\<rparr>"
      have "hoare (same_tables h) (execute RegistryDb (insert_claim ?row)) (\<lambda>_. same_tables ?h) (\<lambda>_ _. True)"
        by (rule hoare_execute)
          (auto simp: insert_claim_def same_tables_def dest!: same_tablesD [unfolded same_tables_def])
      from hoare_bind [OF this 2(2) [OF False, where cs = "cs @ [claim_info_of now c]"]] show ?thesis
        using False Some c by (simp add: Let_def n bind_of_Inr claim_row_of_def claim_info_of_def)
    qed
  qed
qed

text \<open>
  The writes of a settlement whose query saw the tables \<open>h\<close>, on tables \<open>u\<close>: the claims that net \<open>h\<close>
  are appended, the receivables of \<open>u\<close> are deleted.
\<close>

definition settled_from :: "hash_order \<Rightarrow> u64 \<Rightarrow> 'x registry_db_scheme \<Rightarrow> 'x registry_db_scheme \<Rightarrow> 'x registry_db_scheme" where
  "settled_from hash_order now h u =
     u\<lparr>settlement_claims := settlement_claims u @ map (claim_row_of now) (netted hash_order h), receivables := []\<rparr>"

lemma settled_from_same [simp]: "settled_from order now s s = settled order now s"
  by (simp add: settled_from_def settled_def)

lemma hoare_settle_rows:
  "hoare (same_tables h) settle_rows (\<lambda>x s. x = open_receivables h \<and> same_tables h s) (\<lambda>_ _. True)"
  unfolding settle_rows_def
  by (rule hoare_weaken [OF hoare_query [where P = "same_tables h" and E = "\<lambda>_ _. True"]])
    (auto simp: fault_free_def open_receivables_def dest: same_tablesD)

lemma keeps_settle_rows: "keeps (same_tables h) settle_rows"
  unfolding settle_rows_def by (intro wp fault_free_same)

lemma hoare_settle_write:
  "hoare (same_tables u) (settle_write order now (uint now) (open_receivables h))
     (\<lambda>x s. x = Commit (map (claim_info_of now) (netted order h)) \<and> same_tables (settled_from order now h u) s)
     (\<lambda>_ _. True)"
proof -
  let ?u = "u\<lparr>settlement_claims := settlement_claims u @ map (claim_row_of now) (netted order h)\<rparr>"
  have clr: "hoare (same_tables ?u) (execute RegistryDb clear_receivables)
      (\<lambda>_. same_tables (settled_from order now h u)) (\<lambda>_ _. True)"
    by (rule hoare_execute)
      (auto simp: clear_receivables_def same_tables_def settled_from_def dest!: same_tablesD [unfolded same_tables_def])
  show ?thesis
    unfolding settle_write_def Let_def
    apply (rule hoare_bind [OF hoare_settle_pairs], rule hoare_pure)
    apply (simp only: append_Nil netted_def [of order h, unfolded Let_def, symmetric])
    by (rule hoare_bind [OF clr], rule hoare_ret) simp
qed

lemma settle_alone: "settle_between (\<lambda>s. s) = settle"
  by (intro ext) (simp only: settle_between_def settle_def transaction_between_alone [OF keeps_settle_rows, abs_def])

lemma hoare_settle_between:
  "hoare (same_tables h) (settle_between others order now)
     (\<lambda>r s. r = sort_key by_banks (map (claim_info_of now) (netted order h)) \<and> uint now \<le> i64_max \<and>
        same_tables (settled_from order now h (committed others h)) s)
     (\<lambda>_ s. same_tables h s \<or> same_tables (committed others h) s \<or>
        uint now \<le> i64_max \<and> same_tables (settled_from order now h (committed others h)) s)"
  (is "hoare _ _ ?Q ?E")
proof (cases "uint now \<le> i64_max")
  case True
  let ?u = "committed others h"
  let ?R = "\<lambda>r s. r = map (claim_info_of now) (netted order h) \<and> same_tables (settled_from order now h ?u) s"
  have pool: "hoare (same_tables h) (pool_get RegistryPool) (\<lambda>_. same_tables h) ?E"
    by (rule hoare_pool_get) simp_all
  have "hoare (same_tables ?u) (transaction RegistryDb (settle_write order now (uint now) x)) ?R ?E"
    if "x = open_receivables h" for x
    unfolding that
    by (rule hoare_transaction_body [OF _ _ hoare_weaken [OF hoare_settle_write]])
      (use True in \<open>auto simp: fault_free_def\<close>)
  then have tx: "hoare (same_tables h)
      (transaction_between RegistryDb others settle_rows (settle_write order now (uint now))) ?R ?E"
    by (rule hoare_transaction_between [OF hoare_settle_rows]) simp_all
  from True have i64: "registry_to_i64 now w = Inr (uint now)" for w by simp
  show ?thesis
    unfolding settle_between_def i64 bind_of_Inr
    by (rule hoare_bind [OF pool], rule hoare_bind [OF tx], rule hoare_ret) (use True in simp)
qed (auto simp: settle_between_def bind_of_result registry_to_i64_def i64_try_from_def hoare_def)

lemma hoare_settle:
  "hoare (same_tables h) (settle order now)
     (\<lambda>r s. r = sort_key by_banks (map (claim_info_of now) (netted order h)) \<and> uint now \<le> i64_max \<and>
        same_tables (settled order now h) s)
     (\<lambda>_ s. same_tables h s \<or> uint now \<le> i64_max \<and> same_tables (settled order now h) s)"
  unfolding settle_alone [symmetric]
  by (rule hoare_weaken [OF hoare_settle_between [where others = "\<lambda>s. s"]]) auto

section \<open>What netting computes\<close>

definition amount_in :: "(string \<times> string, int) table \<Rightarrow> string \<times> string \<Rightarrow> int" where
  "amount_in t p = (case map_of t p of Some a \<Rightarrow> a | None \<Rightarrow> 0)"

text \<open>What \<open>x\<close> owes \<open>y\<close> on balance.\<close>

definition net_of :: "(string \<times> string, int) table \<Rightarrow> string \<times> string \<Rightarrow> int" where
  "net_of t p = amount_in t p - amount_in t (snd p, fst p)"

lemma net_of_swap: "net_of t (y, x) = - net_of t (x, y)"
  by (simp add: net_of_def)

lemma net_pair_iff:
  assumes "map_of am (i, d) = Some f"
  shows "net_pair am i d f = Some (x, y, n) \<longleftrightarrow>
    ((x, y) = (i, d) \<or> (x, y) = (d, i)) \<and> n = net_of am (x, y) \<and> 0 < n"
  using assms by (auto simp: net_pair_def Let_def net_of_def amount_in_def)

lemma net_pair_None: "map_of am (i, d) = Some f \<Longrightarrow> net_pair am i d f = None \<Longrightarrow> net_of am (i, d) = 0"
  by (auto simp: net_pair_def Let_def net_of_def amount_in_def split: if_splits)

lemma net_all_set:
  assumes "\<forall>(k, f) \<in> set es. map_of am k = Some f" and "\<forall>i d. (i, d) \<in> pairs \<longrightarrow> (d, i) \<in> pairs"
  shows "(x, y, n) \<in> set (net_all am es pairs) \<longleftrightarrow>
    (x, y) \<notin> pairs \<and> ((x, y) \<in> fst ` set es \<or> (y, x) \<in> fst ` set es) \<and> n = net_of am (x, y) \<and> 0 < n"
  using assms
proof (induction am es pairs rule: net_all.induct)
  case (2 am i d f rest pairs)
  let ?P = "insert (d, i) (insert (i, d) pairs)"
  have f: "map_of am (i, d) = Some f" and sym: "\<forall>i d. (i, d) \<in> pairs \<longrightarrow> (d, i) \<in> pairs" using 2 by auto
  show ?case
  proof (cases "(i, d) \<in> pairs")
    case True
    with 2(1) 2(3) sym show ?thesis by auto
  next
    case False
    then have "(d, i) \<notin> pairs" using sym by blast
    have IH: "(x, y, n) \<in> set (net_all am rest ?P) \<longleftrightarrow>
        (x, y) \<notin> ?P \<and> ((x, y) \<in> fst ` set rest \<or> (y, x) \<in> fst ` set rest) \<and> n = net_of am (x, y) \<and> 0 < n"
      using 2(2) [OF False] 2(3) sym by auto
    have "(x, y, n) \<in> set (net_all am (((i, d), f) # rest) pairs) \<longleftrightarrow>
        net_pair am i d f = Some (x, y, n) \<or> (x, y, n) \<in> set (net_all am rest ?P)"
      using False by (auto simp: Let_def split: option.split)
    then show ?thesis unfolding IH net_pair_iff [OF f] using False \<open>(d, i) \<notin> pairs\<close> by auto
  qed
qed simp

lemma net_all_distinct:
  assumes "\<forall>(k, f) \<in> set es. map_of am k = Some f" and "\<forall>i d. (i, d) \<in> pairs \<longrightarrow> (d, i) \<in> pairs"
  shows "distinct (map (\<lambda>(x, y, n). (x, y)) (net_all am es pairs))"
  using assms
proof (induction am es pairs rule: net_all.induct)
  case (2 am i d f rest pairs)
  let ?P = "insert (d, i) (insert (i, d) pairs)"
  have f: "map_of am (i, d) = Some f" using 2 by auto
  show ?case
  proof (cases "(i, d) \<in> pairs")
    case True
    with 2 show ?thesis by simp
  next
    case False
    have sym: "\<forall>i d. (i, d) \<in> ?P \<longrightarrow> (d, i) \<in> ?P" using 2(4) by auto
    have rest: "\<forall>(k, f) \<in> set rest. map_of am k = Some f" using 2(3) by simp
    have "(x, y) \<notin> (\<lambda>(x, y, n). (x, y)) ` set (net_all am rest ?P)" if "net_pair am i d f = Some (x, y, n)" for x y n
      using that net_all_set [OF rest sym] net_pair_iff [OF f] by (force simp del: net_all.simps)
    with 2(2) [OF False rest sym] False show ?thesis by (auto simp: Let_def split: option.split)
  qed
qed simp

text \<open>The hash map yields each of its entries once.\<close>

definition hash_laws :: "hash_order \<Rightarrow> bool" where
  "hash_laws order \<longleftrightarrow> (\<forall>es. mset (order es) = mset es)"

lemma fold_update_keyed:
  "keyed (acc @ rows) \<Longrightarrow> fold (\<lambda>(k, v). AList.update k v) rows acc = acc @ rows"
proof (induction rows arbitrary: acc)
  case (Cons r rows)
  obtain k v where r: "r = (k, v)" by (cases r)
  have "AList.update k v acc = acc @ [(k, v)]" if "k \<notin> fst ` set acc" for k :: 'a and v :: 'b and acc
    using that by (induction acc) auto
  moreover have "k \<notin> fst ` set acc" using Cons.prems r by (auto simp: keyed_def)
  ultimately show ?case using Cons r by simp
qed simp

lemma keyed_open: "keyed (receivables s) \<Longrightarrow> keyed (open_receivables s)"
  by (auto simp: keyed_def open_receivables_def distinct_map_filter)

lemma amount_in_open:
  assumes "amounts_ok (receivables s)"
  shows "amount_in (open_receivables s) p = amount_in (receivables s) p"
proof -
  have "open_receivables s = delete_rows (\<lambda>_ a. a \<le> 0) (receivables s)"
    by (auto simp: open_receivables_def delete_rows_def intro: filter_cong)
  with assms show ?thesis
    by (cases p) (auto simp: amounts_ok_def amount_in_def select_delete_rows split: option.split intro: order.antisym)
qed

lemma map_of_entries:
  assumes "keyed t" and "(p, a) \<in> set t"
  shows "map_of t p = Some a"
  using assms by (simp add: keyed_def)

lemma netted_char:
  assumes "amounts_ok (receivables s)" and "hash_laws order"
  shows "(x, y, n) \<in> set (netted order s) \<longleftrightarrow> n = net_of (receivables s) (x, y) \<and> 0 < n"
    and "distinct (map (\<lambda>(x, y, n). (x, y)) (netted order s))"
proof -
  let ?am = "open_receivables s"
  have k: "keyed ?am" using assms(1) by (intro keyed_open) (simp add: amounts_ok_def)
  then have am: "fold (\<lambda>(k, v). AList.update k v) ?am [] = ?am" using fold_update_keyed [of "[]"] by simp
  have set: "set (order ?am) = set ?am" using assms(2) by (metis hash_laws_def mset_eq_setD)
  then have es: "\<forall>(k, f) \<in> set (order ?am). map_of ?am k = Some f"
    using map_of_entries [OF k] by auto
  have net: "net_of ?am p = net_of (receivables s) p" for p by (simp add: net_of_def amount_in_open [OF assms(1)])
  have pos: "0 < a" if "map_of ?am p = Some a" for p a
    using map_of_SomeD [OF that] by (auto simp: open_receivables_def)
  have "p \<in> fst ` set ?am" if "0 < amount_in ?am p" for p
    using that by (auto simp: amount_in_def split: option.splits dest: map_of_SomeD intro: rev_image_eqI)
  moreover have "0 < amount_in ?am (x, y)" if "0 < net_of ?am (x, y)"
    using that pos by (auto simp: net_of_def amount_in_def split: option.splits dest!: pos)
  ultimately show "(x, y, n) \<in> set (netted order s) \<longleftrightarrow> n = net_of (receivables s) (x, y) \<and> 0 < n"
    using net_all_set [OF es, of "{}" x y n] by (auto simp: netted_def Let_def am set net)
  show "distinct (map (\<lambda>(x, y, n). (x, y)) (netted order s))"
    using net_all_distinct [OF es, of "{}"] by (simp add: netted_def Let_def am)
qed

section \<open>Netting conserves every bank's position\<close>

definition sgn_of :: "string \<Rightarrow> string \<times> string \<Rightarrow> int" where
  "sgn_of b p = signed b (fst p) (snd p) 1"

lemma signed_sgn: "signed b x y n = n * sgn_of b (x, y)"
  by (simp add: signed_def sgn_of_def)

lemma sgn_of_swap: "sgn_of b (prod.swap p) = - sgn_of b p"
  by (simp add: sgn_of_def signed_def)

lemma sum_swap:
  assumes "prod.swap ` A = A"
  shows "(\<Sum>p \<in> A. g (prod.swap p)) = (\<Sum>p \<in> A. g p)"
  using sum.reindex [OF inj_swap, of g A] assms by simp

lemma netting_sum:
  fixes f :: "string \<times> string \<Rightarrow> int"
  assumes "prod.swap ` A = A"
  defines "net \<equiv> \<lambda>p. f p - f (prod.swap p)"
  shows "(\<Sum>p \<in> A. max 0 (net p) * sgn_of b p) = (\<Sum>p \<in> A. f p * sgn_of b p)"
proof -
  let ?L = "\<Sum>p \<in> A. max 0 (net p) * sgn_of b p" and ?R = "\<Sum>p \<in> A. f p * sgn_of b p"
  have "?L = (\<Sum>p \<in> A. - (max 0 (- net p) * sgn_of b p))"
    using sum_swap [OF assms(1), of "\<lambda>p. max 0 (net p) * sgn_of b p"] by (simp add: sgn_of_swap net_def)
  then have "2 * ?L = (\<Sum>p \<in> A. max 0 (net p) * sgn_of b p + - (max 0 (- net p) * sgn_of b p))"
    by (simp only: sum.distrib mult_2)
  also have "\<dots> = (\<Sum>p \<in> A. net p * sgn_of b p)"
    by (rule sum.cong) (simp_all add: max_def)
  also have "\<dots> = ?R + (\<Sum>p \<in> A. f (prod.swap p) * sgn_of b (prod.swap p))"
    by (simp add: net_def sum.distrib [symmetric] sgn_of_swap algebra_simps)
  also have "\<dots> = 2 * ?R" by (simp only: sum_swap [OF assms(1), of "\<lambda>p. f p * sgn_of b p"] mult_2)
  finally show ?thesis by simp
qed

lemma sum_rows_amounts:
  assumes "keyed t" and "finite A" and "fst ` set t \<subseteq> A"
  shows "sum_rows (\<lambda>(i, d) a. signed b i d a) t = (\<Sum>p \<in> A. amount_in t p * sgn_of b p)"
  unfolding sum_rows_keys [OF assms]
  by (rule sum.cong) (auto simp: signed_sgn amount_in_def split: option.split)

lemma netted_sum:
  assumes "amounts_ok (receivables s)" and "hash_laws order"
  shows "(\<Sum>(x, y, n) \<leftarrow> netted order s. signed b x y n) = sum_rows (\<lambda>(i, d) a. signed b i d a) (receivables s)"
proof -
  let ?t = "receivables s" and ?N = "netted order s"
  let ?K = "fst ` set ?t" let ?A = "?K \<union> prod.swap ` ?K"
  have A: "finite ?A" "prod.swap ` ?A = ?A" by (auto simp: image_Un image_image)
  have net: "net_of ?t p = amount_in ?t p - amount_in ?t (prod.swap p)" for p by (simp add: net_of_def prod.swap_def)
  have zero: "net_of ?t p = 0" if "p \<notin> ?A" for p
  proof -
    have "p \<notin> ?K" "prod.swap p \<notin> ?K" using that by (metis UnCI imageI swap_swap)+
    then have "map_of ?t p = None" "map_of ?t (prod.swap p) = None" by (simp_all add: map_of_eq_None_iff)
    then show ?thesis by (simp add: net amount_in_def)
  qed
  have inj: "inj_on (\<lambda>(x, y, n). (x, y)) (set ?N)" and dist: "distinct ?N"
    using netted_char(2) [OF assms] by (auto simp: distinct_map)
  have set: "set ?N = (\<lambda>p. (fst p, snd p, net_of ?t p)) ` {p. 0 < net_of ?t p}"
    using netted_char(1) [OF assms] by (force simp: image_iff)
  have "(\<Sum>(x, y, n) \<leftarrow> ?N. signed b x y n) = (\<Sum>(x, y, n) \<in> set ?N. signed b x y n)"
    using dist by (rule sum_list_distinct_conv_sum_set)
  also have "\<dots> = (\<Sum>p \<in> {p. 0 < net_of ?t p}. net_of ?t p * sgn_of b p)"
    unfolding set by (subst sum.reindex) (auto simp: inj_on_def signed_sgn prod_eq_iff intro!: sum.cong)
  also have "\<dots> = (\<Sum>p \<in> ?A. max 0 (net_of ?t p) * sgn_of b p)"
  proof (rule sum.mono_neutral_cong_left [OF A(1)])
    show "{p. 0 < net_of ?t p} \<subseteq> ?A" using zero by (metis (mono_tags) mem_Collect_eq less_irrefl subsetI)
  qed (auto simp: max_def)
  also have "\<dots> = (\<Sum>p \<in> ?A. amount_in ?t p * sgn_of b p)"
    using netting_sum [OF A(2), of "amount_in ?t" b] by (simp add: net)
  also have "\<dots> = sum_rows (\<lambda>(i, d) a. signed b i d a) ?t"
    using assms(1) A(1) by (intro sum_rows_amounts [symmetric]) (auto simp: amounts_ok_def)
  finally show ?thesis .
qed

lemma net_of_bounds:
  assumes "amounts_ok t"
  shows "net_of t p \<le> i64_max"
proof -
  have "0 \<le> amount_in t q \<and> amount_in t q \<le> i64_max" for q
    using assms by (cases q) (auto simp: amounts_ok_def amount_in_def split: option.split)
  from this [of p] this [of "(snd p, fst p)"] show ?thesis unfolding net_of_def by linarith
qed

text \<open>What a bank is owed on balance over the receivables alone.\<close>

definition owed :: "'x registry_db_scheme \<Rightarrow> string \<Rightarrow> int" where
  "owed s b = sum_rows (\<lambda>(i, d) a. signed b i d a) (receivables s)"

lemma settled_from_books:
  assumes "registry_wf s" and "registry_wf u" and "hash_laws order"
  shows "registry_wf (settled_from order now s u) \<and> registry_evolves u (settled_from order now s u) \<and>
    position (settled_from order now s u) b = position u b - (owed u b - owed s b)"
proof -
  have am: "amounts_ok (receivables s)" using assms(1) by (simp add: registry_wf_def)
  have "signed b (cr_issuing_bank_id (claim_row_of now c)) (cr_depositing_bank_id (claim_row_of now c))
      (cr_net_amount_cents (claim_row_of now c)) = (\<lambda>(x, y, n). signed b x y n) c" for b c
    by (cases c) (simp add: claim_row_of_def)
  then have pos: "position (settled_from order now s u) b = position u b - (owed u b - owed s b)"
    using netted_sum [OF am assms(3), of b] by (simp add: position_def settled_from_def comp_def owed_def)
  have "claims_ok (settled_from order now s u)"
    using assms(2) netted_char(1) [OF am assms(3)] net_of_bounds [OF am]
    by (auto simp: registry_wf_def claims_ok_def settled_from_def claim_row_of_def)
  with assms(2) pos show ?thesis
    by (simp add: registry_wf_def serials_ok_def amounts_ok_def settled_from_def registry_evolves_def)
qed

lemma settled_books:
  assumes "registry_wf s" and "hash_laws order"
  shows "registry_wf (settled order now s) \<and> registry_evolves s (settled order now s) \<and>
    position (settled order now s) = position s"
  using settled_from_books [OF assms(1,1,2)] by (auto simp: fun_eq_iff)

section \<open>Behaviour without faults\<close>

lemma settle_pairs_ok:
  "faults h = [] \<Longrightarrow> settle_pairs am now (uint now) es pairs cs h =
     (Inr (cs @ map (claim_info_of now) (net_all am es pairs)),
      h\<lparr>settlement_claims := settlement_claims h @ map (claim_row_of now) (net_all am es pairs)\<rparr>)"
proof (induction am es pairs arbitrary: cs h rule: net_all.induct)
  case (2 am i d f rest pairs)
  show ?case
  proof (cases "net_pair am i d f")
    case None
    with 2 show ?thesis by (simp add: Let_def)
  next
    case (Some c)
    obtain x y n where c: "c = (x, y, n)" by (cases c)
    with Some have n: "registry_to_u64 n w = Inr (word_of_int n)" for w
      using net_pair_positive [of am i d f x y n] by simp
    show ?thesis
      using 2 Some c by (simp add: Let_def n insert_claim_def claim_row_of_def claim_info_of_def)
  qed
qed simp

lemma settle_ok:
  assumes "faults s = []" and "uint now \<le> i64_max"
  shows "settle order now s =
    (Inr (sort_key by_banks (map (claim_info_of now) (netted order s))), settled order now s)"
proof -
  from assms(2) have i64: "registry_to_i64 now w = Inr (uint now)" for w by simp
  have rows: "settle_rows s = (Inr (open_receivables s), s)"
    using assms(1) by (simp add: settle_rows_def open_receivables_def)
  show ?thesis
    unfolding settle_def settle_write_def i64 bind_of_Inr
    using assms(1) by (subst bind_op_step(1), simp, subst bind_op_step(1), rule transaction_commit_ok)
      (simp_all add: Let_def rows settle_pairs_ok clear_receivables_def netted_def settled_def)
qed

lemma distinct_map_sort_key: "distinct (map f xs) \<Longrightarrow> distinct (map f (sort_key f xs))"
  by (metis mset_eq_imp_distinct_iff mset_map mset_sort)

lemma map_by_banks: "map by_banks (map (claim_info_of now) cs) = map (\<lambda>(x, y, n). (x, y)) cs"
  by (simp add: claim_info_of_def split_def)

lemma netted_inj:
  assumes "distinct (map (\<lambda>(x, y, n). (x, y)) cs)"
  shows "inj_on by_banks (set (map (claim_info_of now) cs))"
  using assms unfolding map_by_banks [of now cs, symmetric] distinct_map by blast

lemma netted_order:
  assumes "amounts_ok (receivables s)" and "hash_laws order" and "hash_laws order'"
  shows "sort_key by_banks (map (claim_info_of now) (netted order s)) =
    sort_key by_banks (map (claim_info_of now) (netted order' s))"
proof -
  note char = netted_char [OF assms(1,2)] netted_char [OF assms(1,3)]
  have "set (netted order s) = set (netted order' s)" using char(1,3) by (auto simp: set_eq_iff)
  moreover have "distinct (netted order s)" "distinct (netted order' s)" using char(2,4) by (auto simp: distinct_map)
  ultimately have "mset (netted order s) = mset (netted order' s)" by (simp add: set_eq_iff_mset_eq_distinct)
  then show ?thesis
    by (intro sort_key_inj_key_eq netted_inj char(2)) simp_all
qed

lemma claims_char:
  assumes "amounts_ok (receivables s)" and "hash_laws order"
  shows "c \<in> set (sort_key by_banks (map (claim_info_of now) (netted order s))) \<longleftrightarrow>
    cl_window_end c = now \<and> 0 < uint (cl_net_amount_cents c) \<and>
    uint (cl_net_amount_cents c) = net_of (receivables s) (by_banks c)"
proof -
  have uint: "uint (word_of_int n :: u64) = n" if "0 < n" "n = net_of (receivables s) p" for n p
    using that net_of_bounds [OF assms(1), of p] by (simp add: uint_word_of_int)
  have "c \<in> set (sort_key by_banks (map (claim_info_of now) (netted order s))) \<longleftrightarrow>
      (\<exists>x y n. c = claim_info_of now (x, y, n) \<and> n = net_of (receivables s) (x, y) \<and> 0 < n)"
    using netted_char(1) [OF assms] by (force simp: image_iff)
  also have "\<dots> \<longleftrightarrow> cl_window_end c = now \<and> 0 < uint (cl_net_amount_cents c) \<and>
      uint (cl_net_amount_cents c) = net_of (receivables s) (by_banks c)" (is "?l \<longleftrightarrow> ?r")
  proof
    show "?l \<Longrightarrow> ?r" using uint by (auto simp: claim_info_of_def)
    assume r: ?r
    then have "cl_window_end c = now" by simp
    then have "c = claim_info_of now (cl_issuing_bank_id c, cl_depositing_bank_id c, uint (cl_net_amount_cents c))"
      by (cases c) (simp add: claim_info_of_def)
    with r show ?l by blast
  qed
  finally show ?thesis .
qed

section \<open>Properties\<close>

text \<open>
  C24: settlement is netting, whatever order the hash map yields the pairs in. When the database
  answers, the claims returned are sorted by (issuing, depositing) with one claim per pair, and
  there is a claim from one bank to another exactly when its receivable exceeds the reverse one,
  for the difference; any other iteration order returns the same list. The receivables are
  cleared, the claims are appended to the ledger, and a second settlement right after returns and
  records nothing.
\<close>

theorem settle_nets:
  assumes "registry_wf s" and "hash_laws order" and "hash_laws order'" and "faults s = []"
    and "uint now \<le> i64_max" and "uint now' \<le> i64_max"
  shows "\<exists>claims rows s'. settle order now s = (Inr claims, s') \<and>
    fst (settle order' now s) = Inr claims \<and>
    sorted (map by_banks claims) \<and> distinct (map by_banks claims) \<and>
    (\<forall>c. c \<in> set claims \<longleftrightarrow> cl_window_end c = now \<and> 0 < uint (cl_net_amount_cents c) \<and>
       uint (cl_net_amount_cents c) =
         receivable_of s (cl_issuing_bank_id c, cl_depositing_bank_id c) -
         receivable_of s (cl_depositing_bank_id c, cl_issuing_bank_id c)) \<and>
    s' = s\<lparr>receivables := [], settlement_claims := settlement_claims s @ rows\<rparr> \<and>
    mset (map (\<lambda>r. (cr_issuing_bank_id r, cr_depositing_bank_id r, cr_net_amount_cents r, cr_window_end r)) rows) =
    mset (map (\<lambda>c. (cl_issuing_bank_id c, cl_depositing_bank_id c, uint (cl_net_amount_cents c), uint now)) claims) \<and>
    settle order' now' s' = (Inr [], s')"
proof -
  have am: "amounts_ok (receivables s)" using assms(1) by (simp add: registry_wf_def)
  let ?claims = "sort_key by_banks (map (claim_info_of now) (netted order s))"
  let ?rows = "map (claim_row_of now) (netted order s)" and ?s' = "settled order now s"
  have amt: "receivable_of s = amount_in (receivables s)"
    by (simp add: receivable_of_def amount_in_def fun_eq_iff)
  have run: "settle order now s = (Inr ?claims, ?s')" "fst (settle order' now s) = Inr ?claims"
    using settle_ok [OF assms(4,5)] netted_order [OF am assms(2,3)] by simp_all
  have "distinct (map by_banks (map (claim_info_of now) (netted order s)))"
    using netted_char(2) [OF am assms(2)] unfolding map_by_banks .
  then have dist: "distinct (map by_banks ?claims)" by (rule distinct_map_sort_key)
  have "uint (word_of_int n :: u64) = n" if "(x, y, n) \<in> set (netted order s)" for x y n
    using netted_char(1) [OF am assms(2)] that net_of_bounds [OF am, of "(x, y)"] by (simp add: uint_word_of_int)
  then have rows: "map (\<lambda>r. (cr_issuing_bank_id r, cr_depositing_bank_id r, cr_net_amount_cents r, cr_window_end r)) ?rows =
      map (\<lambda>c. (cl_issuing_bank_id c, cl_depositing_bank_id c, uint (cl_net_amount_cents c), uint now))
        (map (claim_info_of now) (netted order s))"
    by (auto simp: claim_row_of_def claim_info_of_def)
  have "mset (map (\<lambda>r. (cr_issuing_bank_id r, cr_depositing_bank_id r, cr_net_amount_cents r, cr_window_end r)) ?rows) =
      mset (map (\<lambda>c. (cl_issuing_bank_id c, cl_depositing_bank_id c, uint (cl_net_amount_cents c), uint now)) ?claims)"
    unfolding rows by (simp only: mset_map mset_sort)
  moreover have "netted order' ?s' = []"
    using assms(3) by (simp add: netted_def settled_def open_receivables_def hash_laws_def)
      (metis mset_zero_iff net_all.simps(1))
  then have "settle order' now' ?s' = (Inr [], ?s')"
    using assms(4) settle_ok [OF _ assms(6), of ?s' order'] by (simp add: settled_def)
  moreover have "\<forall>c. c \<in> set ?claims \<longleftrightarrow> cl_window_end c = now \<and> 0 < uint (cl_net_amount_cents c) \<and>
       uint (cl_net_amount_cents c) = receivable_of s (by_banks c) -
         receivable_of s (cl_depositing_bank_id c, cl_issuing_bank_id c)"
    using claims_char [OF am assms(2)] by (simp add: amt net_of_def)
  moreover have "?s' = s\<lparr>receivables := [], settlement_claims := settlement_claims s @ ?rows\<rparr>"
    by (simp add: settled_def)
  ultimately show ?thesis using run dist sorted_sort_key [of by_banks] by blast
qed

text \<open>
  C25: what settlement does to the banks' positions (what each is owed less what it owes, over
  receivables and claims together), at the isolation the code runs at. Whatever the database does
  during a settlement, whatever it answers and whatever other connections commit between its query
  and its writes: the tables stay well-formed; either it has done nothing, or it has added to what
  others recorded and cleared the receivables, and every position is the one others left, less what
  they changed in the receivables after the query. So positions are unchanged when no receivable
  changed in between, in particular when settlement runs alone (\<open>settle_alone\<close>); a submission
  accepted in between loses its receivable (\<open>settle_race\<close>). An answer with claims means it was done.
\<close>

theorem settle_conserves:
  assumes "registry_wf s" and "registry_wf (committed others s)" and "hash_laws order"
    and "settle_between others order now s = (r, s')"
  shows "registry_wf s' \<and>
    (same_tables s s' \<and> isl r \<or> same_tables (committed others s) s' \<and> isl r \<or>
     registry_evolves (committed others s) s' \<and> receivables s' = [] \<and>
     (\<forall>b. position s' b = position (committed others s) b - (owed (committed others s) b - owed s b)) \<and>
     (receivables (committed others s) = receivables s \<longrightarrow> position s' = position (committed others s)))"
proof -
  let ?u = "committed others s"
  have "same_tables s s' \<and> isl r \<or> same_tables ?u s' \<and> isl r \<or> same_tables (settled_from order now s ?u) s'"
    using hoare_Inr [OF hoare_settle_between same_tables_refl, of others order now s _ s']
      hoare_Inl [OF hoare_settle_between same_tables_refl, of others order now s _ s'] assms(4)
    by (cases r) auto
  then consider (none) "same_tables s s'" "isl r" | (others) "same_tables ?u s'" "isl r"
    | (cleared) "same_tables (settled_from order now s ?u) s'" by blast
  then show ?thesis
  proof cases
    case none
    with assms(1) show ?thesis by (auto dest: same_tablesD)
  next
    case others
    with assms(2) show ?thesis by (auto dest: same_tablesD)
  next
    case cleared
    then obtain fs where "s' = (settled_from order now s ?u)\<lparr>faults := fs\<rparr>" by (auto dest: same_tablesD)
    moreover have "receivables (settled_from order now s ?u) = []" by (simp add: settled_from_def)
    ultimately show ?thesis
      using settled_from_books [OF assms(1,2,3), of now] by (auto simp: owed_def fun_eq_iff)
  qed
qed

section \<open>Concrete runs\<close>

lemma hash_laws_demo: "hash_laws rev" "hash_laws (\<lambda>es. es)"
  by (simp_all add: hash_laws_def)

theorem settle_nets_witness:
  "\<exists>claims. fst (settle rev 9 demo_registry) = Inr claims \<and> fst (settle (\<lambda>es. es) 9 demo_registry) = Inr claims \<and>
     \<lparr>cl_issuing_bank_id = ''a'', cl_depositing_bank_id = ''b'', cl_net_amount_cents = 6, cl_window_end = 9\<rparr> \<in> set claims"
proof -
  have "uint (9 :: u64) \<le> i64_max" by simp
  from settle_nets [OF demo_registry_wf hash_laws_demo demo_registry_simps(1) this this]
  show ?thesis by (auto simp: receivable_of_def)
qed

text \<open>
  A submission of bank b, worth 8, commits between the query of a settlement and its DELETE: it is
  accepted, its receivable is in no claim, and bank b ends with a position of 6 instead of 14.
\<close>

lemma settle_race_books:
  "registry_wf (committed demo_race demo_registry)" "faults (committed demo_race demo_registry) = []"
  "position (committed demo_race demo_registry) ''b'' = 14"
  "owed (committed demo_race demo_registry) ''b'' - owed demo_registry ''b'' = 8"
proof -
  let ?sub = "demo_submission ''a'' ''03''"
  have new: "submit_outcome ''b'' ?sub demo_registry = SerialAccepted" "submit_fits ''b'' ?sub demo_registry"
    by (simp_all add: submit_fits_def submit_outcome_def over_cap_def receivable_of_def serial_key_def demo_submission_def)
  have "position demo_registry ''b'' = 6" by (simp add: position_def signed_def)
  moreover have "signed ''b'' (ss_issuing_bank_id ?sub) ''b'' (uint (ss_denomination_cents ?sub)) = 8"
    by (simp add: signed_def demo_submission_def)
  ultimately show "registry_wf (committed demo_race demo_registry)" "position (committed demo_race demo_registry) ''b'' = 14"
    unfolding committed_demo_race
    using submitted_books [OF demo_registry_wf new(2), of 7 "''b''"] new(1) by simp_all
  show "faults (committed demo_race demo_registry) = []"
    "owed (committed demo_race demo_registry) ''b'' - owed demo_registry ''b'' = 8"
    unfolding committed_demo_race using new(1)
    by (simp_all add: submitted_def owed_def signed_def demo_submission_def add_owed_def update_row_def)
qed

lemma settle_race_run:
  "settle_between demo_race rev 9 demo_registry =
     (Inr (sort_key by_banks (map (claim_info_of 9) (netted rev demo_registry))),
      settled_from rev 9 demo_registry (committed demo_race demo_registry))"
proof -
  let ?u = "committed demo_race demo_registry"
  have rows: "settle_rows demo_registry = (Inr (open_receivables demo_registry), demo_registry)"
    by (simp add: settle_rows_def open_receivables_def)
  have uint: "uint (9 :: u64) = 9" by simp
  have "transaction RegistryDb (settle_write rev 9 9 (open_receivables demo_registry)) ?u =
      (Inr (map (claim_info_of 9) (netted rev demo_registry)), settled_from rev 9 demo_registry ?u)"
    using settle_pairs_ok [OF settle_race_books(2), of _ 9] unfolding uint
    by (intro transaction_commit_ok)
      (simp_all add: settle_race_books settle_write_def Let_def clear_receivables_def netted_def settled_from_def)
  then show ?thesis
    by (simp add: settle_between_def transaction_between_ok [where reads = settle_rows, OF _ rows]
        registry_to_i64_def i64_try_from_def)
qed

lemma settle_race:
  "position (committed demo_race demo_registry) ''b'' = 14 \<and>
   position (snd (settle_between demo_race rev 9 demo_registry)) ''b'' = 6"
  unfolding settle_race_run
  using settled_from_books [OF demo_registry_wf settle_race_books(1) hash_laws_demo(1), of 9 "''b''"]
  by (simp add: settle_race_books)

theorem settle_conserves_witness:
  "position (snd (settle_between demo_race rev 9 demo_registry)) ''b'' = 14 - 8"
  using settle_conserves [OF demo_registry_wf settle_race_books(1) hash_laws_demo(1) settle_race_run]
  unfolding settle_race_run by (simp add: settle_race_books)

end
