(* ===== verification/Registry_Api.thy ===== *)
theory Registry_Api
  imports Registry_Settle Http_Auth
begin

text \<open>
  The registry's HTTP surface: the request-signing middleware (\<open>auth.rs\<close>), the handlers and the
  router (\<open>api.rs\<close>), and the seeding of the administrator (\<open>main.rs\<close>). What axum and serde do is
  an argument, as for the bank.
\<close>

section \<open>Authentication (\<open>auth.rs\<close>)\<close>

datatype AuthenticatedBank = AuthenticatedBank (authenticated_bank: string)

definition registry_authenticate ::
  "digests \<Rightarrow> ('sgk, 'vk) ed25519 \<Rightarrow> u64 \<Rightarrow> http_request
   \<Rightarrow> ('x registry_db_scheme, RegistryError AuthRejection, AuthenticatedBank \<times> http_request) op" where
  "registry_authenticate H D now rq =
     bind_op (of_result (ok_or (bad_request ''request body too large or unreadable'')
                (to_bytes (rq_body rq) MAX_BODY_BYTES))) (\<lambda>body.
     bind_op (of_result (map_err headers_rejection (from_lookup (rq_header rq)))) (\<lambda>auth.
     bind_op (map_err_op internal (member_pubkey D (ah_account_id auth))) (\<lambda>found.
     bind_op (of_result (ok_or (unauthorized ''bank is not a registered member'') found)) (\<lambda>pubkey.
     if outside_window (ah_timestamp auth) now
     then fail (unauthorized ''request timestamp outside the accepted window'')
     else
       bind_op (of_result (decode_signature H (ah_signature auth))) (\<lambda>sig.
       let payload = canonical_payload H (rq_method rq) (rq_path rq) body (ah_timestamp auth) (ah_nonce auth) in
       bind_op (of_result (map_err (\<lambda>_. unauthorized ''signature verification failed'')
                  (identity_verify D pubkey (str_bytes payload) sig))) (\<lambda>_.
       bind_op (map_err_op internal (registry_check_and_record_nonce (ah_nonce auth) now NONCE_TTL_SECS)) (\<lambda>fresh.
       if \<not> fresh then fail (unauthorized ''nonce already used (replay)'')
       else ret (AuthenticatedBank (ah_account_id auth), rq\<lparr>rq_body := Some body\<rparr>))))))))"

section \<open>Handlers (\<open>api.rs\<close>)\<close>

record RegistryApiError =
  re_status :: int
  re_message :: "string + RegistryError"

fun registry_error_status :: "RegistryError \<Rightarrow> int" where
  "registry_error_status (MemberExists _) = 409"
| "registry_error_status _ = 500"

definition registry_error_from :: "RegistryError \<Rightarrow> RegistryApiError" where
  "registry_error_from e = \<lparr>re_status = registry_error_status e, re_message = Inr e\<rparr>"

definition registry_error :: "int \<Rightarrow> string \<Rightarrow> RegistryApiError" where
  "registry_error status msg = \<lparr>re_status = status, re_message = Inl msg\<rparr>"

definition ensure_admin :: "AuthenticatedBank \<Rightarrow> ('x registry_db_scheme, RegistryApiError, unit) op" where
  "ensure_admin auth =
     bind_op (map_err_op registry_error_from (is_admin (authenticated_bank auth))) (\<lambda>admin.
       if admin then ret ()
       else fail (registry_error 403 (authenticated_bank auth @ '' is not the registry admin'')))"

definition parse_pubkey ::
  "digests \<Rightarrow> ('sgk, 'vk) ed25519 \<Rightarrow> string \<Rightarrow> RegistryApiError + 'vk IdentityPublicKey" where
  "parse_pubkey H D pubkey_hex =
     bind_result (ok_or (registry_error 400 ''pubkey_hex is not valid hex'') (hex_decode H pubkey_hex)) (\<lambda>raw.
     if length raw \<noteq> IDENTITY_PUBLIC_KEY_LEN then Inl (registry_error 400 ''pubkey must be 32 bytes'')
     else map_err (\<lambda>e. registry_error 400 (core_error_to_string e)) (identity_from_bytes D raw))"

definition health :: "('x registry_db_scheme, RegistryApiError, string) op" where
  "health = bind_op (map_err_op registry_error_from ping) (\<lambda>_. ret ''ok'')"

definition register_member_handler ::
  "digests \<Rightarrow> ('sgk, 'vk) ed25519 \<Rightarrow> AuthenticatedBank \<Rightarrow> RegisterMemberRequest
   \<Rightarrow> ('x registry_db_scheme, RegistryApiError, int) op" where
  "register_member_handler H D auth req =
     bind_op (ensure_admin auth) (\<lambda>_.
     bind_op (of_result (parse_pubkey H D (rm_pubkey_hex req))) (\<lambda>pubkey.
     bind_op (map_err_op registry_error_from (register_member D (rm_bank_id req) pubkey False)) (\<lambda>_.
       ret 200)))"

definition list_members_handler ::
  "digests \<Rightarrow> (string \<Rightarrow> 'c :: linorder) \<Rightarrow> AuthenticatedBank \<Rightarrow> ('x registry_db_scheme, RegistryApiError, MemberInfo list) op" where
  "list_members_handler H collation auth = map_err_op registry_error_from (list_members H collation)"

definition post_serial ::
  "u64 \<Rightarrow> AuthenticatedBank \<Rightarrow> SerialSubmission \<Rightarrow> ('x registry_db_scheme, RegistryApiError, SerialResponse) op" where
  "post_serial now auth req = map_err_op registry_error_from (submit_serial (authenticated_bank auth) req now)"

definition get_caps ::
  "(string \<Rightarrow> 'c :: linorder) \<Rightarrow> AuthenticatedBank \<Rightarrow> ('x registry_db_scheme, RegistryApiError, CapInfo list) op" where
  "get_caps collation auth = map_err_op registry_error_from (list_caps collation)"

definition set_cap_handler ::
  "AuthenticatedBank \<Rightarrow> SetCapRequest \<Rightarrow> ('x registry_db_scheme, RegistryApiError, int) op" where
  "set_cap_handler auth req =
     bind_op (ensure_admin auth) (\<lambda>_.
     bind_op (map_err_op registry_error_from
                (set_cap (sc_issuing_bank_id req) (sc_depositing_bank_id req) (sc_cap_cents req))) (\<lambda>_.
       ret 200))"

definition post_settle ::
  "hash_order \<Rightarrow> u64 \<Rightarrow> AuthenticatedBank \<Rightarrow> ('x registry_db_scheme, RegistryApiError, SettlementClaimInfo list) op" where
  "post_settle hash_order now auth =
     bind_op (ensure_admin auth) (\<lambda>_. map_err_op registry_error_from (settle hash_order now))"

subsection \<open>The router\<close>

datatype registry_reply =
    StatusReply int
  | MembersReply "MemberInfo list"
  | SerialReply SerialResponse
  | CapsReply "CapInfo list"
  | SettleReply "SettlementClaimInfo list"
  | HealthReply string

datatype registry_failure =
    RegistryRejected "RegistryError AuthRejection"
  | RegistryFailed RegistryApiError
  | RegistryUnextracted int
  | RegistryUnrouted int

record registry_extractors =
  rx_register :: "http_request \<Rightarrow> int + RegisterMemberRequest"
  rx_serial :: "http_request \<Rightarrow> int + SerialSubmission"
  rx_cap :: "http_request \<Rightarrow> int + SetCapRequest"

definition registry_verify_signed_request ::
  "digests \<Rightarrow> ('sgk, 'vk) ed25519 \<Rightarrow> u64 \<Rightarrow> http_request
   \<Rightarrow> (AuthenticatedBank \<Rightarrow> http_request \<Rightarrow> ('x registry_db_scheme, registry_failure, 'a) op)
   \<Rightarrow> ('x registry_db_scheme, registry_failure, 'a) op" where
  "registry_verify_signed_request H D now rq next =
     bind_op (map_err_op RegistryRejected (registry_authenticate H D now rq)) (\<lambda>(auth, rq'). next auth rq')"

definition registry_handle ::
  "('b \<Rightarrow> registry_reply) \<Rightarrow> int + 'q \<Rightarrow> ('q \<Rightarrow> ('s, RegistryApiError, 'b) op) \<Rightarrow> ('s, registry_failure, registry_reply) op" where
  "registry_handle wrap extracted handler =
     bind_op (of_result (map_err RegistryUnextracted extracted)) (\<lambda>req.
     bind_op (map_err_op RegistryFailed (handler req)) (\<lambda>resp. ret (wrap resp)))"

text \<open>
  The middleware and the handler read the clock separately: \<open>now\<close> and \<open>later\<close>. The middleware wraps
  whole routes: a path that exists under another method is answered 405 behind it; axum's \<open>get\<close> answers HEAD too.
\<close>

definition registry_get :: "string \<Rightarrow> bool" where
  "registry_get m \<longleftrightarrow> m = ''GET'' \<or> m = ''HEAD''"

definition registry_router ::
  "registry_extractors \<Rightarrow> digests \<Rightarrow> ('sgk, 'vk) ed25519 \<Rightarrow> (string \<Rightarrow> 'c :: linorder) \<Rightarrow> hash_order \<Rightarrow> u64 \<Rightarrow> u64
   \<Rightarrow> http_request \<Rightarrow> ('x registry_db_scheme, registry_failure, registry_reply) op" where
  "registry_router X H D collation hash_order now later rq =
     (let protected = registry_verify_signed_request H D now rq in
      if rq_path rq = ''/members'' then
        if rq_method rq = ''POST''
        then protected (\<lambda>auth rq'. registry_handle StatusReply (rx_register X rq') (register_member_handler H D auth))
        else if registry_get (rq_method rq)
        then protected (\<lambda>auth rq'. registry_handle MembersReply (Inr ()) (\<lambda>_. list_members_handler H collation auth))
        else protected (\<lambda>auth rq'. fail (RegistryUnrouted 405))
      else if rq_path rq = ''/serials'' then
        if rq_method rq = ''POST''
        then protected (\<lambda>auth rq'. registry_handle SerialReply (rx_serial X rq') (post_serial later auth))
        else protected (\<lambda>auth rq'. fail (RegistryUnrouted 405))
      else if rq_path rq = ''/caps'' then
        if rq_method rq = ''POST''
        then protected (\<lambda>auth rq'. registry_handle StatusReply (rx_cap X rq') (set_cap_handler auth))
        else if registry_get (rq_method rq)
        then protected (\<lambda>auth rq'. registry_handle CapsReply (Inr ()) (\<lambda>_. get_caps collation auth))
        else protected (\<lambda>auth rq'. fail (RegistryUnrouted 405))
      else if rq_path rq = ''/settle'' then
        if rq_method rq = ''POST''
        then protected (\<lambda>auth rq'. registry_handle SettleReply (Inr ()) (\<lambda>_. post_settle hash_order later auth))
        else protected (\<lambda>auth rq'. fail (RegistryUnrouted 405))
      else if rq_path rq = ''/health'' then
        if registry_get (rq_method rq)
        then registry_handle HealthReply (Inr ()) (\<lambda>_. health)
        else fail (RegistryUnrouted 405)
      else fail (RegistryUnrouted 404))"

section \<open>Seeding the administrator (\<open>main.rs\<close>)\<close>

datatype seed_error =
    SeedHex
  | SeedLength
  | SeedCore CoreError
  | SeedRegistry RegistryError

text \<open>The configured key as text, \<open>None\<close> when the variable is not set.\<close>

definition seed_admin ::
  "digests \<Rightarrow> ('sgk, 'vk) ed25519 \<Rightarrow> string option \<Rightarrow> ('x registry_db_scheme, seed_error, unit) op" where
  "seed_admin H D configured =
     (case configured of
        None \<Rightarrow> ret ()
      | Some admin_pubkey_hex \<Rightarrow>
          bind_op (of_result (ok_or SeedHex (hex_decode H (str_trim admin_pubkey_hex)))) (\<lambda>raw.
          if length raw \<noteq> IDENTITY_PUBLIC_KEY_LEN then fail SeedLength
          else
            bind_op (of_result (map_err SeedCore (identity_from_bytes D raw))) (\<lambda>pubkey.
              catch_op (register_member D ''admin'' pubkey True)
                (\<lambda>e. case e of MemberExists _ \<Rightarrow> ret () | e \<Rightarrow> fail (SeedRegistry e))
                (\<lambda>_. ret ()))))"

section \<open>Authentication over the registry's tables\<close>

lemma registry_authenticate_signed:
  "registry_authenticate H D = signed_request H D AuthenticatedBank ''bank is not a registered member''
     (member_pubkey D) registry_check_and_record_nonce"
  by (simp add: fun_eq_iff registry_authenticate_def signed_request_def)

lemmas registry_authenticate_Inr = signed_request_Inr [where wrap = AuthenticatedBank
    and absent = "''bank is not a registered member''" and lookup = "member_pubkey D"
    and check = registry_check_and_record_nonce and D = D for D, folded registry_authenticate_signed]

lemma member_pubkey_same:
  assumes "member_pubkey D b s = (r, s')"
  shows "same_tables s s'"
proof -
  have "keeps (same_tables s) (member_pubkey D b)" unfolding member_pubkey_def by (intro wp) simp_all
  from keepsD [OF this same_tables_refl assms] show ?thesis .
qed

lemma member_pubkey_Inr:
  assumes "member_pubkey D b s = (Inr (Some pk), s')"
  shows "\<exists>row. map_of (members s) b = Some row \<and> identity_from_bytes D (mb_pubkey row) = Inr pk"
proof -
  from assms obtain s1 row where "pool_get RegistryPool s = (Inr (), s1)"
    and q: "query RegistryDb (\<lambda>s. map_option mb_pubkey (map_of (members s) b)) s1 = (Inr row, s')"
    and row: "row \<noteq> None" "\<And>k. row = Some k \<Longrightarrow> identity_from_bytes D k = Inr pk"
    by (auto simp: member_pubkey_def bind_op_Inr split: option.splits if_splits)
  then have "row = map_option mb_pubkey (map_of (members s) b)"
    by (auto dest!: pool_get_Inr query_Inr)
  with row show ?thesis by auto
qed

interpretation registry_auth: request_auth registry_check_and_record_nonce registry_nonces "member_pubkey D"
  for D
proof
  show "registry_nonces s' = registry_nonces s" if "member_pubkey D a s = (r, s')"
    for a and s s' :: "'x registry_db_scheme" and r
    using member_pubkey_same [OF that] by (auto dest!: same_tablesD)
qed

lemma keeps_quiet_authenticate [wp]: "keeps (quiet h) (registry_authenticate H D now rq)"
  unfolding registry_authenticate_def Let_def by (intro wp)

section \<open>What a handler may do on behalf of a bank\<close>

definition is_admin_in :: "'x registry_db_scheme \<Rightarrow> string \<Rightarrow> bool" where
  "is_admin_in s b \<longleftrightarrow> (\<exists>row. map_of (members s) b = Some row \<and> mb_is_admin row)"

text \<open>
  Nothing; a submission as the depositing bank; and, for an administrator, a new member without
  administrator rights, a cap, or a settlement.
\<close>

inductive bank_acts :: "('sgk, 'vk) ed25519 \<Rightarrow> hash_order \<Rightarrow> string \<Rightarrow> u64 \<Rightarrow> 'x registry_db_scheme \<Rightarrow> 'x registry_db_scheme \<Rightarrow> bool"
  for D order b now s where
  acts_quiet: "same_tables s s' \<Longrightarrow> bank_acts D order b now s s'"
| acts_submit: "submit_serial b sub now s = (r, s') \<Longrightarrow> bank_acts D order b now s s'"
| acts_register: "is_admin_in s b \<Longrightarrow> same_tables s s1 \<Longrightarrow> register_member D m pk False s1 = (r, s') \<Longrightarrow> bank_acts D order b now s s'"
| acts_cap: "is_admin_in s b \<Longrightarrow> same_tables s s1 \<Longrightarrow> set_cap i d cap s1 = (r, s') \<Longrightarrow> bank_acts D order b now s s'"
| acts_settle: "is_admin_in s b \<Longrightarrow> same_tables s s1 \<Longrightarrow> settle order now s1 = (r, s') \<Longrightarrow> bank_acts D order b now s s'"

lemma is_admin_run:
  assumes "is_admin b s = (r, s')"
  shows "same_tables s s' \<and> (r = Inr True \<longrightarrow> is_admin_in s b)"
proof -
  have "keeps (same_tables s) (is_admin b)" unfolding is_admin_def by (intro wp) simp_all
  from keepsD [OF this same_tables_refl assms] have "same_tables s s'" .
  moreover have "is_admin_in s b" if "r = Inr True"
  proof -
    from assms that obtain s1 row where "pool_get RegistryPool s = (Inr (), s1)"
      and q: "query RegistryDb (\<lambda>s. map_option mb_is_admin (map_of (members s) b)) s1 = (Inr row, s')"
      and row: "case row of Some a \<Rightarrow> a | None \<Rightarrow> False"
      by (auto simp: is_admin_def bind_op_Inr)
    then have "row = map_option mb_is_admin (map_of (members s) b)"
      by (auto dest!: pool_get_Inr query_Inr)
    with row show ?thesis by (auto simp: is_admin_in_def split: option.splits)
  qed
  ultimately show ?thesis by blast
qed

lemma ensure_admin_run:
  assumes "ensure_admin auth s = (r, s')"
  shows "same_tables s s' \<and> (r = Inr () \<longrightarrow> is_admin_in s (authenticated_bank auth))"
proof -
  obtain x s1 where x: "is_admin (authenticated_bank auth) s = (x, s1)" by fastforce
  then have "map_err_op registry_error_from (is_admin (authenticated_bank auth)) s = (map_err registry_error_from x, s1)"
    by (cases x) (simp_all add: map_err_op_eq)
  then have "s' = s1 \<and> (r = Inr () \<longrightarrow> x = Inr True)"
    using assms by (cases x) (auto simp: ensure_admin_def split: if_splits)
  with is_admin_run [OF x] show ?thesis by simp
qed

text \<open>A handler behind the administrator check runs only for one.\<close>

lemma guarded_run:
  assumes "bind_op (ensure_admin auth) (\<lambda>_. m) s = (r, s')"
  obtains (refused) "same_tables s s'"
  | (granted) s1 where "is_admin_in s (authenticated_bank auth)" "same_tables s s1" "m s1 = (r, s')"
proof -
  obtain x s1 where x: "ensure_admin auth s = (x, s1)" by fastforce
  with assms ensure_admin_run [OF x] refused granted show thesis by (cases x) auto
qed

lemma keeps_same_reads:
  "keeps (same_tables h) (list_members H collation)" "keeps (same_tables h) (list_caps collation)"
  "keeps (same_tables h) ping"
  unfolding list_members_def list_caps_def ping_def by (intro wp, simp_all)+

lemma map_err_op_run: "map_err_op g m s = (r, s') \<Longrightarrow> \<exists>q. m s = (q, s')"
  by (cases r) (auto simp: map_err_op_eq)

lemma bind_pure_run:
  "bind_op (map_err_op g m) (\<lambda>x. ret (f x)) s = (r, s') \<Longrightarrow> \<exists>q. m s = (q, s')"
  by (cases "m s"; cases "fst (m s)") (auto simp: bind_op_def map_err_op_def)

lemma handlers_act:
  shows "register_member_handler H D auth q s = (r, s') \<Longrightarrow> bank_acts D order (authenticated_bank auth) now s s'"
    and "list_members_handler H collation auth s = (r1, s') \<Longrightarrow> bank_acts D order (authenticated_bank auth) now s s'"
    and "post_serial now auth sub s = (r2, s') \<Longrightarrow> bank_acts D order (authenticated_bank auth) now s s'"
    and "get_caps collation auth s = (r3, s') \<Longrightarrow> bank_acts D order (authenticated_bank auth) now s s'"
    and "set_cap_handler auth c s = (r4, s') \<Longrightarrow> bank_acts D order (authenticated_bank auth) now s s'"
    and "post_settle order now auth s = (r5, s') \<Longrightarrow> bank_acts D order (authenticated_bank auth) now s s'"
proof -
  show "bank_acts D order (authenticated_bank auth) now s s'" if "register_member_handler H D auth q s = (r, s')"
    using that unfolding register_member_handler_def
  proof (cases rule: guarded_run)
    case (granted s1)
    then show ?thesis
      by (cases "parse_pubkey H D (rm_pubkey_hex q)")
        (auto dest!: bind_pure_run simp: bind_of_result intro: acts_quiet acts_register)
  qed (rule acts_quiet)
  show "bank_acts D order (authenticated_bank auth) now s s'" if "set_cap_handler auth c s = (r4, s')"
    using that unfolding set_cap_handler_def
    by (cases rule: guarded_run) (auto dest!: bind_pure_run intro: acts_quiet acts_cap)
  show "bank_acts D order (authenticated_bank auth) now s s'" if "post_settle order now auth s = (r5, s')"
    using that unfolding post_settle_def
    by (cases rule: guarded_run) (auto dest!: map_err_op_run intro: acts_quiet acts_settle)
  show "post_serial now auth sub s = (r2, s') \<Longrightarrow> bank_acts D order (authenticated_bank auth) now s s'"
    unfolding post_serial_def by (auto dest!: map_err_op_run intro: acts_submit)
  show "list_members_handler H collation auth s = (r1, s') \<Longrightarrow> bank_acts D order (authenticated_bank auth) now s s'"
    unfolding list_members_handler_def
    by (auto dest!: map_err_op_run intro!: acts_quiet dest: keepsD [OF keeps_same_reads(1) same_tables_refl])
  show "get_caps collation auth s = (r3, s') \<Longrightarrow> bank_acts D order (authenticated_bank auth) now s s'"
    unfolding get_caps_def
    by (auto dest!: map_err_op_run intro!: acts_quiet dest: keepsD [OF keeps_same_reads(2) same_tables_refl])
qed

lemma registry_handle_acts:
  assumes "\<And>q r s'. handler q s = (r, s') \<Longrightarrow> bank_acts D order b now s s'"
    and "registry_handle wrap x handler s = (r, s')"
  shows "bank_acts D order b now s s'"
  using assms by (cases x) (auto simp: registry_handle_def bind_of_result intro: acts_quiet dest!: bind_pure_run)

definition request_effect ::
  "digests \<Rightarrow> ('sgk, 'vk) ed25519 \<Rightarrow> hash_order \<Rightarrow> u64 \<Rightarrow> u64 \<Rightarrow> http_request \<Rightarrow> 'x registry_db_scheme \<Rightarrow> 'x registry_db_scheme \<Rightarrow> bool" where
  "request_effect H D order now later rq s s' \<longleftrightarrow>
     quiet s s' \<or>
     (\<exists>bank rq' s1. registry_authenticate H D now rq s = (Inr (AuthenticatedBank bank, rq'), s1) \<and> quiet s s1 \<and>
        bank_acts D order bank later s1 s')"

lemma registry_verify_effect:
  assumes "keyed (registry_nonces s)" and "registry_verify_signed_request H D now rq nxt s = (r, s')"
    and "\<And>auth rq' t x t'. nxt auth rq' t = (x, t') \<Longrightarrow> bank_acts D order (authenticated_bank auth) later t t'"
  shows "request_effect H D order now later rq s s'"
proof -
  obtain x s1 where auth: "registry_authenticate H D now rq s = (x, s1)" by fastforce
  have q: "quiet s s1" using keepsD [OF keeps_quiet_authenticate _ auth] assms(1) by simp
  show ?thesis
  proof (cases x)
    case (Inl e)
    with auth q assms(2) show ?thesis
      by (auto simp: registry_verify_signed_request_def request_effect_def map_err_op_def bind_op_def)
  next
    case (Inr p)
    then obtain b rq' where p: "x = Inr (AuthenticatedBank b, rq')" by (metis AuthenticatedBank.exhaust prod.exhaust)
    with auth assms(2) have "nxt (AuthenticatedBank b) rq' s1 = (r, s')"
      by (auto simp: registry_verify_signed_request_def map_err_op_def bind_op_def)
    then have "bank_acts D order (authenticated_bank (AuthenticatedBank b)) later s1 s'" by (rule assms(3))
    with auth p q show ?thesis by (auto simp: request_effect_def)
  qed
qed

lemma registry_route_effect:
  assumes "keyed (registry_nonces s)"
    and "registry_verify_signed_request H D now rq (\<lambda>auth rq'. registry_handle wrap (ex rq') (handler auth)) s = (r, s')"
    and "\<And>auth q t x t'. handler auth q t = (x, t') \<Longrightarrow> bank_acts D order (authenticated_bank auth) later t t'"
  shows "request_effect H D order now later rq s s'"
  using assms(1,2) by (rule registry_verify_effect) (rule registry_handle_acts [OF assms(3)])

lemma health_quiet: "keeps (quiet h) (registry_handle HealthReply (Inr ()) (\<lambda>_. health))"
  unfolding registry_handle_def health_def by (intro wp)

lemma registry_router_effect:
  assumes "keyed (registry_nonces s)" and "registry_router X H D collation order now later rq s = (r, s')"
  shows "request_effect H D order now later rq s s'"
proof -
  let ?v = "registry_verify_signed_request H D now rq"
  from assms(2) consider "s' = s"
    | "?v (\<lambda>auth rq'. registry_handle StatusReply (rx_register X rq') (register_member_handler H D auth)) s = (r, s')"
    | "?v (\<lambda>auth rq'. registry_handle MembersReply (Inr ()) (\<lambda>_. list_members_handler H collation auth)) s = (r, s')"
    | "?v (\<lambda>auth rq'. registry_handle SerialReply (rx_serial X rq') (post_serial later auth)) s = (r, s')"
    | "?v (\<lambda>auth rq'. registry_handle StatusReply (rx_cap X rq') (set_cap_handler auth)) s = (r, s')"
    | "?v (\<lambda>auth rq'. registry_handle CapsReply (Inr ()) (\<lambda>_. get_caps collation auth)) s = (r, s')"
    | "?v (\<lambda>auth rq'. registry_handle SettleReply (Inr ()) (\<lambda>_. post_settle order later auth)) s = (r, s')"
    | "registry_handle HealthReply (Inr ()) (\<lambda>_. health) s = (r, s')"
    | "?v (\<lambda>auth rq'. fail (RegistryUnrouted 405)) s = (r, s')"
    by (auto simp: registry_router_def Let_def split: if_splits)
  then show ?thesis
  proof cases
    case 1
    with assms(1) show ?thesis by (simp add: request_effect_def)
  next
    case 2
    from assms(1) this show ?thesis by (rule registry_route_effect) (rule handlers_act(1))
  next
    case 3
    from assms(1) this show ?thesis by (rule registry_route_effect) (rule handlers_act(2))
  next
    case 4
    from assms(1) this show ?thesis by (rule registry_route_effect) (rule handlers_act(3))
  next
    case 5
    from assms(1) this show ?thesis by (rule registry_route_effect) (rule handlers_act(5))
  next
    case 6
    from assms(1) this show ?thesis by (rule registry_route_effect) (rule handlers_act(4))
  next
    case 7
    from assms(1) this show ?thesis by (rule registry_route_effect) (rule handlers_act(6))
  next
    case 8
    from keepsD [OF health_quiet _ this, of s] assms(1) show ?thesis by (simp add: request_effect_def)
  next
    case 9
    from assms(1) this show ?thesis by (rule registry_verify_effect) (simp add: acts_quiet)
  qed
qed

section \<open>Consequences for the tables\<close>

lemma settle_run:
  assumes "settle order now s = (r, s')"
  shows "same_tables s s' \<or> same_tables (settled order now s) s'"
  using hoare_Inr [OF hoare_settle same_tables_refl, of order now s _ s']
    hoare_Inl [OF hoare_settle same_tables_refl, of order now s _ s'] assms
  by (cases r) auto

lemma registry_wf_same: "same_tables s s' \<Longrightarrow> registry_wf s \<Longrightarrow> registry_wf s' \<and> registry_evolves s s'"
  by (auto dest!: same_tablesD)

lemma settle_books:
  assumes "registry_wf s" and "hash_laws order" and "settle order now s = (r, s')"
  shows "registry_wf s' \<and> registry_evolves s s'"
  using settle_run [OF assms(3)]
proof
  assume "same_tables (settled order now s) s'"
  with settled_books [OF assms(1,2), of now] show ?thesis by (auto dest!: same_tablesD)
qed (use registry_wf_same [OF _ assms(1)] in blast)

lemma bank_acts_books:
  assumes "bank_acts D order b now s s'" and "registry_wf s" and "hash_laws order"
  shows "registry_wf s' \<and> registry_evolves s s'"
  using assms(1)
proof (cases rule: bank_acts.cases)
  case acts_quiet
  then show ?thesis using registry_wf_same assms(2) by blast
next
  case acts_submit
  then show ?thesis using submit_serial_books [OF assms(2)] by blast
next
  case (acts_register s1)
  then have 1: "registry_wf s1 \<and> registry_evolves s s1" using registry_wf_same assms(2) by blast
  then show ?thesis using register_member_books acts_register registry_evolves_trans by metis
next
  case (acts_cap s1)
  then have 1: "registry_wf s1 \<and> registry_evolves s s1" using registry_wf_same assms(2) by blast
  then show ?thesis using set_cap_books acts_cap registry_evolves_trans by metis
next
  case (acts_settle s1)
  then have 1: "registry_wf s1 \<and> registry_evolves s s1" using registry_wf_same assms(2) by blast
  then show ?thesis using settle_books [OF _ assms(3)] acts_settle registry_evolves_trans by metis
qed

text \<open>What a bank that is no administrator leaves alone, and what nobody changes.\<close>

definition within_rights :: "string \<Rightarrow> 'x registry_db_scheme \<Rightarrow> 'x registry_db_scheme \<Rightarrow> bool" where
  "within_rights b s s' \<longleftrightarrow>
     (is_admin_in s b \<or>
      members s' = members s \<and> exposure_caps s' = exposure_caps s \<and> settlement_claims s' = settlement_claims s \<and>
      (\<forall>i d. d \<noteq> b \<longrightarrow> receivable_of s' (i, d) = receivable_of s (i, d))) \<and>
     (\<forall>k f. map_of (serials s) k = None \<longrightarrow> map_of (serials s') k = Some f \<longrightarrow> first_bank_id f = b) \<and>
     (\<forall>m. is_admin_in s' m \<longleftrightarrow> is_admin_in s m)"

lemma within_rights_same: "same_tables s s' \<Longrightarrow> within_rights b s s'"
  by (auto simp: within_rights_def is_admin_in_def dest!: same_tablesD)

lemma within_rights_submitted: "within_rights b s (submitted b sub now s)"
proof (cases "submit_outcome b sub s")
  case SerialAccepted
  have "map_of (add_owed (i, b) x t) (j, d) = map_of t (j, d)" if "d \<noteq> b" for i j d x t
    using that by (auto simp: add_owed_def select_update_row map_add_def split: option.split)
  with SerialAccepted show ?thesis
    by (auto simp: within_rights_def submitted_def is_admin_in_def receivable_of_def map_add_def first_of_def
        split: option.splits if_splits)
qed (auto simp: within_rights_def submitted_def is_admin_in_def receivable_of_def)

lemma within_rights_admin:
  assumes "is_admin_in s b" and "serials s' = serials s" and "\<And>m. is_admin_in s' m \<longleftrightarrow> is_admin_in s m"
  shows "within_rights b s s'"
  using assms by (simp add: within_rights_def)

lemma bank_acts_within_rights:
  assumes "bank_acts D order b now s s'"
  shows "within_rights b s s'"
  using assms
proof (cases rule: bank_acts.cases)
  case acts_quiet
  then show ?thesis by (rule within_rights_same)
next
  case (acts_submit sub r)
  from submit_serial_run [OF this] within_rights_submitted [of b s sub now] within_rights_same show ?thesis
    by (auto simp: within_rights_def is_admin_in_def receivable_of_def dest!: same_tablesD)
next
  case (acts_register s1 m pk r)
  from register_member_run [OF acts_register(3)] acts_register(1,2) show ?thesis
    by (intro within_rights_admin [OF acts_register(1)])
      (auto simp: is_admin_in_def map_add_def dest!: same_tablesD split: option.splits if_splits)
next
  case (acts_cap s1 i d cap r)
  from set_cap_run [OF acts_cap(3)] acts_cap(1,2) show ?thesis
    by (intro within_rights_admin [OF acts_cap(1)]) (auto simp: is_admin_in_def set_capped_def dest!: same_tablesD)
next
  case (acts_settle s1 r)
  from settle_run [OF acts_settle(3)] acts_settle(1,2) show ?thesis
    by (intro within_rights_admin [OF acts_settle(1)]) (auto simp: is_admin_in_def settled_def dest!: same_tablesD)
qed

lemma quiet_rights:
  assumes "quiet s s1" and "within_rights b s1 s'"
  shows "within_rights b s s'"
proof -
  have "is_admin_in s1 = is_admin_in s" "receivable_of s1 = receivable_of s" "members s1 = members s"
    "exposure_caps s1 = exposure_caps s" "settlement_claims s1 = settlement_claims s" "serials s1 = serials s"
    using assms(1) by (auto simp: registry_ledger_def is_admin_in_def receivable_of_def fun_eq_iff)
  with assms(2) show ?thesis by (simp add: within_rights_def)
qed

lemma quiet_wf: "quiet s s1 \<Longrightarrow> registry_wf s \<Longrightarrow> registry_wf s1 \<and> registry_evolves s s1"
  using registry_ledger_wf by blast

lemma request_books:
  assumes "request_effect H D order now later rq s s'" and "registry_wf s" and "hash_laws order"
  shows "registry_wf s' \<and> registry_evolves s s'"
  using assms(1) unfolding request_effect_def
proof (elim disjE exE conjE)
  fix bank rq' s1
  assume "registry_ledger s1 = registry_ledger s" "keyed (registry_nonces s1)" and b: "bank_acts D order bank later s1 s'"
  then have s1: "registry_wf s1 \<and> registry_evolves s s1" using quiet_wf assms(2) by blast
  with bank_acts_books [OF b _ assms(3)] show ?thesis using registry_evolves_trans by blast
qed (use quiet_wf [OF _ assms(2)] in blast)

section \<open>The registry as a machine\<close>

text \<open>
  A registry serves requests, one at a time, restarts, seeds its administrator, and the database's
  behaviour may change at any moment. What a submission and a settlement do while the transactions of
  other requests commit inside theirs is stated of the operations (\<open>submit_serial_between\<close>,
  \<open>settle_between\<close>).
\<close>

inductive registry_step ::
  "('sgk, 'vk) ed25519 \<Rightarrow> (string \<Rightarrow> 'c :: linorder) \<Rightarrow> 'x registry_db_scheme \<Rightarrow> 'x registry_db_scheme \<Rightarrow> bool"
  for D collation where
  registry_request: "hash_laws order \<Longrightarrow> registry_router X H D collation order now later rq s = (r, s') \<Longrightarrow>
    registry_step D collation s s'"
| registry_restart: "registry_connect migrations pool now s = (r, s') \<Longrightarrow> registry_step D collation s s'"
| registry_seed: "seed_admin H D configured s = (r, s') \<Longrightarrow> registry_step D collation s s'"
| registry_fault: "registry_step D collation s (s\<lparr>faults := fs\<rparr>)"

definition fresh_registry :: "'x registry_db_scheme \<Rightarrow> bool" where
  "fresh_registry s \<longleftrightarrow> members s = [] \<and> serials s = [] \<and> transcripts s = [] \<and> exposure_caps s = [] \<and>
     receivables s = [] \<and> settlement_claims s = [] \<and> registry_nonces s = []"

lemma seed_admin_run:
  assumes "seed_admin H D configured s = (r, s')"
  shows "s' = s \<or> (\<exists>pk q. register_member D ''admin'' pk True s = (q, s'))"
proof (cases configured)
  case (Some hexa)
  show ?thesis
  proof (cases "hex_decode H (str_trim hexa)")
    case (Some raw)
    show ?thesis
    proof (cases "identity_from_bytes D raw")
      case (Inr pk)
      obtain q s1 where q: "register_member D ''admin'' pk True s = (q, s1)" by fastforce
      with assms \<open>configured = Some hexa\<close> Some Inr have "s' = s \<or> s' = s1"
        by (cases q) (auto simp: seed_admin_def split: if_splits RegistryError.splits)
      with q show ?thesis by blast
    qed (use assms \<open>configured = Some hexa\<close> Some in \<open>auto simp: seed_admin_def split: if_splits\<close>)
  qed (use assms \<open>configured = Some hexa\<close> in \<open>auto simp: seed_admin_def\<close>)
qed (use assms in \<open>auto simp: seed_admin_def\<close>)

lemma registry_step_books:
  assumes "registry_step D collation s s'" and "registry_wf s"
  shows "registry_wf s' \<and> registry_evolves s s'"
  using assms(1)
proof (cases rule: registry_step.cases)
  case (registry_request order X H now later rq r)
  have "keyed (registry_nonces s)" using assms(2) by (simp add: registry_wf_def)
  from request_books [OF registry_router_effect [OF this registry_request(2)] assms(2) registry_request(1)]
  show ?thesis .
next
  case registry_restart
  then show ?thesis using quiet_books [OF registry_connect_quiet assms(2)] by blast
next
  case registry_seed
  from seed_admin_run [OF this] show ?thesis using assms(2) by (auto dest: register_member_books [OF assms(2)])
next
  case registry_fault
  then show ?thesis using assms(2) by simp
qed

interpretation registry: machine fresh_registry "registry_step D collation" registry_wf
  for D collation
proof
  show "fresh_registry s \<Longrightarrow> registry_wf s" for s :: "'x registry_db_scheme"
    by (simp add: fresh_registry_def registry_wf_defs)
  show "registry_wf s \<Longrightarrow> registry_step D collation s t \<Longrightarrow> registry_wf t" for s t :: "'x registry_db_scheme"
    using registry_step_books by blast
qed

lemma registry_steps_evolve:
  assumes "registry_wf s" and "steps (registry_step D collation) s t"
  shows "registry_evolves s t"
proof (rule registry.steps_mono [OF assms(2,1)])
  show "registry_evolves s v" if "registry_wf u" "registry_step D collation u v" "registry_evolves s u" for u v
    using that registry_step_books registry_evolves_trans by blast
qed simp

section \<open>Properties\<close>

text \<open>
  C21: no serial is accepted twice, by whichever banks. Once the registry has accepted a serial
  from one bank, then after any requests, restarts and faults the store names that bank and its
  transcript as the first depositor, and no submission of the serial by any bank is accepted or
  adds to a receivable.
\<close>

theorem serial_accepted_once:
  assumes "registry_wf s" and "submit_serial b sub now s = (Inr resp, s1)" and "sr_outcome resp = SerialAccepted"
    and "steps (registry_step D collation) s1 t"
    and "submit_serial b' sub' now' t = (Inr resp', t')" and "serial_key sub' = serial_key sub"
  shows "sr_outcome resp' \<noteq> SerialAccepted \<and> receivables t' = receivables t \<and>
    map_of (serials t') (serial_key sub) = Some (first_of b sub now)"
proof -
  note first = submit_serial_Inr [OF assms(2)] and second = submit_serial_Inr [OF assms(5)]
  from first(1) assms(3) have acc: "submit_outcome b sub s = SerialAccepted" by (simp add: submit_reply_def)
  then have "map_of (serials s) (serial_key sub) = None"
    by (cases "map_of (serials s) (serial_key sub)") (auto simp: submit_outcome_def split: if_splits)
  with acc same_tablesD [OF first(4)] have "map_of (serials s1) (serial_key sub) = Some (first_of b sub now)"
    by (auto simp: submitted_def map_add_def)
  moreover have "registry_evolves s1 t"
    using submit_serial_books [OF assms(1,2)] registry_steps_evolve [OF _ assms(4)] by blast
  ultimately have t: "map_of (serials t) (serial_key sub) = Some (first_of b sub now)"
    unfolding registry_evolves_def map_le_def by (metis domI)
  then have no: "submit_outcome b' sub' t \<noteq> SerialAccepted" by (simp add: submit_outcome_def assms(6))
  with second(1) have "sr_outcome resp' \<noteq> SerialAccepted" by (simp add: submit_reply_def)
  moreover obtain fs where "t' = (submitted b' sub' now' t)\<lparr>faults := fs\<rparr>" using same_tablesD [OF second(4)] by blast
  with no have "receivables t' = receivables t" "serials t' = serials t"
    by (auto simp: submitted_def split: SerialOutcome.splits)
  ultimately show ?thesis using t by simp
qed

text \<open>
  C29: the life of a registry that serves one request at a time. In every state reached from an empty
  database, over any requests, restarts, seeding and faults, the tables are well-formed: caps and
  receivables are non-negative \<open>BIGINT\<close>s, claims are positive, transcripts and serials belong
  together; and whatever happens later keeps every member, serial, transcript and claim. Caps may be
  overwritten, receivables are deleted by settlement and nonces expire; a settlement or a submission
  with commits of others inside it is C25 and C27.
\<close>

theorem registry_life:
  assumes "fresh_registry s0" and "steps (registry_step D collation) s0 s" and "steps (registry_step D collation) s t"
  shows "registry_wf s \<and> registry_evolves s t"
proof -
  have "registry_wf s" using registry.reachable_inv [OF assms(1,2)] .
  with registry_steps_evolve [OF this assms(3)] show ?thesis by blast
qed

text \<open>
  C30: governance. Whatever a request is and whatever the database does, either no table of the
  ledger changes or the request was authenticated as a member bank; only an administrator's
  request changes members, caps or claims or another bank's receivables; a serial it adds names
  the caller as its first depositor; and no request makes or removes an administrator.
\<close>

theorem registry_acts_for_caller:
  assumes "registry_wf s" and "registry_router X H D collation order now later rq s = (r, s')"
  shows "registry_ledger s' = registry_ledger s \<or>
    (\<exists>bank rq' s1 row. registry_authenticate H D now rq s = (Inr (AuthenticatedBank bank, rq'), s1) \<and>
      map_of (members s) bank = Some row \<and>
      (mb_is_admin row \<or>
       members s' = members s \<and> exposure_caps s' = exposure_caps s \<and> settlement_claims s' = settlement_claims s \<and>
       (\<forall>i d. d \<noteq> bank \<longrightarrow> receivable_of s' (i, d) = receivable_of s (i, d))) \<and>
      (\<forall>k f. map_of (serials s) k = None \<longrightarrow> map_of (serials s') k = Some f \<longrightarrow> first_bank_id f = bank) \<and>
      (\<forall>m. is_admin_in s' m \<longleftrightarrow> is_admin_in s m))"
proof -
  have "keyed (registry_nonces s)" using assms(1) by (simp add: registry_wf_def)
  from registry_router_effect [OF this assms(2)] show ?thesis
    unfolding request_effect_def
  proof (elim disjE exE conjE)
    fix bank rq' s1
    assume auth: "registry_authenticate H D now rq s = (Inr (AuthenticatedBank bank, rq'), s1)"
      and "registry_ledger s1 = registry_ledger s" "keyed (registry_nonces s1)" and acts: "bank_acts D order bank later s1 s'"
    then have rights: "within_rights bank s s'" using quiet_rights bank_acts_within_rights by blast
    from auth obtain row where "map_of (members s) bank = Some row"
      by (rule registry_authenticate_Inr) (auto dest: member_pubkey_Inr)
    with auth rights show ?thesis by (auto simp: within_rights_def is_admin_in_def)
  qed blast
qed

text \<open>
  Replay protection of the registry, as for the bank: an accepted request is not accepted
  again by a clock that has not gone back, except when it was dated exactly 60 seconds ahead and
  comes back exactly 120 seconds later.
\<close>

lemma registry_replay:
  assumes "keyed (registry_nonces s)" and "registry_authenticate H D t rq s = (Inr x, s1)"
    and "served (registry_authenticate H D) registry_nonces (uint t') s1 s2" and "uint t \<le> uint t'"
    and "registry_authenticate H D t' rq s2 = (Inr y, s3)" and "from_lookup (rq_header rq) = Inr auth"
  shows "uint t' = uint t + 120 \<and> uint (ah_timestamp auth) = uint t + 60"
  using assms unfolding registry_authenticate_signed by (rule registry_auth.signed.replay)

section \<open>Acceptance without faults\<close>

lemma registry_check_nonce_ok:
  fixes now ttl :: u64
  assumes "faults s = []" and "uint now + uint ttl \<le> i64_max"
  shows "\<exists>s'. registry_check_and_record_nonce n now ttl s =
      (Inr (fst (upsert_nonce n (uint now + uint ttl) (uint now) (registry_nonces s)) = 1), s') \<and>
    faults s' = [] \<and> registry_ledger s' = registry_ledger s"
proof -
  have "0 \<le> uint ttl" by simp
  then have le: "uint now \<le> i64_max" using assms(2) by linarith
  then have i64: "registry_to_i64 (u64_saturating_add now ttl) w = Inr (uint now + uint ttl)"
    "registry_to_i64 now w = Inr (uint now)" for w using assms(2) by (auto simp: uint_saturating_add min_def)
  have "registry_purge_expired_nonces now t = (Inr (), t\<lparr>registry_nonces := unexpired (uint now) (registry_nonces t)\<rparr>)"
    if "faults t = []" for t :: "'a registry_db_scheme"
    using that by (simp add: registry_purge_expired_nonces_def i64 registry_purge_nonces_def)
  then show ?thesis
    using assms(1) by (simp add: registry_check_and_record_nonce_def i64 registry_fetch_add_nonce_ops_def)
qed

text \<open>A member's request that is signed with its key, in time and with a fresh nonce is accepted.\<close>

lemma registry_authenticate_ok:
  assumes "faults s = []" and "hex_laws H" and "ed25519_laws D"
    and "rq_body rq = Some body" and "length body \<le> 2 ^ 20" and "from_lookup (rq_header rq) = Inr auth"
    and "map_of (members s) (ah_account_id auth) = Some row"
    and "mb_pubkey row = vk_to_bytes D (sgk_verifying_key D k)"
    and "ah_signature auth = hex_encode H (sgk_sign D k
      (str_bytes (canonical_payload H (rq_method rq) (rq_path rq) body (ah_timestamp auth) (ah_nonce auth))))"
    and "\<bar>uint (ah_timestamp auth) - uint now\<bar> \<le> 60" and "uint now + 120 \<le> i64_max"
    and "\<forall>e. map_of (registry_nonces s) (ah_nonce auth) = Some e \<longrightarrow> e \<le> uint now"
  obtains s' where "registry_authenticate H D now rq s = (Inr (AuthenticatedBank (ah_account_id auth), rq), s')"
    "faults s' = []" "registry_ledger s' = registry_ledger s"
proof -
  let ?v = "sgk_verifying_key D k"
  from assms(3) have laws: "length (vk_to_bytes D ?v) = 32" "vk_from_bytes D (vk_to_bytes D ?v) = Inr ?v"
    by (simp_all add: ed25519_laws_def)
  have idt: "member_pubkey D (ah_account_id auth) s = (Inr (Some (IdentityPublicKey ?v)), s)"
    using assms(1,7,8) laws by (simp add: member_pubkey_def identity_from_bytes_def model_defs)
  have "fst (upsert_nonce (ah_nonce auth) (uint now + uint NONCE_TTL_SECS) (uint now) (registry_nonces s)) = 1"
    using assms(12) by (cases "map_of (registry_nonces s) (ah_nonce auth)")
      (auto simp: upsert_nonce_def insert_row_new update_row_count)
  with registry_check_nonce_ok [OF assms(1), of now NONCE_TTL_SECS "ah_nonce auth"] assms(11) obtain s' where
    s': "registry_check_and_record_nonce (ah_nonce auth) now NONCE_TTL_SECS s = (Inr True, s')" "faults s' = []"
      "registry_ledger s' = registry_ledger s"
    by (auto simp: NONCE_TTL_SECS_def)
  from signed_request_ok [where lookup = "member_pubkey D" and check = registry_check_and_record_nonce,
      OF assms(2-6) idt assms(9,10) s'(1)] s'(2,3) that show thesis
    unfolding registry_authenticate_signed by blast
qed

section \<open>Concrete runs\<close>

definition demo_federation :: registry_db where
  "demo_federation = empty_registry\<lparr>
     members := [(''bob'', \<lparr>mb_pubkey = replicate 31 0 @ [3], mb_is_admin = False\<rparr>)]\<rparr>"

definition demo_registry_extractors :: registry_extractors where
  "demo_registry_extractors =
     \<lparr>rx_register = (\<lambda>_. Inl 422), rx_serial = (\<lambda>_. Inr (demo_submission ''carol'' ''01'')), rx_cap = (\<lambda>_. Inl 422)\<rparr>"

lemma demo_federation_simps [simp]:
  "faults demo_federation = []" "registry_nonces demo_federation = []" "serials demo_federation = []"
  "members demo_federation = [(''bob'', \<lparr>mb_pubkey = replicate 31 0 @ [3], mb_is_admin = False\<rparr>)]"
  "transcripts demo_federation = []" "exposure_caps demo_federation = []" "receivables demo_federation = []"
  "settlement_claims demo_federation = []"
  by (simp_all add: demo_federation_def empty_registry_def)

lemma demo_federation_wf: "registry_wf demo_federation"
  by (simp add: registry_wf_defs keyed_def)

lemma demo_federation_accepts:
  assumes "faults s = []" and "members s = members demo_federation" and "\<bar>uint ts - uint now\<bar> \<le> 60"
    and "uint now + 120 \<le> i64_max" and "\<forall>e. map_of (registry_nonces s) ''n'' = Some e \<longrightarrow> e \<le> uint now"
  obtains s' where "registry_authenticate demo_digests demo_ed25519 now (demo_signed p ts ''n'' [9]) s =
      (Inr (AuthenticatedBank ''bob'', demo_signed p ts ''n'' [9]), s')" "faults s' = []" "registry_ledger s' = registry_ledger s"
proof -
  have "vk_to_bytes demo_ed25519 (sgk_verifying_key demo_ed25519 3) = replicate 31 0 @ [3]"
    by (simp add: demo_ed25519_def)
  then have key: "mb_pubkey \<lparr>mb_pubkey = replicate 31 0 @ [3], mb_is_admin = False\<rparr> =
      vk_to_bytes demo_ed25519 (sgk_verifying_key demo_ed25519 3)" by simp
  let ?auth = "demo_headers p ts ''n'' [9]"
  have auth: "ah_account_id ?auth = ''bob''" "ah_timestamp ?auth = ts" "ah_nonce ?auth = ''n''"
    "ah_signature ?auth = hex_encode demo_digests (sgk_sign demo_ed25519 3
      (str_bytes (canonical_payload demo_digests ''POST'' p [9] ts ''n'')))" by (simp_all add: demo_headers_def)
  show thesis
  proof (rule registry_authenticate_ok [OF assms(1) hex_laws_demo ed25519_laws_demo demo_signed_simps(3) _
        demo_from_lookup _ key])
    fix s'
    assume "registry_authenticate demo_digests demo_ed25519 now (demo_signed p ts ''n'' [9]) s =
        (Inr (AuthenticatedBank (ah_account_id ?auth), demo_signed p ts ''n'' [9]), s')"
      "faults s' = []" "registry_ledger s' = registry_ledger s"
    with that auth(1) show thesis by simp
  qed (use assms auth in simp_all)
qed

text \<open>Bob's bank deposits a coin of carol's; carol's bank then submits the same serial.\<close>

lemma demo_accepted:
  "submit_serial ''bob'' (demo_submission ''carol'' ''01'') 7 demo_federation =
     (Inr \<lparr>sr_outcome = SerialAccepted, sr_transcripts = []\<rparr>, submitted ''bob'' (demo_submission ''carol'' ''01'') 7 demo_federation)"
  by (simp add: submit_serial_ok demo_federation_wf demo_submission_def submit_fits_def submit_reply_def
      submit_outcome_def over_cap_def receivable_of_def serial_key_def)

theorem serial_accepted_once_witness:
  "\<exists>resp t'. submit_serial ''carol'' (demo_submission ''dave'' ''01'') 8
      (submitted ''bob'' (demo_submission ''carol'' ''01'') 7 demo_federation) = (Inr resp, t') \<and>
    sr_outcome resp \<noteq> SerialAccepted"
proof -
  let ?t = "submitted ''bob'' (demo_submission ''carol'' ''01'') 7 demo_federation"
  have key: "serial_key (demo_submission ''dave'' ''01'') = serial_key (demo_submission ''carol'' ''01'')"
    by (simp add: serial_key_def demo_submission_def)
  have t: "registry_wf ?t" "faults ?t = []"
    using submit_serial_books [OF demo_federation_wf demo_accepted]
    by (simp_all add: submitted_def split: SerialOutcome.split)
  have "submit_outcome ''carol'' (demo_submission ''dave'' ''01'') ?t = SerialDoubleSpend"
    by (simp add: submitted_def submit_outcome_def over_cap_def serial_key_def demo_submission_def)
  then obtain resp t' where run: "submit_serial ''carol'' (demo_submission ''dave'' ''01'') 8 ?t = (Inr resp, t')"
    using t by (simp add: submit_serial_ok submit_fits_def demo_submission_def)
  have "sr_outcome \<lparr>sr_outcome = SerialAccepted, sr_transcripts = []\<rparr> = SerialAccepted" by simp
  from serial_accepted_once [OF demo_federation_wf demo_accepted this steps_refl run key] run show ?thesis by blast
qed

definition demo_deposited :: registry_db where
  "demo_deposited = snd (registry_router demo_registry_extractors demo_digests demo_ed25519 (\<lambda>n. n) rev 1000 7
     (demo_signed ''/serials'' 1000 ''n'' [9]) demo_federation)"

lemma demo_deposits:
  "registry_router demo_registry_extractors demo_digests demo_ed25519 (\<lambda>n. n) rev 1000 7
     (demo_signed ''/serials'' 1000 ''n'' [9]) demo_federation =
   (Inr (SerialReply \<lparr>sr_outcome = SerialAccepted, sr_transcripts = []\<rparr>), demo_deposited) \<and>
   map_of (serials demo_deposited) (8, 0, ''01'') = Some \<lparr>first_bank_id = ''bob'', first_transcript = ''t'', first_seen_at = 7\<rparr>"
proof -
  let ?rq = "demo_signed ''/serials'' 1000 ''n'' [9]" and ?sub = "demo_submission ''carol'' ''01''"
  obtain s1 where 1: "registry_authenticate demo_digests demo_ed25519 1000 ?rq demo_federation =
      (Inr (AuthenticatedBank ''bob'', ?rq), s1)" "faults s1 = []" "registry_ledger s1 = registry_ledger demo_federation"
    by (rule demo_federation_accepts [of demo_federation 1000 1000 "''/serials''"]) simp_all
  have wf: "registry_wf s1" using quiet_books [OF keeps_quiet_authenticate demo_federation_wf 1(1)] by blast
  from 1(3) have tabs: "serials s1 = []" "exposure_caps s1 = []" "receivables s1 = []" by (simp_all add: registry_ledger_def)
  have out: "submit_outcome ''bob'' ?sub s1 = SerialAccepted"
    by (simp add: submit_outcome_def over_cap_def tabs)
  have "submit_serial ''bob'' ?sub 7 s1 = (Inr \<lparr>sr_outcome = SerialAccepted, sr_transcripts = []\<rparr>, submitted ''bob'' ?sub 7 s1)"
    using out by (simp add: submit_serial_ok [OF 1(2) wf] submit_fits_def submit_reply_def receivable_of_def tabs demo_submission_def)
  then have "registry_router demo_registry_extractors demo_digests demo_ed25519 (\<lambda>n. n) rev 1000 7 ?rq demo_federation =
      (Inr (SerialReply \<lparr>sr_outcome = SerialAccepted, sr_transcripts = []\<rparr>), submitted ''bob'' ?sub 7 s1)"
    using 1(1) by (simp add: registry_router_def Let_def registry_verify_signed_request_def map_err_op_eq registry_handle_def
        demo_registry_extractors_def post_serial_def)
  then show ?thesis
    using out by (simp add: demo_deposited_def submitted_def tabs serial_key_def demo_submission_def first_of_def)
qed

lemma demo_registry_step: "registry_step demo_ed25519 (\<lambda>n. n) demo_federation demo_deposited"
  using registry_request [OF hash_laws_demo(1) conjunct1 [OF demo_deposits]] .

theorem registry_acts_for_caller_witness:
  "\<exists>bank rq' s1. registry_authenticate demo_digests demo_ed25519 1000 (demo_signed ''/serials'' 1000 ''n'' [9]) demo_federation =
       (Inr (AuthenticatedBank bank, rq'), s1) \<and>
     (\<forall>i d. d \<noteq> bank \<longrightarrow> receivable_of demo_deposited (i, d) = receivable_of demo_federation (i, d))"
proof -
  have "registry_ledger demo_deposited \<noteq> registry_ledger demo_federation"
    using conjunct2 [OF demo_deposits] by (auto simp: registry_ledger_def)
  with registry_acts_for_caller [OF demo_federation_wf conjunct1 [OF demo_deposits]] show ?thesis
    by (auto split: if_splits)
qed

text \<open>A registry that seeds its administrator with key 3 and then loses its connection.\<close>

definition demo_seeded :: registry_db where
  "demo_seeded = empty_registry\<lparr>
     members := [(''admin'', \<lparr>mb_pubkey = replicate 31 0 @ [3], mb_is_admin = True\<rparr>)]\<rparr>"

lemma demo_seeds:
  "seed_admin demo_digests demo_ed25519 (Some (hex_encode demo_digests (replicate 31 0 @ [3]))) empty_registry =
     (Inr (), demo_seeded)"
proof -
  have hex: "hex_decode demo_digests (str_trim (hex_encode demo_digests b)) = Some b" for b
    using hex_laws_demo str_trim_hex [OF hex_laws_demo] by (simp add: hex_laws_def)
  have reg: "register_member demo_ed25519 ''admin'' (IdentityPublicKey 3) True empty_registry = (Inr (), demo_seeded)"
    by (simp add: register_member_def insert_row_def identity_to_bytes_def demo_ed25519_def demo_seeded_def empty_registry_def)
  show ?thesis
    using reg by (simp add: seed_admin_def hex identity_from_bytes_def demo_ed25519_def model_defs)
qed

theorem registry_life_witness:
  "registry_wf demo_seeded \<and> registry_evolves demo_seeded (demo_seeded\<lparr>faults := [Lost]\<rparr>)"
proof -
  let ?step = "registry_step demo_ed25519 (\<lambda>n :: string. n)"
  have fresh: "fresh_registry empty_registry" by (simp add: fresh_registry_def empty_registry_def)
  have "steps ?step empty_registry demo_seeded"
    by (rule steps_step [of ?step, OF steps_refl]) (rule registry_seed [OF demo_seeds])
  moreover have "steps ?step demo_seeded (demo_seeded\<lparr>faults := [Lost]\<rparr>)"
    by (rule steps_step [of ?step, OF steps_refl]) (rule registry_fault)
  ultimately show ?thesis using registry_life [OF fresh] by blast
qed

end
