(* ===== verification/Bank_Keys.thy ===== *)
theory Bank_Keys
  imports Bank_Ledger "HOL-Library.Sublist"
begin

text \<open>
  The key files of the bank (\<open>keys.rs\<close>): one PEM file per denomination and scheme, read when it
  exists and generated and written otherwise. The file system is a record of the calls of
  \<open>std::fs\<close> the code makes, on a state of its own; the random draws for new keys are a stream.
\<close>

section \<open>The file system\<close>

record 'f fs =
  fs_create_dir_all :: "string \<Rightarrow> 'f \<Rightarrow> (string + unit) \<times> 'f"
  fs_exists :: "string \<Rightarrow> 'f \<Rightarrow> bool"
  fs_read_to_string :: "string \<Rightarrow> 'f \<Rightarrow> string + string"
  fs_write :: "string \<Rightarrow> string \<Rightarrow> 'f \<Rightarrow> (string + unit) \<times> 'f"
  fs_rename :: "string \<Rightarrow> string \<Rightarrow> 'f \<Rightarrow> (string + unit) \<times> 'f"

text \<open>
  What the code relies on: a file that was written exists and reads back, a file that was renamed
  reads under its new name, and writing or renaming a file leaves other files alone. Making a
  directory leaves alone whatever exists and whatever is not on the way to that directory.
\<close>

definition fs_laws :: "'f fs \<Rightarrow> bool" where
  "fs_laws F \<longleftrightarrow>
     (\<forall>p t f f'. fs_write F p t f = (Inr (), f') \<longrightarrow>
        fs_exists F p f' \<and> fs_read_to_string F p f' = Inr t) \<and>
     (\<forall>p t f r f' q. fs_write F p t f = (r, f') \<and> q \<noteq> p \<longrightarrow>
        fs_exists F q f' = fs_exists F q f \<and> fs_read_to_string F q f' = fs_read_to_string F q f) \<and>
     (\<forall>p q f f'. fs_rename F p q f = (Inr (), f') \<longrightarrow> fs_read_to_string F q f' = fs_read_to_string F p f) \<and>
     (\<forall>p p' f r f' q. fs_rename F p p' f = (r, f') \<and> q \<noteq> p \<and> q \<noteq> p' \<longrightarrow>
        fs_exists F q f' = fs_exists F q f \<and> fs_read_to_string F q f' = fs_read_to_string F q f) \<and>
     (\<forall>d f r f' q. fs_create_dir_all F d f = (r, f') \<and> (fs_exists F q f \<or> \<not> prefix q d) \<longrightarrow>
        fs_exists F q f' = fs_exists F q f \<and> fs_read_to_string F q f' = fs_read_to_string F q f)"

text \<open>A file as the code sees it: whether it exists, and what reading it gives.\<close>

definition file_at :: "'f fs \<Rightarrow> string \<Rightarrow> 'f \<Rightarrow> bool \<times> (string + string)" where
  "file_at F p f = (fs_exists F p f, fs_read_to_string F p f)"

lemma fs_written:
  assumes "fs_laws F" and "fs_write F p t f = (Inr (), f')"
  shows "file_at F p f' = (True, Inr t)"
proof -
  from assms(1) have "\<forall>p t f f'. fs_write F p t f = (Inr (), f') \<longrightarrow>
      fs_exists F p f' \<and> fs_read_to_string F p f' = Inr t" by (simp add: fs_laws_def)
  with assms(2) show ?thesis by (auto simp: file_at_def)
qed

lemma fs_write_frame:
  assumes "fs_laws F" and "fs_write F p t f = (r, f')" and "q \<noteq> p"
  shows "file_at F q f' = file_at F q f"
proof -
  from assms(1) have "\<forall>p t f r f' q. fs_write F p t f = (r, f') \<and> q \<noteq> p \<longrightarrow>
      fs_exists F q f' = fs_exists F q f \<and> fs_read_to_string F q f' = fs_read_to_string F q f"
    by (simp add: fs_laws_def)
  with assms(2,3) show ?thesis by (auto simp: file_at_def)
qed

lemma fs_renamed:
  assumes "fs_laws F" and "fs_rename F p q f = (Inr (), f')"
  shows "fs_read_to_string F q f' = fs_read_to_string F p f"
proof -
  from assms(1) have "\<forall>p q f f'. fs_rename F p q f = (Inr (), f') \<longrightarrow> fs_read_to_string F q f' = fs_read_to_string F p f"
    by (simp add: fs_laws_def)
  with assms(2) show ?thesis by blast
qed

lemma fs_rename_frame:
  assumes "fs_laws F" and "fs_rename F p p' f = (r, f')" and "q \<noteq> p" and "q \<noteq> p'"
  shows "file_at F q f' = file_at F q f"
proof -
  from assms(1) have "\<forall>p p' f r f' q. fs_rename F p p' f = (r, f') \<and> q \<noteq> p \<and> q \<noteq> p' \<longrightarrow>
      fs_exists F q f' = fs_exists F q f \<and> fs_read_to_string F q f' = fs_read_to_string F q f"
    by (simp add: fs_laws_def)
  with assms(2-4) show ?thesis by (auto simp: file_at_def)
qed

lemma fs_dir_frame:
  assumes "fs_laws F" and "fs_create_dir_all F d f = (r, f')" and "fs_exists F q f \<or> \<not> prefix q d"
  shows "file_at F q f' = file_at F q f"
proof -
  from assms(1) have "\<forall>d f r f' q. fs_create_dir_all F d f = (r, f') \<and> (fs_exists F q f \<or> \<not> prefix q d) \<longrightarrow>
      fs_exists F q f' = fs_exists F q f \<and> fs_read_to_string F q f' = fs_read_to_string F q f"
    by (simp add: fs_laws_def)
  with assms(2,3) show ?thesis by (auto simp: file_at_def)
qed

section \<open>Operations\<close>

definition key_path :: "string \<Rightarrow> u64 \<Rightarrow> u8 \<Rightarrow> string" where
  "key_path dir denom scheme =
     dir @ ''/denom_'' @ u64_to_string denom @ ''_scheme_'' @ nat_to_dec (unat scheme) @ ''.pem''"

definition key_err :: "u64 \<Rightarrow> u8 \<Rightarrow> string \<Rightarrow> string \<Rightarrow> BankError" where
  "key_err denom scheme ctxt source = Key denom scheme (ctxt @ '': '' @ source)"

definition load_key ::
  "('sk, 'pk, 'br) brsa \<Rightarrow> 'f fs \<Rightarrow> string \<Rightarrow> u64 \<Rightarrow> u8 \<Rightarrow> ('f, BankError, ('sk, 'pk) keypair) op" where
  "load_key R F path denom scheme f =
     (bind_result (map_err Io (fs_read_to_string F path f)) (\<lambda>pem.
      bind_result (map_err (key_err denom scheme ''parse PEM'') (brsa_from_pem R pem)) (\<lambda>sk.
      bind_result (map_err (key_err denom scheme ''derive public key'') (brsa_public_key R sk)) (\<lambda>pk.
        Inr \<lparr>kp_pk = pk, kp_sk = sk\<rparr>))), f)"

definition create_key ::
  "('sk, 'pk, 'br) brsa \<Rightarrow> 'f fs \<Rightarrow> nat \<Rightarrow> string \<Rightarrow> u64 \<Rightarrow> u8 \<Rightarrow> ('f, BankError, ('sk, 'pk) keypair) op" where
  "create_key R F rng path denom scheme =
     bind_op (of_result (map_err CoreFailure (generate_keypair R rng))) (\<lambda>keypair.
     bind_op (of_result (map_err (key_err denom scheme ''encode PEM'') (brsa_to_pem R (kp_sk keypair)))) (\<lambda>pem.
     bind_op (map_err_op Io (fs_write F path pem)) (\<lambda>_.
       ret keypair)))"

text \<open>The loop over the configured denominations; \<open>rng i\<close> is the draw for the \<open>i\<close>-th.\<close>

fun load_keys ::
  "('sk, 'pk, 'br) brsa \<Rightarrow> 'f fs \<Rightarrow> (nat \<Rightarrow> nat) \<Rightarrow> string \<Rightarrow> u64 list \<Rightarrow> ('sk, 'pk) KeyStore
   \<Rightarrow> ('f, BankError, ('sk, 'pk) KeyStore) op" where
  "load_keys R F rng dir [] keys = ret keys"
| "load_keys R F rng dir (denom # denoms) keys =
     (\<lambda>f. bind_op
       (let path = key_path dir denom SCHEME_ID_RSA_DETERMINISTIC in
        if fs_exists F path f then load_key R F path denom SCHEME_ID_RSA_DETERMINISTIC
        else create_key R F (rng (length denoms)) path denom SCHEME_ID_RSA_DETERMINISTIC)
       (\<lambda>keypair. load_keys R F rng dir denoms (btree_insert (denom, SCHEME_ID_RSA_DETERMINISTIC) keypair keys)) f)"

definition load_or_create ::
  "('sk, 'pk, 'br) brsa \<Rightarrow> 'f fs \<Rightarrow> (nat \<Rightarrow> nat) \<Rightarrow> string \<Rightarrow> u64 list
   \<Rightarrow> ('f, BankError, ('sk, 'pk) KeyStore) op" where
  "load_or_create R F rng dir denoms =
     bind_op (map_err_op Io (fs_create_dir_all F dir)) (\<lambda>_. load_keys R F rng dir denoms [])"

section \<open>The ordered map\<close>

lemma map_of_btree_insert: "map_of (btree_insert k v t) = (map_of t)(k \<mapsto> v)"
  by (induction t rule: btree_insert.induct) (auto simp: fun_eq_iff)

lemma set_btree_insert: "fst ` set (btree_insert k v t) = insert k (fst ` set t)"
  by (induction t rule: btree_insert.induct) auto

lemma sorted_btree_insert:
  "sorted_wrt (<) (map fst t) \<Longrightarrow> sorted_wrt (<) (map fst (btree_insert k v t))"
proof (induction t rule: btree_insert.induct)
  case (2 k v k' v' t)
  have "set (map fst (btree_insert k v t)) = insert k (fst ` set t)" by (simp add: set_btree_insert)
  with 2 show ?case by (auto simp: sorted_wrt.simps not_less)
qed simp

section \<open>Keys survive a restart\<close>

abbreviation pem_file :: "string \<Rightarrow> u64 \<Rightarrow> string" where
  "pem_file dir denom \<equiv> key_path dir denom SCHEME_ID_RSA_DETERMINISTIC"

lemma pem_file_inject [simp]: "pem_file dir d = pem_file dir d' \<longleftrightarrow> d = d'"
  by (simp add: key_path_def)

text \<open>The file of a denomination is there and holds this key.\<close>

definition loads :: "('sk, 'pk, 'br) brsa \<Rightarrow> 'f fs \<Rightarrow> string \<Rightarrow> 'f \<Rightarrow> u64 \<Rightarrow> ('sk, 'pk) keypair \<Rightarrow> bool" where
  "loads R F dir f d kp \<longleftrightarrow> fs_exists F (pem_file dir d) f \<and>
     load_key R F (pem_file dir d) d SCHEME_ID_RSA_DETERMINISTIC f = (Inr kp, f)"

lemma loads_unique: "loads R F dir f d kp \<Longrightarrow> loads R F dir f d kp' \<Longrightarrow> kp = kp'"
  by (simp add: loads_def)

lemma loads_cong: "file_at F (pem_file dir d) f' = file_at F (pem_file dir d) f \<Longrightarrow>
    loads R F dir f' d kp = loads R F dir f d kp"
  by (auto simp: loads_def load_key_def file_at_def)

lemma create_key_frame:
  assumes "fs_laws F" and "create_key R F r p d sc f = (x, f')" and "q \<noteq> p"
  shows "file_at F q f' = file_at F q f"
proof -
  have "f' = f \<or> (\<exists>t y. fs_write F p t f = (y, f'))"
    using assms(2)
    by (cases x) (auto simp: create_key_def bind_op_Inr bind_op_Inl map_err_op_eq)
  with fs_write_frame [OF assms(1) _ assms(3)] show ?thesis by blast
qed

lemma create_key_loads:
  assumes "fs_laws F" and "pem_laws R"
    and "create_key R F r (pem_file dir d) d SCHEME_ID_RSA_DETERMINISTIC f = (Inr kp, f')"
  shows "loads R F dir f' d kp"
proof -
  from assms(3) obtain pem where gen: "generate_keypair R r = Inr kp"
    and pem: "brsa_to_pem R (kp_sk kp) = Inr pem" and w: "fs_write F (pem_file dir d) pem f = (Inr (), f')"
    by (auto simp: create_key_def bind_op_Inr map_err_op_eq)
  from gen have "brsa_generate R r MODULUS_BITS = Inr (kp_pk kp, kp_sk kp)"
    by (auto simp: generate_keypair_def bind_result_Inr split: prod.splits)
  with assms(2) have "brsa_public_key R (kp_sk kp) = Inr (kp_pk kp)" unfolding pem_laws_def by blast
  moreover have "brsa_from_pem R pem = Inr (kp_sk kp)" using assms(2) pem unfolding pem_laws_def by blast
  ultimately show ?thesis using fs_written [OF assms(1) w] by (simp add: loads_def load_key_def file_at_def)
qed

text \<open>A file that exists is never touched.\<close>

lemma load_keys_file:
  assumes "fs_laws F" and "load_keys R F rng dir denoms keys f = (x, f')" and "fs_exists F q f"
  shows "file_at F q f' = file_at F q f"
  using assms(2,3)
proof (induction denoms arbitrary: keys f)
  case (Cons d' denoms)
  let ?m = "if fs_exists F (pem_file dir d') f then load_key R F (pem_file dir d') d' SCHEME_ID_RSA_DETERMINISTIC
    else create_key R F (rng (length denoms)) (pem_file dir d') d' SCHEME_ID_RSA_DETERMINISTIC"
  obtain y f1 where y: "?m f = (y, f1)" by fastforce
  have l1: "file_at F q f1 = file_at F q f"
  proof (cases "fs_exists F (pem_file dir d') f")
    case True
    with y show ?thesis by (simp add: load_key_def)
  next
    case False
    with Cons.prems(2) have "q \<noteq> pem_file dir d'" by auto
    moreover have "create_key R F (rng (length denoms)) (pem_file dir d') d' SCHEME_ID_RSA_DETERMINISTIC f = (y, f1)"
      using False y by simp
    ultimately show ?thesis using create_key_frame [OF assms(1)] by blast
  qed
  show ?case
  proof (cases y)
    case (Inl e)
    with Cons.prems(1) y l1 show ?thesis by (simp add: Let_def)
  next
    case (Inr k)
    with Cons.prems(1) y have "load_keys R F rng dir denoms (btree_insert (d', SCHEME_ID_RSA_DETERMINISTIC) k keys) f1 = (x, f')"
      by (simp add: Let_def)
    with Cons.IH [of _ f1] Cons.prems(2) l1 show ?thesis by (metis Pair_inject file_at_def)
  qed
qed simp

lemma load_keys_frame:
  assumes "fs_laws F" and "load_keys R F rng dir denoms keys f = (x, f')" and "loads R F dir f d kp"
  shows "loads R F dir f' d kp"
proof -
  have "fs_exists F (pem_file dir d) f" using assms(3) by (simp add: loads_def)
  from loads_cong [OF load_keys_file [OF assms(1,2) this]] assms(3) show ?thesis by blast
qed

lemma load_or_create_file:
  assumes "fs_laws F" and "load_or_create R F rng dir denoms f = (x, f')" and "fs_exists F q f"
  shows "file_at F q f' = file_at F q f"
proof -
  obtain y f1 where d: "fs_create_dir_all F dir f = (y, f1)" by fastforce
  have 1: "file_at F q f1 = file_at F q f" by (rule fs_dir_frame [OF assms(1) d]) (simp add: assms(3))
  show ?thesis
  proof (cases y)
    case (Inl e)
    with d assms(2) 1 show ?thesis by (simp add: load_or_create_def map_err_op_eq)
  next
    case (Inr u)
    with d assms(2) have "load_keys R F rng dir denoms [] f1 = (x, f')" by (simp add: load_or_create_def map_err_op_eq)
    moreover have "fs_exists F q f1" using 1 assms(3) by (simp add: file_at_def)
    ultimately have "file_at F q f' = file_at F q f1" by (rule load_keys_file [OF assms(1)])
    with 1 show ?thesis by simp
  qed
qed

text \<open>The keys a run returns, as the fold of its inserts, and the files it leaves.\<close>

lemma load_keys_run:
  assumes "fs_laws F" and "pem_laws R" and "load_keys R F rng dir denoms keys f = (Inr out, f')"
  shows "\<exists>K. out = fold (\<lambda>d. btree_insert (d, SCHEME_ID_RSA_DETERMINISTIC) (K d)) denoms keys \<and>
    (\<forall>d\<in>set denoms. loads R F dir f' d (K d))"
  using assms(3)
proof (induction denoms arbitrary: keys f)
  case (Cons d denoms)
  let ?m = "if fs_exists F (pem_file dir d) f then load_key R F (pem_file dir d) d SCHEME_ID_RSA_DETERMINISTIC
    else create_key R F (rng (length denoms)) (pem_file dir d) d SCHEME_ID_RSA_DETERMINISTIC"
  let ?ins = "btree_insert (d, SCHEME_ID_RSA_DETERMINISTIC)"
  from Cons.prems obtain k f1 where m: "?m f = (Inr k, f1)"
    and rest: "load_keys R F rng dir denoms (?ins k keys) f1 = (Inr out, f')"
    by (auto simp: Let_def bind_op_Inr)
  have "loads R F dir f1 d k"
  proof (cases "fs_exists F (pem_file dir d) f")
    case True
    with m show ?thesis by (auto simp: loads_def load_key_def)
  next
    case False
    with m create_key_loads [OF assms(1,2)] show ?thesis by simp
  qed
  then have k: "loads R F dir f' d k" using load_keys_frame [OF assms(1) rest] by blast
  from Cons.IH [OF rest] obtain K where K: "out = fold (\<lambda>d. btree_insert (d, SCHEME_ID_RSA_DETERMINISTIC) (K d)) denoms (?ins k keys)"
    "\<forall>d\<in>set denoms. loads R F dir f' d (K d)" by blast
  let ?K = "K(d := k)"
  have same: "?K d' = K d'" if "d' \<in> set denoms" for d'
    using that K(2) k loads_unique by fastforce
  then have "fold (\<lambda>d. btree_insert (d, SCHEME_ID_RSA_DETERMINISTIC) (?K d)) denoms s =
      fold (\<lambda>d. btree_insert (d, SCHEME_ID_RSA_DETERMINISTIC) (K d)) denoms s" for s
    by (intro fold_cong) auto
  with K same k have "out = fold (\<lambda>d. btree_insert (d, SCHEME_ID_RSA_DETERMINISTIC) (?K d)) (d # denoms) keys \<and>
      (\<forall>d'\<in>set (d # denoms). loads R F dir f' d' (?K d'))" by auto
  then show ?case by blast
qed auto

lemma load_keys_again:
  assumes "\<forall>d\<in>set denoms. loads R F dir f d (K d)"
  shows "load_keys R F rng dir denoms keys f =
    (Inr (fold (\<lambda>d. btree_insert (d, SCHEME_ID_RSA_DETERMINISTIC) (K d)) denoms keys), f)"
  using assms by (induction denoms arbitrary: keys) (simp_all add: Let_def loads_def)

lemma pem_file_outside [simp]: "\<not> prefix (pem_file dir d) dir"
  by (auto simp: key_path_def dest: prefix_length_le)

lemma loads_dir:
  "fs_laws F \<Longrightarrow> fs_create_dir_all F dir f = (r, f') \<Longrightarrow> loads R F dir f' d kp = loads R F dir f d kp"
  by (rule loads_cong, erule (1) fs_dir_frame) (simp add: pem_file_outside)

text \<open>
  A bank keeps its denomination keys. If a start loads or creates the keys of its configured
  denominations, then a later start on the file system it left, with other random draws, that can
  open the key directory again, returns exactly the same key store; coins signed before the
  restart verify after it.
\<close>

lemma keys_survive_restart:
  assumes "fs_laws F" and "pem_laws R" and "load_or_create R F rng dir denoms f = (Inr keys, f1)"
    and "fst (fs_create_dir_all F dir f1) = Inr ()"
  shows "fst (load_or_create R F rng' dir denoms f1) = Inr keys"
proof -
  from assms(3) obtain f0 where run: "load_keys R F rng dir denoms [] f0 = (Inr keys, f1)"
    by (auto simp: load_or_create_def bind_op_Inr map_err_op_eq)
  from load_keys_run [OF assms(1,2) run] obtain K where
    K: "keys = fold (\<lambda>d. btree_insert (d, SCHEME_ID_RSA_DETERMINISTIC) (K d)) denoms []"
    "\<forall>d\<in>set denoms. loads R F dir f1 d (K d)" by blast
  obtain f2 where dir: "fs_create_dir_all F dir f1 = (Inr (), f2)" using assms(4) by (metis prod.collapse)
  have "\<forall>d\<in>set denoms. loads R F dir f2 d (K d)" using K(2) loads_dir [OF assms(1) dir] by blast
  from load_keys_again [OF this] K(1) dir show ?thesis
    by (simp add: load_or_create_def map_err_op_eq)
qed

text \<open>A file system in memory.\<close>

definition demo_fs :: "(string, string) table fs" where
  "demo_fs = \<lparr>fs_create_dir_all = (\<lambda>d f. (Inr (), f)), fs_exists = (\<lambda>p f. map_of f p \<noteq> None),
     fs_read_to_string = (\<lambda>p f. ok_or ''no such file'' (map_of f p)),
     fs_write = (\<lambda>p t f. (Inr (), (p, t) # f)),
     fs_rename = (\<lambda>p q f. case map_of f p of None \<Rightarrow> (Inl ''no such file'', f)
       | Some t \<Rightarrow> (Inr (), (q, t) # filter (\<lambda>e. fst e \<noteq> p) f))\<rparr>"

lemma map_of_filter_neq: "x \<noteq> p \<Longrightarrow> map_of (filter (\<lambda>e. fst e \<noteq> p) f) x = map_of f x"
  by (induction f) auto

lemma fs_laws_demo: "fs_laws demo_fs"
  by (auto simp: fs_laws_def demo_fs_def map_of_filter_neq split: option.splits)

end
