(* ===== verification/Registry_Client.thy ===== *)
theory Registry_Client
  imports Registry_Api Wallet_Client Bank_Keys
begin

text \<open>
  The bank's client to the registry (\<open>registry_client.rs\<close> of the bank), and the two services
  together: what a bank's submission makes the registry do. The TLS stack, the HTTP agent and the
  random source are the arguments of \<open>Wallet_Client\<close>, the key directory that of \<open>Bank_Keys\<close>, the
  environment variables a function, the JSON of the two messages a pair of functions.
\<close>

section \<open>Configuration\<close>

record ('sgk, 'cfg) RegistryClient =
  rc_url :: string
  rc_bank_id :: string
  rc_issuer_id :: string
  rc_keypair :: "'sgk IdentityKeypair"
  rc_agent :: 'cfg

definition read_identity_file :: "'f fs \<Rightarrow> string \<Rightarrow> string \<Rightarrow> 'f \<Rightarrow> BankError + string" where
  "read_identity_file F key_dir name f =
     map_err (\<lambda>e. RegistryConfig (''cannot read '' @ name @ '': '' @ e))
       (fs_read_to_string F (key_dir @ ''/'' @ name) f)"

fun add_registry_roots :: "('cert, 'pkey, 'roots, 'cfg) rustls \<Rightarrow> (string + 'cert) list \<Rightarrow> 'roots \<Rightarrow> BankError + 'roots" where
  "add_registry_roots T [] roots = Inr roots"
| "add_registry_roots T (cert # certs) roots =
     bind_result (map_err (\<lambda>e. RegistryConfig (''registry CA PEM: '' @ e)) cert) (\<lambda>c.
     bind_result (map_err (\<lambda>e. RegistryConfig (''add registry CA root: '' @ e)) (roots_add T c roots)) (\<lambda>roots'.
       add_registry_roots T certs roots'))"

definition mtls_config :: "('cert, 'pkey, 'roots, 'cfg) rustls \<Rightarrow> string \<Rightarrow> string \<Rightarrow> string \<Rightarrow> BankError + 'cfg" where
  "mtls_config T ca_pem cert_pem key_pem =
     bind_result (add_registry_roots T (pem_certs T ca_pem) (roots_empty T)) (\<lambda>roots.
     bind_result (map_err (\<lambda>e. RegistryConfig (''registry client cert PEM: '' @ e))
       (collect_results (pem_certs T cert_pem))) (\<lambda>certs.
     bind_result (map_err (\<lambda>e. RegistryConfig (''registry client key PEM: '' @ e)) (pem_private_key T key_pem)) (\<lambda>found.
     bind_result (ok_or (RegistryConfig ''registry client key PEM held no key'') found) (\<lambda>key.
     bind_result (map_err Tls (tls_versions T)) (\<lambda>_.
       map_err Tls (tls_client_auth T roots certs key))))))"

definition from_env ::
  "(string \<Rightarrow> string option) \<Rightarrow> 'f fs \<Rightarrow> ('cert, 'pkey, 'roots, 'cfg) rustls \<Rightarrow> digests \<Rightarrow> ('sgk, 'vk) ed25519 \<Rightarrow> string
   \<Rightarrow> 'f \<Rightarrow> BankError + ('sgk, 'cfg) RegistryClient option" where
  "from_env env F T H D key_dir f =
     (case env ''DIGICASH_REGISTRY_URL'' of None \<Rightarrow> Inr None | Some url \<Rightarrow>
      bind_result (ok_or (RegistryConfig ''DIGICASH_BANK_ID must be set with DIGICASH_REGISTRY_URL'')
        (env ''DIGICASH_BANK_ID'')) (\<lambda>bank_id.
      let issuer_id = (case env ''DIGICASH_COIN_ISSUER_ID'' of Some i \<Rightarrow> i | None \<Rightarrow> bank_id) in
      bind_result (read_identity_file F key_dir ''registry-ca.pem'' f) (\<lambda>ca_pem.
      bind_result (read_identity_file F key_dir ''registry-cert.pem'' f) (\<lambda>cert_pem.
      bind_result (read_identity_file F key_dir ''registry-key.pem'' f) (\<lambda>key_pem.
      bind_result (read_identity_file F key_dir ''registry-ed25519.hex'' f) (\<lambda>secret_hex.
      bind_result (ok_or (RegistryConfig ''registry-ed25519.hex is not valid hex'')
        (hex_decode H (str_trim secret_hex))) (\<lambda>secret.
      if length secret \<noteq> IDENTITY_SECRET_KEY_LEN
      then Inl (RegistryConfig ''registry Ed25519 secret must be 32 bytes'')
      else
        bind_result (mtls_config T ca_pem cert_pem key_pem) (\<lambda>config.
          Inr (Some \<lparr>rc_url = url, rc_bank_id = bank_id, rc_issuer_id = issuer_id,
                     rc_keypair = identity_from_secret_bytes D secret, rc_agent = config\<rparr>)))))))))"

section \<open>Submission\<close>

definition registry_random_nonce :: "('cfg, 'w) platform \<Rightarrow> digests \<Rightarrow> ('w, BankError, string) op" where
  "registry_random_nonce P H =
     bind_op (map_err_op (\<lambda>e. RegistryConfig (''nonce randomness: '' @ e)) (os_random P 16)) (\<lambda>b. ret (hex_encode H b))"

definition transcript :: "digests \<Rightarrow> ('sgk, 'cfg) RegistryClient \<Rightarrow> string \<Rightarrow> u64 \<Rightarrow> string" where
  "transcript H client serial_hex now =
     hex_encode H (sha256 H (str_bytes serial_hex @ str_bytes (rc_bank_id client) @ str_bytes (u64_to_string now)))"

definition submission_of :: "digests \<Rightarrow> ('sgk, 'cfg) RegistryClient \<Rightarrow> u64 \<Rightarrow> u8 \<Rightarrow> bytes \<Rightarrow> u64 \<Rightarrow> SerialSubmission" where
  "submission_of H client denom scheme serial now =
     (let serial_hex = hex_encode H serial in
      \<lparr>ss_issuing_bank_id = rc_issuer_id client, ss_denomination_cents = denom, ss_scheme_id = scheme,
       ss_serial_hex = serial_hex, ss_transcript = transcript H client serial_hex now\<rparr>)"

definition client_submit_serial ::
  "('cfg, 'w) platform \<Rightarrow> digests \<Rightarrow> ('sgk, 'vk) ed25519 \<Rightarrow> (SerialSubmission \<Rightarrow> string + bytes)
   \<Rightarrow> (bytes \<Rightarrow> string + SerialResponse) \<Rightarrow> ('sgk, 'cfg) RegistryClient \<Rightarrow> u64 \<Rightarrow> u8 \<Rightarrow> bytes \<Rightarrow> u64
   \<Rightarrow> ('w, BankError, SerialOutcome) op" where
  "client_submit_serial P H D to_vec from_json client denom scheme serial now =
     (let submission = submission_of H client denom scheme serial now in
      bind_op (of_result (map_err (\<lambda>e. RegistryHttp (''serialize submission: '' @ e)) (to_vec submission))) (\<lambda>body.
      bind_op (registry_random_nonce P H) (\<lambda>nonce.
      let payload = canonical_payload H ''POST'' ''/serials'' body now nonce;
          sig = hex_encode H (identity_sign D (rc_keypair client) (str_bytes payload));
          url = rc_url client @ ''/serials'' in
      bind_op (map_err_op (\<lambda>e. RegistryHttp (''POST '' @ url @ '': '' @ e)) (http_send P (rc_agent client)
        \<lparr>og_method = ''POST'', og_url = url,
         og_headers = [(''content-type'', ''application/json''), (HEADER_ACCOUNT, rc_bank_id client),
           (HEADER_TIMESTAMP, u64_to_string now), (HEADER_NONCE, nonce), (HEADER_SIGNATURE, sig)],
         og_body = body\<rparr>)) (\<lambda>response.
      bind_op (of_result (map_err (\<lambda>e. RegistryHttp (''decode registry response: '' @ e)) (from_json response))) (\<lambda>parsed.
        ret (sr_outcome parsed))))))"

section \<open>The registry behind the client\<close>

text \<open>
  A request reaches the registry as it was sent: same method and body, the path after the base URL,
  and the headers that were set.
\<close>

definition received :: "string \<Rightarrow> outgoing \<Rightarrow> http_request \<Rightarrow> bool" where
  "received base og rq \<longleftrightarrow> rq_method rq = og_method og \<and> og_url og = base @ rq_path rq \<and>
     rq_body rq = Some (og_body og) \<and> (\<forall>(h, v) \<in> set (og_headers og). rq_header rq h = Some v)"

text \<open>
  What stands between bank and registry: the random source does not touch the registry, an answer to
  a submission comes from the registry's router run on the request as received, and a submission
  that was encoded and arrives as JSON is extracted again. The law is about one call: the router runs
  at the time of that call, and no request of another client comes between the state in which the
  call is made and its answer.
\<close>

definition registry_wire ::
  "('cfg, 'w) platform \<Rightarrow> ('w \<Rightarrow> 'x registry_db_scheme)
   \<Rightarrow> (http_request \<Rightarrow> ('x registry_db_scheme, registry_failure, registry_reply) op)
   \<Rightarrow> registry_extractors \<Rightarrow> (SerialSubmission \<Rightarrow> string + bytes) \<Rightarrow> (bytes \<Rightarrow> string + SerialResponse)
   \<Rightarrow> ('sgk, 'cfg) RegistryClient \<Rightarrow> bool" where
  "registry_wire P db serve X to_vec from_json client \<longleftrightarrow>
     (\<forall>w. db (snd (os_random P 16 w)) = db w) \<and>
     (\<forall>og w reply w'. og_url og = rc_url client @ ''/serials'' \<longrightarrow> http_send P (rc_agent client) og w = (Inr reply, w') \<longrightarrow>
        (\<exists>rq resp. received (rc_url client) og rq \<and> serve rq (db w) = (Inr (SerialReply resp), db w') \<and>
           from_json reply = Inr resp)) \<and>
     (\<forall>sub b rq. to_vec sub = Inr b \<longrightarrow> rq_body rq = Some b \<longrightarrow> rq_header rq ''content-type'' = Some ''application/json'' \<longrightarrow>
        rx_serial X rq = Inr sub)"

lemma submit_outcome_ledger:
  assumes "registry_ledger s' = registry_ledger s"
  shows "submit_outcome b sub s' = submit_outcome b sub s"
proof -
  have eq: "exposure_caps s' = exposure_caps s" "serials s' = serials s" "receivables s' = receivables s"
    using assms by (simp_all add: registry_ledger_def)
  then have recv: "receivable_of s' = receivable_of s" by (simp add: receivable_of_def fun_eq_iff)
  show ?thesis unfolding submit_outcome_def over_cap_def eq recv ..
qed

lemma submitted_ledger:
  assumes "registry_ledger s' = registry_ledger s"
  shows "registry_ledger (submitted b sub now s') = registry_ledger (submitted b sub now s)"
  using assms submit_outcome_ledger [OF assms, of b sub]
  by (cases "submit_outcome b sub s") (simp_all add: submitted_def registry_ledger_def)

text \<open>A submission the router answered: authenticated as the sender, and carried out.\<close>

lemma router_serial:
  assumes "registry_router X H D collation order now later rq s = (Inr (SerialReply resp), s')"
    and "rq_path rq = ''/serials''" and "rq_method rq = ''POST''" and "rq_header rq HEADER_ACCOUNT = Some b"
    and "\<And>rq'. rq_body rq' = rq_body rq \<Longrightarrow> rq_header rq' = rq_header rq \<Longrightarrow> rx_serial X rq' = Inr sub" and "keyed (registry_nonces s)"
  shows "\<exists>s1. registry_ledger s1 = registry_ledger s \<and> submit_serial b sub later s1 = (Inr resp, s')"
proof -
  from assms(1-3) obtain bk rq' s1 where auth: "registry_authenticate H D now rq s = (Inr (AuthenticatedBank bk, rq'), s1)"
    and h: "registry_handle SerialReply (rx_serial X rq') (post_serial later (AuthenticatedBank bk)) s1 = (Inr (SerialReply resp), s')"
    by (auto simp: registry_router_def Let_def registry_verify_signed_request_def bind_op_Inr map_err_op_eq split: prod.splits)
      (metis AuthenticatedBank.exhaust)
  have led: "registry_ledger s1 = registry_ledger s"
    using keepsD [OF keeps_quiet_authenticate [of s] _ auth] assms(6) by simp
  from auth have "bk = b \<and> rq_body rq' = rq_body rq \<and> rq_header rq' = rq_header rq"
    by (rule registry_authenticate_Inr)
      (use assms(4) in \<open>auto simp: from_lookup_Inr to_bytes_def split: option.splits if_splits\<close>)
  with h assms(5) led show ?thesis
    by (auto simp: registry_handle_def post_serial_def bind_op_Inr map_err_op_eq)
qed

lemma client_submit_Inr:
  assumes "client_submit_serial P H D to_vec from_json client denom scheme serial t w = (Inr outcome, w')"
  obtains body nonce w1 og reply resp where "to_vec (submission_of H client denom scheme serial t) = Inr body"
    "registry_random_nonce P H w = (Inr nonce, w1)" "og_method og = ''POST''" "og_url og = rc_url client @ ''/serials''"
    "og_body og = body" "(HEADER_ACCOUNT, rc_bank_id client) \<in> set (og_headers og)"
    "(''content-type'', ''application/json'') \<in> set (og_headers og)"
    "http_send P (rc_agent client) og w1 = (Inr reply, w')" "from_json reply = Inr resp" "outcome = sr_outcome resp"
proof -
  from assms obtain body where body: "to_vec (submission_of H client denom scheme serial t) = Inr body"
    by (auto simp: client_submit_serial_def Let_def bind_op_Inr)
  from assms obtain nonce w1 where nonce: "registry_random_nonce P H w = (Inr nonce, w1)"
    by (auto simp: client_submit_serial_def Let_def bind_op_Inr body)
  define og where "og = \<lparr>og_method = ''POST'', og_url = rc_url client @ ''/serials'',
     og_headers = [(''content-type'', ''application/json''), (HEADER_ACCOUNT, rc_bank_id client),
       (HEADER_TIMESTAMP, u64_to_string t), (HEADER_NONCE, nonce), (HEADER_SIGNATURE,
        hex_encode H (identity_sign D (rc_keypair client) (str_bytes (canonical_payload H ''POST'' ''/serials'' body t nonce))))],
     og_body = body\<rparr>"
  from assms obtain reply resp where "http_send P (rc_agent client) og w1 = (Inr reply, w')"
    "from_json reply = Inr resp" "outcome = sr_outcome resp"
    by (auto simp: client_submit_serial_def Let_def bind_op_Inr body nonce og_def [symmetric] map_err_op_eq)
  with body nonce show thesis by (intro that [of body nonce w1 og reply resp]) (simp_all add: og_def)
qed

lemma accepted_effect:
  assumes "submit_outcome b sub s = SerialAccepted" and "registry_ledger s' = registry_ledger (submitted b sub now s)"
  shows "map_of (serials s') (serial_key sub) = Some (first_of b sub now)"
    and "receivable_of s' (ss_issuing_bank_id sub, b) = receivable_of s (ss_issuing_bank_id sub, b) + uint (ss_denomination_cents sub)"
proof -
  from assms have eq: "serials s' = serials s @ [(serial_key sub, first_of b sub now)]"
    "receivables s' = add_owed (ss_issuing_bank_id sub, b) (uint (ss_denomination_cents sub)) (receivables s)"
    by (simp_all add: registry_ledger_def submitted_def)
  have "map_of (serials s) (serial_key sub) = None" using assms(1) by (auto simp: submit_outcome_def split: if_splits)
  then show "map_of (serials s') (serial_key sub) = Some (first_of b sub now)" by (simp add: eq map_add_def)
  show "receivable_of s' (ss_issuing_bank_id sub, b) = receivable_of s (ss_issuing_bank_id sub, b) + uint (ss_denomination_cents sub)"
    by (auto simp: eq receivable_of_def add_owed_def select_update_row map_add_def split: option.split)
qed

lemma client_reaches_registry:
  assumes "registry_wire P db (registry_router X H D collation order now later) X to_vec from_json client"
    and "registry_wf (db w)"
    and "client_submit_serial P H D to_vec from_json client denom scheme serial t w = (Inr outcome, w')"
  obtains s1 resp where "registry_ledger s1 = registry_ledger (db w)" "outcome = sr_outcome resp"
    "submit_serial (rc_bank_id client) (submission_of H client denom scheme serial t) later s1 = (Inr resp, db w')"
proof -
  let ?url = "rc_url client @ ''/serials''" and ?sub = "submission_of H client denom scheme serial t"
  from assms(3) obtain body nonce w1 og reply resp where body: "to_vec ?sub = Inr body"
    and nonce: "registry_random_nonce P H w = (Inr nonce, w1)"
    and og: "og_method og = ''POST''" "og_url og = ?url" "og_body og = body"
      "(HEADER_ACCOUNT, rc_bank_id client) \<in> set (og_headers og)"
      "(''content-type'', ''application/json'') \<in> set (og_headers og)"
    and sent: "http_send P (rc_agent client) og w1 = (Inr reply, w')"
    and resp: "from_json reply = Inr resp" "outcome = sr_outcome resp"
    by (rule client_submit_Inr)
  obtain draw where "os_random P 16 w = (draw, w1)"
    using nonce by (auto simp: registry_random_nonce_def bind_op_Inr map_err_op_eq)
  with assms(1) have w1: "db w1 = db w" unfolding registry_wire_def by (metis snd_conv)
  from assms(1) sent og(2) obtain rq resp' where rq: "received (rc_url client) og rq"
    and run: "registry_router X H D collation order now later rq (db w1) = (Inr (SerialReply resp'), db w')"
    and "from_json reply = Inr resp'" unfolding registry_wire_def by blast
  with resp have "resp' = resp" by simp
  have path: "rq_path rq = ''/serials''" "rq_method rq = ''POST''"
    "rq_header rq HEADER_ACCOUNT = Some (rc_bank_id client)" "rq_body rq = Some body"
    "rq_header rq ''content-type'' = Some ''application/json''"
    using rq og by (auto simp: received_def)
  have ext: "rx_serial X rq' = Inr ?sub" if "rq_body rq' = rq_body rq" "rq_header rq' = rq_header rq" for rq'
  proof -
    have "rq_body rq' = Some body" "rq_header rq' ''content-type'' = Some ''application/json''"
      using that path(4,5) by simp_all
    with assms(1) body show ?thesis unfolding registry_wire_def by blast
  qed
  have "keyed (registry_nonces (db w1))" using assms(2) w1 by (simp add: registry_wf_defs)
  from router_serial [OF run path(1-3) ext this] \<open>resp' = resp\<close> w1 obtain s1 where
    "registry_ledger s1 = registry_ledger (db w)" "submit_serial (rc_bank_id client) ?sub later s1 = (Inr resp, db w')" by auto
  with resp(2) show thesis by (intro that)
qed

lemma client_effect:
  assumes "registry_wire P db (registry_router X H D collation order now later) X to_vec from_json client"
    and "registry_wf (db w)"
    and "client_submit_serial P H D to_vec from_json client denom scheme serial t w = (Inr outcome, w')"
  shows "registry_ledger (db w') =
      registry_ledger (submitted (rc_bank_id client) (submission_of H client denom scheme serial t) later (db w))"
    and "outcome = submit_outcome (rc_bank_id client) (submission_of H client denom scheme serial t) (db w)"
proof -
  obtain s1 resp where led: "registry_ledger s1 = registry_ledger (db w)" and resp: "outcome = sr_outcome resp"
    and sub: "submit_serial (rc_bank_id client) (submission_of H client denom scheme serial t) later s1 = (Inr resp, db w')"
    by (rule client_reaches_registry [OF assms])
  note run = submit_serial_Inr [OF sub]
  obtain fs where "db w' = (submitted (rc_bank_id client) (submission_of H client denom scheme serial t) later s1)\<lparr>faults := fs\<rparr>"
    using same_tablesD [OF run(4)] by blast
  then show "registry_ledger (db w') =
      registry_ledger (submitted (rc_bank_id client) (submission_of H client denom scheme serial t) later (db w))"
    using submitted_ledger [OF led] by simp
  show "outcome = submit_outcome (rc_bank_id client) (submission_of H client denom scheme serial t) (db w)"
    using resp run(1) submit_outcome_ledger [OF led] by (simp add: submit_reply_def)
qed

lemma submission_of_simps [simp]:
  "serial_key (submission_of H client denom scheme serial t) = (uint denom, uint scheme, hex_encode H serial)"
  "ss_issuing_bank_id (submission_of H client denom scheme serial t) = rc_issuer_id client"
  "ss_denomination_cents (submission_of H client denom scheme serial t) = denom"
  by (simp_all add: submission_of_def Let_def serial_key_def)

text \<open>
  C38: A bank's submission is the registry's. When the bank's client returns an outcome for a coin,
  the registry behind it has authenticated the bank and carried out exactly the abstract submission
  of this coin under the bank's id, whatever its database did; the outcome is the one the registry's
  tables determine, and on acceptance the serial is recorded for this bank and what the issuer owes
  it has grown by the denomination.
\<close>

theorem submission_recorded:
  assumes "registry_wire P db (registry_router X H D collation order now later) X to_vec from_json client"
    and "registry_wf (db w)"
    and "client_submit_serial P H D to_vec from_json client denom scheme serial t w = (Inr outcome, w')"
  defines "sub \<equiv> submission_of H client denom scheme serial t" and "b \<equiv> rc_bank_id client"
  shows "registry_ledger (db w') = registry_ledger (submitted b sub later (db w)) \<and>
    outcome = submit_outcome b sub (db w) \<and>
    (outcome = SerialAccepted \<longrightarrow>
       map_of (serials (db w')) (uint denom, uint scheme, hex_encode H serial) = Some (first_of b sub later) \<and>
       receivable_of (db w') (rc_issuer_id client, b) = receivable_of (db w) (rc_issuer_id client, b) + uint denom)"
proof -
  note eff = client_effect [OF assms(1-3), folded sub_def b_def]
  show ?thesis
  proof (cases "outcome = SerialAccepted")
    case True
    with eff(2) have "submit_outcome b sub (db w) = SerialAccepted" by simp
    from accepted_effect [OF this eff(1)] eff show ?thesis by (simp add: sub_def)
  qed (use eff in simp)
qed

section \<open>Concrete runs\<close>

text \<open>
  A registry reached over a connection that drops every answer but an acceptance, and the client of
  its member bob.
\<close>

definition demo_registry_client :: "(u8, unit) RegistryClient" where
  "demo_registry_client = \<lparr>rc_url = ''https://registry'', rc_bank_id = ''bob'', rc_issuer_id = ''carol'',
     rc_keypair = IdentityKeypair 3, rc_agent = ()\<rparr>"

definition demo_sub :: SerialSubmission where
  "demo_sub = submission_of demo_digests demo_registry_client 8 0 [1] 1000"

definition demo_sub_extractors :: registry_extractors where
  "demo_sub_extractors =
     \<lparr>rx_register = (\<lambda>_. Inl 422), rx_serial = (\<lambda>rq. if rq_body rq = Some [1] then Inr demo_sub else Inl 422),
      rx_cap = (\<lambda>_. Inl 422)\<rparr>"

definition demo_serve :: "http_request \<Rightarrow> (registry_db, registry_failure, registry_reply) op" where
  "demo_serve = registry_router demo_sub_extractors demo_digests demo_ed25519 (\<lambda>n. n) rev 1000 1001"

definition demo_incoming :: "outgoing \<Rightarrow> http_request" where
  "demo_incoming og = \<lparr>rq_method = og_method og, rq_path = drop (length ''https://registry'') (og_url og),
     rq_header = map_of (og_headers og), rq_body = Some (og_body og)\<rparr>"

definition demo_accepting :: "registry_failure + registry_reply \<Rightarrow> bool" where
  "demo_accepting r \<longleftrightarrow> r = Inr (SerialReply \<lparr>sr_outcome = SerialAccepted, sr_transcripts = []\<rparr>)"

definition demo_link :: "(unit, registry_db) platform" where
  "demo_link =
     \<lparr>os_now = ret 1000, os_random = (\<lambda>n. ret (replicate n 7)), os_rng = (\<lambda>w. (0, w)),
      file_read = (\<lambda>_. fail ''''), file_write = (\<lambda>_ _. fail ''''),
      http_send = (\<lambda>_ og w. if distinct (map fst (og_headers og))
        then (case demo_serve (demo_incoming og) w of (r, w') \<Rightarrow> (if demo_accepting r then Inr [0] else Inl ''status'', w'))
        else (Inl ''header'', w)),
      http_send_register = (\<lambda>_ _ _. fail '''')\<rparr>"

definition demo_sub_json :: "SerialSubmission \<Rightarrow> string + bytes" where
  "demo_sub_json sub = (if sub = demo_sub then Inr [1] else Inl ''unsupported'')"

definition demo_reply_json :: "bytes \<Rightarrow> string + SerialResponse" where
  "demo_reply_json b = (if b = [0] then Inr \<lparr>sr_outcome = SerialAccepted, sr_transcripts = []\<rparr> else Inl ''unsupported'')"

lemma demo_wire_law:
  "registry_wire demo_link (\<lambda>w. w)
     (registry_router demo_sub_extractors demo_digests demo_ed25519 (\<lambda>n. n) rev 1000 1001)
     demo_sub_extractors demo_sub_json demo_reply_json demo_registry_client"
  unfolding registry_wire_def
proof (intro conjI allI impI)
  show "snd (os_random demo_link 16 w) = w" for w by (simp add: demo_link_def)
  show "rx_serial demo_sub_extractors rq = Inr sub" if "demo_sub_json sub = Inr b" "rq_body rq = Some b" for sub b rq
    using that by (simp add: demo_sub_json_def demo_sub_extractors_def split: if_splits)
next
  fix og :: outgoing and w reply w'
  assume url: "og_url og = rc_url demo_registry_client @ ''/serials''"
    and sent: "http_send demo_link (rc_agent demo_registry_client) og w = (Inr reply, w')"
  from sent have d: "distinct (map fst (og_headers og))" by (auto simp: demo_link_def split: if_splits)
  with sent have run: "demo_serve (demo_incoming og) w = (Inr (SerialReply \<lparr>sr_outcome = SerialAccepted, sr_transcripts = []\<rparr>), w')"
    "reply = [0]" by (auto simp: demo_link_def demo_accepting_def split: prod.splits if_splits)
  have "received (rc_url demo_registry_client) og (demo_incoming og)"
    using url d by (auto simp: received_def demo_incoming_def demo_registry_client_def)
  with run show "\<exists>rq resp. received (rc_url demo_registry_client) og rq \<and>
      registry_router demo_sub_extractors demo_digests demo_ed25519 (\<lambda>n. n) rev 1000 1001 rq w = (Inr (SerialReply resp), w') \<and>
      demo_reply_json reply = Inr resp" by (auto simp: demo_serve_def demo_reply_json_def)
qed

text \<open>The request the client sends for the coin, and the registry's answer.\<close>

definition demo_request :: outgoing where
  "demo_request = \<lparr>og_method = ''POST'', og_url = ''https://registry/serials'',
     og_headers = [(''content-type'', ''application/json''), (HEADER_ACCOUNT, ''bob''), (HEADER_TIMESTAMP, u64_to_string 1000),
       (HEADER_NONCE, hex_encode demo_digests (replicate 16 7)), (HEADER_SIGNATURE,
        hex_encode demo_digests (identity_sign demo_ed25519 (IdentityKeypair 3) (str_bytes
          (canonical_payload demo_digests ''POST'' ''/serials'' [1] 1000 (hex_encode demo_digests (replicate 16 7))))))],
     og_body = [1]\<rparr>"

lemma demo_answers:
  "fst (demo_serve (demo_incoming demo_request) demo_federation) =
     Inr (SerialReply \<lparr>sr_outcome = SerialAccepted, sr_transcripts = []\<rparr>)"
proof -
  let ?rq = "demo_incoming demo_request" and ?n = "hex_encode demo_digests (replicate 16 7)"
  let ?auth = "\<lparr>ah_account_id = ''bob'', ah_timestamp = 1000, ah_nonce = ?n, ah_signature =
    hex_encode demo_digests (sgk_sign demo_ed25519 3 (str_bytes (canonical_payload demo_digests ''POST'' ''/serials'' [1] 1000 ?n)))\<rparr>"
  have len: "length (hex_encode demo_digests b) = 2 * length b" for b using hex_laws_demo by (simp add: hex_laws_def)
  have "length (sgk_sign demo_ed25519 3 m) = 64" for m using ed25519_laws_demo by (simp add: ed25519_laws_def)
  then have ne: "hex_encode demo_digests (sgk_sign demo_ed25519 3 m) \<noteq> []" "?n \<noteq> []" for m
    using len by (metis length_0_conv length_replicate mult_eq_0_iff zero_neq_numeral)+
  have simps: "rq_method ?rq = ''POST''" "rq_path ?rq = ''/serials''" "rq_body ?rq = Some [1]"
    by (simp_all add: demo_incoming_def demo_request_def)
  have hdr: "from_lookup (rq_header ?rq) = Inr ?auth"
    using ne by (simp add: from_lookup_Inr demo_incoming_def demo_request_def header_defs identity_sign_def)
  have key: "map_of (members demo_federation) (ah_account_id ?auth) = Some \<lparr>mb_pubkey = replicate 31 0 @ [3], mb_is_admin = False\<rparr>"
    "mb_pubkey \<lparr>mb_pubkey = replicate 31 0 @ [3], mb_is_admin = False\<rparr> = vk_to_bytes demo_ed25519 (sgk_verifying_key demo_ed25519 3)"
    by (simp_all add: demo_ed25519_def)
  obtain s1 where 1: "registry_authenticate demo_digests demo_ed25519 1000 ?rq demo_federation =
      (Inr (AuthenticatedBank (ah_account_id ?auth), ?rq), s1)" "faults s1 = []" "registry_ledger s1 = registry_ledger demo_federation"
    by (rule registry_authenticate_ok [OF demo_federation_simps(1) hex_laws_demo ed25519_laws_demo simps(3) _ hdr key, of 1000])
      (simp_all add: simps)
  have wf: "registry_wf s1" using quiet_books [OF keeps_quiet_authenticate demo_federation_wf 1(1)] by blast
  from 1(3) have tabs: "serials s1 = []" "exposure_caps s1 = []" "receivables s1 = []" by (simp_all add: registry_ledger_def)
  have "submit_outcome ''bob'' demo_sub s1 = SerialAccepted" by (simp add: submit_outcome_def over_cap_def tabs)
  moreover have "ss_denomination_cents demo_sub = 8" by (simp add: demo_sub_def submission_of_def Let_def)
  ultimately have "submit_serial ''bob'' demo_sub 1001 s1 =
      (Inr \<lparr>sr_outcome = SerialAccepted, sr_transcripts = []\<rparr>, submitted ''bob'' demo_sub 1001 s1)"
    by (simp add: submit_serial_ok [OF 1(2) wf] submit_fits_def submit_reply_def receivable_of_def tabs)
  with 1(1) show ?thesis
    by (simp add: demo_serve_def registry_router_def simps Let_def registry_verify_signed_request_def map_err_op_eq
        registry_handle_def demo_sub_extractors_def post_serial_def)
qed

lemma demo_submits:
  "fst (client_submit_serial demo_link demo_digests demo_ed25519 demo_sub_json demo_reply_json demo_registry_client
     8 0 [1] 1000 demo_federation) = Inr SerialAccepted"
proof -
  have dist: "distinct (map fst (og_headers demo_request))" by (simp add: demo_request_def header_defs)
  obtain w' where "demo_serve (demo_incoming demo_request) demo_federation =
      (Inr (SerialReply \<lparr>sr_outcome = SerialAccepted, sr_transcripts = []\<rparr>), w')"
    using demo_answers by (metis prod.collapse)
  then have sent: "http_send demo_link () demo_request demo_federation = (Inr [0], w')"
    using dist by (simp add: demo_link_def demo_accepting_def)
  have rnd: "registry_random_nonce demo_link demo_digests demo_federation =
      (Inr (hex_encode demo_digests (replicate 16 7)), demo_federation)"
    by (simp add: registry_random_nonce_def demo_link_def map_err_op_def)
  have "submission_of demo_digests demo_registry_client 8 0 [1] 1000 = demo_sub" by (simp add: demo_sub_def)
  then have enc: "demo_sub_json (submission_of demo_digests demo_registry_client 8 0 [1] 1000) = Inr [1]"
    by (simp add: demo_sub_json_def)
  have req: "\<lparr>og_method = ''POST'', og_url = rc_url demo_registry_client @ ''/serials'',
     og_headers = [(''content-type'', ''application/json''), (HEADER_ACCOUNT, rc_bank_id demo_registry_client),
       (HEADER_TIMESTAMP, u64_to_string 1000), (HEADER_NONCE, hex_encode demo_digests (replicate 16 7)), (HEADER_SIGNATURE,
        hex_encode demo_digests (identity_sign demo_ed25519 (rc_keypair demo_registry_client) (str_bytes
          (canonical_payload demo_digests ''POST'' ''/serials'' [1] 1000 (hex_encode demo_digests (replicate 16 7))))))],
     og_body = [1]\<rparr> = demo_request"
    by (simp add: demo_request_def demo_registry_client_def)
  show ?thesis
    unfolding client_submit_serial_def Let_def enc
    by (simp add: rnd req map_err_op_eq sent demo_reply_json_def)
qed

theorem submission_recorded_witness:
  "map_of (serials (snd (client_submit_serial demo_link demo_digests demo_ed25519 demo_sub_json demo_reply_json
     demo_registry_client 8 0 [1] 1000 demo_federation))) (8, 0, hex_encode demo_digests [1]) = Some (first_of ''bob'' demo_sub 1001)"
proof -
  let ?w = "snd (client_submit_serial demo_link demo_digests demo_ed25519 demo_sub_json demo_reply_json
     demo_registry_client 8 0 [1] 1000 demo_federation)"
  have run: "client_submit_serial demo_link demo_digests demo_ed25519 demo_sub_json demo_reply_json
     demo_registry_client 8 0 [1] 1000 demo_federation = (Inr SerialAccepted, ?w)"
    using demo_submits by (metis prod.collapse)
  have "rc_bank_id demo_registry_client = ''bob''" by (simp add: demo_registry_client_def)
  with submission_recorded [OF demo_wire_law demo_federation_wf run] show ?thesis by (simp add: demo_sub_def)
qed

end
