(* ===== verification/Federation.thy ===== *)
theory Federation
  imports Bank_Api Registry_Client
begin

text \<open>
  A bank of a federation: the deposit of \<open>bank.rs\<close> with the registry client of
  \<open>registry_client.rs\<close> in front of the registry of \<open>registry.rs\<close>. The state is the bank's database
  together with the rest of the world; an observation of that rest is the registry's database. The
  bank's statements leave the rest alone, and the network leaves the bank's tables alone.
\<close>

section \<open>Two services in one world\<close>

text \<open>The registry as seen in the part of the world that is not the bank's database.\<close>

abbreviation remote :: "('x \<Rightarrow> 'r) \<Rightarrow> 'x bank_db_scheme \<Rightarrow> 'r" where
  "remote g s \<equiv> g (bank_db.more s)"

definition network_apart :: "('cfg, 'x bank_db_scheme) platform \<Rightarrow> 'cfg \<Rightarrow> bool" where
  "network_apart P agent \<longleftrightarrow>
     (\<forall>n w. bank_db.truncate (snd (os_random P n w)) = bank_db.truncate w) \<and>
     (\<forall>og w. bank_db.truncate (snd (http_send P agent og w)) = bank_db.truncate w)"

lemma fault_free_remote: "fault_free (\<lambda>s :: 'x bank_db_scheme. bank_db.more s = x)"
  by (simp add: fault_free_def)

lemma keeps_remote_commit: "keeps (\<lambda>s. bank_db.more s = x) (commit_deposit q)"
  unfolding commit_deposit_def Let_def bind_of_result
  by (intro wp fault_free_remote)
    (auto simp: insert_spent_def insert_deposit_def fault_free_remote elim!: add_balance_cases split: prod.splits if_splits)

lemma client_leaves_bank:
  assumes "network_apart P (rc_agent client)"
    and "client_submit_serial P H D to_vec from_json client d sc n t s = (r, s')"
  shows "bank_db.truncate s' = bank_db.truncate s"
proof -
  let ?I = "\<lambda>w. bank_db.truncate w = bank_db.truncate s"
  have "keeps ?I (os_random P 16)" "keeps ?I (http_send P (rc_agent client) og)" for og
    using assms(1) by (auto simp: network_apart_def keeps_def)
  then have "keeps ?I (client_submit_serial P H D to_vec from_json client d sc n t)"
    unfolding client_submit_serial_def registry_random_nonce_def Let_def by (intro wp)
  from keepsD [OF this refl assms(2)] show ?thesis .
qed

text \<open>
  So the bank's own registry client satisfies what the properties of the bank ask of one: whatever
  the network and the registry do, every theorem with \<open>leaves_bank\<close> or \<open>tables_apart\<close> holds of it.
\<close>

lemma client_submit_leaves_bank:
  assumes "network_apart P (rc_agent client)"
  shows "leaves_bank (Some (client_submit_serial P H D to_vec from_json client))"
  unfolding leaves_bank_def using client_leaves_bank [OF assms] by (metis option.inject prod.collapse)

lemmas client_tables_apart = leaves_bank_apart [OF client_submit_leaves_bank]

section \<open>Deposits that ask the registry\<close>

lemma not_accepted_reject [simp]: "\<not> accepted (reject x)"
  by (simp add: reject_def)

text \<open>The two ways a deposit goes: turned down before the registry is asked, or decided by its answer.\<close>

lemma deposit_asks:
  assumes "deposit R keys (Some ask) t req s = (r, s')"
  obtains (early) x where "r = Inr (reject x)" "s' = s"
  | (asked) ans s1 where "ask (denomination_cents (dr_coin req)) (scheme_id (dr_coin req)) (serial_number (dr_coin req)) t s = (ans, s1)"
      "(case ans of Inl e \<Rightarrow> r = Inl e \<and> s' = s1
        | Inr SerialAccepted \<Rightarrow> bind_op (commit_deposit req) (\<lambda>out. ret (deposit_response out)) s1 = (r, s')
        | Inr SerialDoubleSpend \<Rightarrow> r = Inr (reject RegistryDoubleSpend) \<and> s' = s1
        | Inr SerialExposureCapExceeded \<Rightarrow> r = Inr (reject ExposureCapExceeded) \<and> s' = s1)"
proof (cases "ensure_supported_scheme (scheme_id (dr_coin req))")
  case (Inl e)
  with assms early show thesis by (auto simp: deposit_def Let_def)
next
  case (Inr u)
  show thesis
  proof (cases "key_get keys (denomination_cents (dr_coin req)) (scheme_id (dr_coin req))")
    case None
    with assms Inr early show thesis by (auto simp: deposit_def Let_def)
  next
    case (Some kp)
    show thesis
    proof (cases "verify R (kp_pk kp) (serial_from_bytes (serial_number (dr_coin req))) (signature (dr_coin req))")
      case (Inl e)
      with assms \<open>ensure_supported_scheme (scheme_id (dr_coin req)) = Inr u\<close> Some early show thesis by (auto simp: deposit_def Let_def)
    next
      case (Inr v)
      obtain ans s1 where ans: "ask (denomination_cents (dr_coin req)) (scheme_id (dr_coin req)) (serial_number (dr_coin req)) t s = (ans, s1)"
        by fastforce
      with assms \<open>ensure_supported_scheme (scheme_id (dr_coin req)) = Inr u\<close> Some Inr
      show thesis
        by (intro asked [OF ans]) (auto simp: deposit_def Let_def split: sum.splits SerialOutcome.splits)
    qed
  qed
qed

text \<open>The key the registry files a coin under.\<close>

abbreviation registry_key :: "digests \<Rightarrow> Coin \<Rightarrow> int \<times> int \<times> string" where
  "registry_key H coin \<equiv> (uint (denomination_cents coin), uint (scheme_id coin), hex_encode H (serial_number coin))"

text \<open>What the transaction of an accepted deposit did to the accounts.\<close>

lemma commit_accounts:
  assumes "commit_deposit req s = (Inr out, s')" and "out = DepositAccepted \<or> out = DepositReplay"
    and "map_of (deposits s) (dr_request_id req) = None"
  shows "accounts s' = snd (update_row (dr_account_id req) (\<lambda>b. b + uint (denomination_cents (dr_coin req))) (accounts s))"
proof -
  have "after_commit req s out s'" by (rule hoare_Inr [OF hoare_commit_deposit same_tables_refl assms(1)])
  with assms(2,3) show ?thesis
    by (auto simp: after_commit_def outcome_of_def creditable_def credited_def split: option.splits if_splits dest!: same_tablesD)
qed

section \<open>Properties\<close>

text \<open>
  C23: a credited deposit is backed by the federation. When a bank with a registry accepts a
  deposit, the registry had not seen the coin, has it now recorded under this bank, and what the
  issuer owes the bank has grown by exactly the denomination; if the request id is new to the bank,
  the account was credited by that same denomination.
\<close>

theorem federated_deposit_backed:
  assumes "registry_wire P (\<lambda>s. g (bank_db.more s)) (registry_router X H D collation order now later) X to_vec from_json client"
    and "registry_wf (g (bank_db.more s))" and "network_apart P (rc_agent client)"
    and "deposit R keys (Some (client_submit_serial P H D to_vec from_json client)) t req s = (Inr resp, s')" and "accepted resp"
  defines "coin \<equiv> dr_coin req"
  defines "k \<equiv> (uint (denomination_cents coin), uint (scheme_id coin), hex_encode H (serial_number coin))"
  shows "map_of (serials (g (bank_db.more s))) k = None \<and>
    map_option first_bank_id (map_of (serials (g (bank_db.more s'))) k) = Some (rc_bank_id client) \<and>
    receivable_of (g (bank_db.more s')) (rc_issuer_id client, rc_bank_id client) =
      receivable_of (g (bank_db.more s)) (rc_issuer_id client, rc_bank_id client) + uint (denomination_cents coin) \<and>
    (map_of (deposits s) (dr_request_id req) = None \<longrightarrow>
       accounts s' = snd (update_row (dr_account_id req) (\<lambda>b. b + uint (denomination_cents coin)) (accounts s)))"
proof -
  let ?sub = "submission_of H client (denomination_cents coin) (scheme_id coin) (serial_number coin) t"
  from assms(4,5) obtain s1 out where
    ask: "client_submit_serial P H D to_vec from_json client (denomination_cents coin) (scheme_id coin) (serial_number coin) t s
      = (Inr SerialAccepted, s1)"
    and com: "commit_deposit req s1 = (Inr out, s')" "resp = deposit_response out"
    unfolding coin_def by (elim deposit_asks) (auto simp: bind_op_Inr split: sum.splits SerialOutcome.splits)
  from com(2) assms(5) have out: "out = DepositAccepted \<or> out = DepositReplay" by (cases out) auto
  note eff = client_effect [where db = "\<lambda>s. g (bank_db.more s)", OF assms(1,2) ask]
  note acc = accepted_effect [OF eff(2) [symmetric] eff(1)]
  have more: "bank_db.more s' = bank_db.more s1" by (rule keepsD [OF keeps_remote_commit refl com(1)])
  have new: "map_of (serials (g (bank_db.more s))) (serial_key ?sub) = None"
    using eff(2) by (auto simp: submit_outcome_def split: if_splits)
  note tabs = truncate_tables [OF client_leaves_bank [OF assms(3) ask]]
  have "accounts s' = snd (update_row (dr_account_id req) (\<lambda>b. b + uint (denomination_cents coin)) (accounts s))"
    if "map_of (deposits s) (dr_request_id req) = None"
    using commit_accounts [OF com(1) out] that tabs by (simp add: coin_def)
  with new acc show ?thesis by (simp add: more k_def first_of_def)
qed

text \<open>
  C22: no coin is credited twice in the federation. Once the registry holds a coin, from whichever
  bank, then after any requests, restarts and faults of the registry a bank that asks it never
  accepts a deposit of that coin, under any request id and account, and the bank's tables are
  untouched. This covers the retry of a deposit the registry accepted and the bank then failed to
  commit: it is refused as well.
\<close>

theorem federated_coin_once:
  assumes "registry_wire P (\<lambda>s. g (bank_db.more s)) (registry_router X H D collation order now later) X to_vec from_json client"
    and "registry_wf g0" and "steps (registry_step D collation) g0 (g (bank_db.more s))"
    and "network_apart P (rc_agent client)"
    and "map_of (serials g0) (uint (denomination_cents (dr_coin req)), uint (scheme_id (dr_coin req)),
      hex_encode H (serial_number (dr_coin req))) = Some first"
    and "deposit R keys (Some (client_submit_serial P H D to_vec from_json client)) t req s = (r, s')"
  shows "(\<forall>resp. r = Inr resp \<longrightarrow> \<not> accepted resp) \<and> bank_db.truncate s' = bank_db.truncate s"
proof -
  let ?coin = "dr_coin req"
  have wf: "registry_wf (g (bank_db.more s))" by (rule registry.steps_inv [OF assms(3,2)])
  have ev: "registry_evolves g0 (g (bank_db.more s))" by (rule registry_steps_evolve [OF assms(2,3)])
  have seen: "map_of (serials (g (bank_db.more s))) (registry_key H ?coin) = Some first"
    using ev assms(5) unfolding registry_evolves_def map_le_def by (metis domI)
  have no: "outcome \<noteq> SerialAccepted" if "client_submit_serial P H D to_vec from_json client
      (denomination_cents ?coin) (scheme_id ?coin) (serial_number ?coin) t s = (Inr outcome, s1)" for outcome s1
    using client_effect(2) [where db = "\<lambda>s. g (bank_db.more s)", OF assms(1) wf that] seen
    by (simp add: submit_outcome_def)
  from assms(6) show ?thesis
  proof (cases rule: deposit_asks)
    case (asked ans s1)
    with no have "s' = s1 \<and> (\<forall>resp. r = Inr resp \<longrightarrow> \<not> accepted resp)"
      by (auto split: sum.splits SerialOutcome.splits)
    with client_leaves_bank [OF assms(4) asked(1)] show ?thesis by simp
  qed simp
qed

section \<open>Concrete runs\<close>

text \<open>An operation and a platform of the rest of the world, run beside a bank's database.\<close>

definition beside_op :: "('r, 'e, 'a) op \<Rightarrow> ('r bank_db_scheme, 'e, 'a) op" where
  "beside_op m w = (case m (bank_db.more w) of (r, x) \<Rightarrow> (r, bank_db.extend (bank_db.truncate w) x))"

definition beside :: "('cfg, 'r) platform \<Rightarrow> ('cfg, 'r bank_db_scheme) platform" where
  "beside P =
     \<lparr>os_now = beside_op (os_now P), os_random = (\<lambda>n. beside_op (os_random P n)),
      os_rng = (\<lambda>w. case os_rng P (bank_db.more w) of (r, x) \<Rightarrow> (r, bank_db.extend (bank_db.truncate w) x)),
      file_read = (\<lambda>p. beside_op (file_read P p)), file_write = (\<lambda>p b. beside_op (file_write P p b)),
      http_send = (\<lambda>c og. beside_op (http_send P c og)),
      http_send_register = (\<lambda>c u b. beside_op (http_send_register P c u b))\<rparr>"

lemma extend_simps [simp]:
  "bank_db.more (bank_db.extend (bank_db.truncate w) x) = x"
  "bank_db.truncate (bank_db.extend (bank_db.truncate w) x) = bank_db.truncate w"
  "bank_db.extend (bank_db.truncate w) (bank_db.more w) = w"
  by (simp_all add: bank_db.extend_def bank_db.truncate_def)

lemma beside_simps [simp]:
  "os_random (beside P) n = beside_op (os_random P n)" "http_send (beside P) c og = beside_op (http_send P c og)"
  by (simp_all add: beside_def)

lemma beside_op_bind: "bind_op (beside_op m) (\<lambda>a. beside_op (f a)) = beside_op (bind_op m f)"
  by (auto simp: fun_eq_iff beside_op_def bind_op_def split: prod.split sum.split)

lemma beside_op_of_result: "beside_op (of_result r) = of_result r"
  by (cases r) (simp_all add: fun_eq_iff beside_op_def)

lemma beside_op_ret: "beside_op (ret a) = ret a"
  by (simp add: fun_eq_iff beside_op_def)

lemma beside_op_map_err: "map_err_op h (beside_op m) = beside_op (map_err_op h m)"
  by (auto simp: fun_eq_iff beside_op_def map_err_op_def catch_op_def split: prod.split sum.split)

lemma client_beside:
  "client_submit_serial (beside P) H D to_vec from_json client d sc n t =
     beside_op (client_submit_serial P H D to_vec from_json client d sc n t)"
  unfolding client_submit_serial_def registry_random_nonce_def Let_def
  by (simp add: beside_op_bind [symmetric] beside_op_map_err [symmetric] beside_op_of_result beside_op_ret del: op_simps)

lemma network_apart_beside: "network_apart (beside P) agent"
  by (simp add: network_apart_def beside_op_def split: prod.split)

lemma registry_wire_beside:
  assumes "registry_wire P db serve X to_vec from_json client"
  shows "registry_wire (beside P) (\<lambda>s. db (bank_db.more s)) serve X to_vec from_json client"
proof -
  have "db (bank_db.more (snd (os_random (beside P) 16 w))) = db (bank_db.more w)" for w
    using assms by (simp add: registry_wire_def beside_op_def case_prod_unfold)
  moreover have "\<exists>rq resp. received (rc_url client) og rq \<and> serve rq (db (bank_db.more w)) = (Inr (SerialReply resp), db (bank_db.more w')) \<and>
      from_json reply = Inr resp"
    if "og_url og = rc_url client @ ''/serials''" "http_send (beside P) (rc_agent client) og w = (Inr reply, w')" for og w reply w'
  proof -
    from that(2) have "http_send P (rc_agent client) og (bank_db.more w) = (Inr reply, bank_db.more w')"
      by (auto simp: beside_op_def split: prod.splits)
    with assms that(1) show ?thesis unfolding registry_wire_def by blast
  qed
  ultimately show ?thesis using assms unfolding registry_wire_def by blast
qed

text \<open>Bob deposits a coin at his bank, whose registry is the one of the client's own example.\<close>

definition demo_fed_request :: DepositRequest where
  "demo_fed_request = (demo_deposit ''bob'' ''dep-1'')\<lparr>dr_coin :=
     \<lparr>scheme_id = 0, denomination_cents = 8, serial_number = [1], signature = [7, 1]\<rparr>\<rparr>"

definition demo_fed_deposit :: "registry_db \<Rightarrow> (BankError + DepositResponse) \<times> registry_db bank_db_scheme" where
  "demo_fed_deposit fed = deposit demo_brsa demo_keys (Some (client_submit_serial (beside demo_link) demo_digests demo_ed25519
     demo_sub_json demo_reply_json demo_registry_client)) 1000 demo_fed_request (bank_db.extend (demo_bank []) fed)"

lemma demo_fed_more [simp]: "bank_db.more (bank_db.extend (demo_bank []) x) = x"
  by (simp add: bank_db.extend_def)

lemma demo_fed_bank [simp]:
  "faults (bank_db.extend (demo_bank []) x) = []" "accounts (bank_db.extend (demo_bank []) x) = [(''alice'', 100), (''bob'', 5)]"
  "deposits (bank_db.extend (demo_bank []) x) = []" "spent_serials (bank_db.extend (demo_bank []) x) = []"
  "bank_db.extend (bank_db.truncate (bank_db.extend (demo_bank []) x)) y = bank_db.extend (demo_bank []) y"
  by (simp_all add: bank_db.extend_def bank_db.truncate_def demo_bank_def empty_bank_def)

lemma demo_fed_wire:
  "registry_wire (beside demo_link) (\<lambda>s. bank_db.more s)
     (registry_router demo_sub_extractors demo_digests demo_ed25519 (\<lambda>n. n) rev 1000 1001)
     demo_sub_extractors demo_sub_json demo_reply_json demo_registry_client"
  using registry_wire_beside [OF demo_wire_law] .

lemma demo_fed_accepts: "fst (demo_fed_deposit demo_federation) = Inr accept"
proof -
  let ?s = "bank_db.extend (demo_bank []) demo_federation"
  obtain fed where fed: "client_submit_serial demo_link demo_digests demo_ed25519 demo_sub_json demo_reply_json
      demo_registry_client 8 0 [1] 1000 demo_federation = (Inr SerialAccepted, fed)"
    using demo_submits by (metis prod.collapse)
  let ?s1 = "bank_db.extend (demo_bank []) fed"
  have ask: "client_submit_serial (beside demo_link) demo_digests demo_ed25519 demo_sub_json demo_reply_json
      demo_registry_client 8 0 [1] 1000 ?s = (Inr SerialAccepted, ?s1)"
    by (simp add: client_beside beside_op_def fed)
  have bal: "balances_ok ?s1" by (simp add: balances_ok_def)
  have "fst (commit_deposit demo_fed_request ?s1) = Inr DepositAccepted"
    by (simp add: commit_deposit_ok [OF _ bal] demo_fed_request_def outcome_of_def creditable_def)
  then obtain s' where com: "commit_deposit demo_fed_request ?s1 = (Inr DepositAccepted, s')" by (metis prod.collapse)
  show ?thesis
    unfolding demo_fed_deposit_def deposit_def Let_def
    using ask com by (simp add: demo_fed_request_def demo_keys_def key_get_def verify_def demo_brsa_def
        ensure_supported_scheme_def serial_from_bytes_def model_defs)
qed

theorem federated_deposit_backed_witness:
  "receivable_of (bank_db.more (snd (demo_fed_deposit demo_federation))) (''carol'', ''bob'') =
     receivable_of demo_federation (''carol'', ''bob'') + 8 \<and>
   accounts (snd (demo_fed_deposit demo_federation)) = [(''alice'', 100), (''bob'', 13)]"
proof -
  let ?s = "bank_db.extend (demo_bank []) demo_federation"
  have wf: "registry_wf (bank_db.more ?s)" by (simp add: demo_federation_wf)
  have run: "deposit demo_brsa demo_keys (Some (client_submit_serial (beside demo_link) demo_digests demo_ed25519
     demo_sub_json demo_reply_json demo_registry_client)) 1000 demo_fed_request ?s = (Inr accept, snd (demo_fed_deposit demo_federation))"
    using demo_fed_accepts unfolding demo_fed_deposit_def [symmetric] by (metis prod.collapse)
  have "accepted accept" by (simp add: accept_def)
  from federated_deposit_backed [where g = "\<lambda>x. x", OF demo_fed_wire wf network_apart_beside run this]
  show ?thesis by (simp add: demo_fed_request_def demo_registry_client_def update_row_def)
qed

theorem federated_coin_once_witness:
  "bank_db.truncate (snd (demo_fed_deposit Registry_Api.demo_deposited)) = demo_bank []"
proof -
  let ?g0 = "Registry_Api.demo_deposited"
  let ?s = "bank_db.extend (demo_bank []) ?g0"
  have "registry_step demo_ed25519 (\<lambda>n. n) demo_federation ?g0"
    using demo_deposits by (intro registry_request [where order = rev]) (auto simp: hash_laws_def)
  then have wf: "registry_wf ?g0" using registry_step_books [OF _ demo_federation_wf] by blast
  have life: "steps (registry_step demo_ed25519 (\<lambda>n. n)) ?g0 (bank_db.more ?s)" by (simp add: steps_refl)
  have hex: "hex_encode demo_digests [1] = ''01''" by (simp add: demo_digests_def) code_simp
  have seen: "map_of (serials ?g0) (uint (denomination_cents (dr_coin demo_fed_request)), uint (scheme_id (dr_coin demo_fed_request)),
      hex_encode demo_digests (serial_number (dr_coin demo_fed_request))) =
    Some \<lparr>first_bank_id = ''bob'', first_transcript = ''t'', first_seen_at = 7\<rparr>"
    using demo_deposits by (simp add: demo_fed_request_def hex)
  have "bank_db.truncate (snd (demo_fed_deposit ?g0)) = bank_db.truncate ?s"
    using federated_coin_once [where g = "\<lambda>x. x", OF demo_fed_wire wf life network_apart_beside seen prod.collapse [symmetric]]
    unfolding demo_fed_deposit_def by blast
  then show ?thesis by (simp add: bank_db.extend_def bank_db.truncate_def)
qed

end
