(* ===== verification/Bank_Tls.thy ===== *)
theory Bank_Tls
  imports Bank_Api Bank_Keys Wallet_Client
begin

text \<open>
  The bank's certificate authority (\<open>tls.rs\<close>): the persisted key of the authority, the certificates
  regenerated from it at every start, the two TLS configurations of the server and the client
  certificates issued at enrolment. The certificate generator \<open>rcgen\<close>, the TLS stack \<open>rustls\<close> and
  what an X.509 certificate says are arguments; the file system is that of \<open>Bank_Keys\<close>.
\<close>

section \<open>External crates\<close>

text \<open>The parameters of a certificate, as far as the code sets them (\<open>rcgen::CertificateParams\<close>).\<close>

datatype DnType = CommonName
datatype KeyUsagePurpose = KeyCertSign | CrlSign
datatype ExtendedKeyUsagePurpose = ServerAuth | ClientAuth

record CertificateParams =
  cp_names :: "string list"
  cp_is_ca :: bool
  cp_distinguished_name :: "(DnType \<times> string) list"
  cp_key_usages :: "KeyUsagePurpose list"
  cp_extended_key_usages :: "ExtendedKeyUsagePurpose list"
  cp_authority_key_identifier :: bool

text \<open>A generated certificate keeps the parameters it was made from (\<open>rcgen::Certificate\<close>).\<close>

record 'ct Certificate =
  ct_params :: CertificateParams
  ct_der :: 'ct

text \<open>
  \<open>rcgen\<close>: key pairs of type \<open>'ck\<close>, certificates in DER of type \<open>'ct\<close>. A number stands for the random
  draws of a generation or a signature.
\<close>

record ('ck, 'ct) rcgen =
  key_generate :: "nat \<Rightarrow> string + 'ck"
  key_from_pem_text :: "string \<Rightarrow> string + 'ck"
  key_serialize_pem :: "'ck \<Rightarrow> string"
  key_serialize_der :: "'ck \<Rightarrow> bytes"
  params_new :: "string list \<Rightarrow> string + CertificateParams"
  self_signed :: "nat \<Rightarrow> CertificateParams \<Rightarrow> 'ck \<Rightarrow> string + 'ct Certificate"
  signed_by :: "nat \<Rightarrow> CertificateParams \<Rightarrow> 'ck \<Rightarrow> 'ct Certificate \<Rightarrow> 'ck \<Rightarrow> string + 'ct Certificate"
  cert_to_pem :: "'ct Certificate \<Rightarrow> string"

text \<open>
  The server side of \<open>rustls\<close>: trust anchors, the client verifier built on them, the configuration,
  and what a handshake with it does: the chain it presents and whether it lets a client with these
  certificates in.
\<close>

record ('ct, 'roots, 'ver, 'scfg) rustls_server =
  sv_roots_empty :: 'roots
  sv_roots_add :: "'ct \<Rightarrow> 'roots \<Rightarrow> string + 'roots"
  sv_verifier :: "'roots \<Rightarrow> string + 'ver"
  sv_versions :: "string + unit"
  sv_single_cert :: "'ver option \<Rightarrow> 'ct list \<Rightarrow> bytes \<Rightarrow> string + 'scfg"
  sv_presents :: "'scfg \<Rightarrow> 'ct list"
  sv_admits :: "'scfg \<Rightarrow> 'ct list \<Rightarrow> bool"

section \<open>Certificate parameters\<close>

definition CA_KEY_FILE :: string where "CA_KEY_FILE = ''ca-key.pem''"
definition CA_CERT_FILE :: string where "CA_CERT_FILE = ''ca-cert.pem''"
definition CA_COMMON_NAME :: string where "CA_COMMON_NAME = ''digicash bank CA''"
definition SERVER_COMMON_NAME :: string where "SERVER_COMMON_NAME = ''digicash bank''"

definition single_cn :: "string \<Rightarrow> (DnType \<times> string) list" where
  "single_cn common_name = [(CommonName, common_name)]"

definition ca_params :: "('ck, 'ct) rcgen \<Rightarrow> BankError + CertificateParams" where
  "ca_params G =
     bind_result (map_err CertGen (params_new G [])) (\<lambda>params.
       Inr (params\<lparr>cp_is_ca := True, cp_distinguished_name := single_cn CA_COMMON_NAME,
                   cp_key_usages := [KeyCertSign, CrlSign]\<rparr>))"

definition server_params :: "('ck, 'ct) rcgen \<Rightarrow> BankError + CertificateParams" where
  "server_params G =
     bind_result (map_err CertGen (params_new G [''localhost'', ''127.0.0.1''])) (\<lambda>params.
       Inr (params\<lparr>cp_distinguished_name := single_cn SERVER_COMMON_NAME,
                   cp_authority_key_identifier := True, cp_extended_key_usages := [ServerAuth]\<rparr>))"

definition client_params :: "('ck, 'ct) rcgen \<Rightarrow> string \<Rightarrow> BankError + CertificateParams" where
  "client_params G account_id =
     bind_result (map_err CertGen (params_new G [])) (\<lambda>params.
       Inr (params\<lparr>cp_distinguished_name := single_cn account_id,
                   cp_authority_key_identifier := True, cp_extended_key_usages := [ClientAuth]\<rparr>))"

section \<open>The authority\<close>

record ('ck, 'ct) CertAuthority =
  ca_key :: 'ck
  ca_cert :: "'ct Certificate"
  server_cert_der :: 'ct
  server_key_der :: bytes

record 'ct ClientIdentity =
  cert_pem :: string
  key_pem :: string
  cert_der :: 'ct
  key_pkcs8_der :: bytes

abbreviation ca_key_path :: "string \<Rightarrow> string" where
  "ca_key_path key_dir \<equiv> key_dir @ ''/'' @ CA_KEY_FILE"

abbreviation ca_cert_path :: "string \<Rightarrow> string" where
  "ca_cert_path key_dir \<equiv> key_dir @ ''/'' @ CA_CERT_FILE"

abbreviation ca_tmp_path :: "string \<Rightarrow> 32 word \<Rightarrow> string" where
  "ca_tmp_path key_dir pid \<equiv> key_dir @ ''/'' @ CA_CERT_FILE @ ''.'' @ nat_to_dec (unat pid) @ ''.tmp''"

text \<open>The two branches that give the authority's key: read it back, or make it and store it.\<close>

definition load_ca_key :: "('ck, 'ct) rcgen \<Rightarrow> 'f fs \<Rightarrow> string \<Rightarrow> 'f \<Rightarrow> BankError + 'ck" where
  "load_ca_key G F path f =
     bind_result (map_err Io (fs_read_to_string F path f)) (\<lambda>pem.
       map_err CertGen (key_from_pem_text G pem))"

definition create_ca_key :: "('ck, 'ct) rcgen \<Rightarrow> 'f fs \<Rightarrow> nat \<Rightarrow> string \<Rightarrow> ('f, BankError, 'ck) op" where
  "create_ca_key G F draw path =
     bind_op (of_result (map_err CertGen (key_generate G draw))) (\<lambda>key.
     bind_op (map_err_op Io (fs_write F path (key_serialize_pem G key))) (\<lambda>_.
       ret key))"

definition ca_key_load_or_create ::
  "('ck, 'ct) rcgen \<Rightarrow> 'f fs \<Rightarrow> nat \<Rightarrow> string \<Rightarrow> ('f, BankError, 'ck) op" where
  "ca_key_load_or_create G F draw path f =
     (if fs_exists F path f then (load_ca_key G F path f, f) else create_ca_key G F draw path f)"

definition ca_load_or_create ::
  "('ck, 'ct) rcgen \<Rightarrow> 'f fs \<Rightarrow> (nat \<Rightarrow> nat) \<Rightarrow> 32 word \<Rightarrow> string \<Rightarrow> ('f, BankError, ('ck, 'ct) CertAuthority) op" where
  "ca_load_or_create G F rng pid key_dir =
     bind_op (map_err_op Io (fs_create_dir_all F key_dir)) (\<lambda>_.
     bind_op (ca_key_load_or_create G F (rng 0) (ca_key_path key_dir)) (\<lambda>key.
     bind_op (of_result (ca_params G)) (\<lambda>params.
     bind_op (of_result (map_err CertGen (self_signed G (rng 1) params key))) (\<lambda>cert.
     bind_op (map_err_op Io (fs_write F (ca_tmp_path key_dir pid) (cert_to_pem G cert))) (\<lambda>_.
     bind_op (map_err_op Io (fs_rename F (ca_tmp_path key_dir pid) (ca_cert_path key_dir))) (\<lambda>_.
     bind_op (of_result (map_err CertGen (key_generate G (rng 2)))) (\<lambda>server_key.
     bind_op (of_result (server_params G)) (\<lambda>params.
     bind_op (of_result (map_err CertGen (signed_by G (rng 3) params server_key cert key))) (\<lambda>server_cert.
       ret \<lparr>ca_key = key, ca_cert = cert, server_cert_der = ct_der server_cert,
            server_key_der = key_serialize_der G server_key\<rparr>)))))))))"

definition ca_cert_der :: "('ck, 'ct) CertAuthority \<Rightarrow> 'ct" where
  "ca_cert_der ca = ct_der (ca_cert ca)"

definition authority_cert_pem :: "('ck, 'ct) rcgen \<Rightarrow> ('ck, 'ct) CertAuthority \<Rightarrow> string" where
  "authority_cert_pem G ca = cert_to_pem G (ca_cert ca)"

definition server_config ::
  "('ct, 'roots, 'ver, 'scfg) rustls_server \<Rightarrow> ('ck, 'ct) CertAuthority \<Rightarrow> BankError + 'scfg" where
  "server_config S ca =
     bind_result (map_err Tls (sv_roots_add S (ca_cert_der ca) (sv_roots_empty S))) (\<lambda>roots.
     bind_result (map_err ClientVerifier (sv_verifier S roots)) (\<lambda>verifier.
     bind_result (map_err Tls (sv_versions S)) (\<lambda>_.
       map_err Tls (sv_single_cert S (Some verifier) [server_cert_der ca] (server_key_der ca)))))"

definition enrollment_server_config ::
  "('ct, 'roots, 'ver, 'scfg) rustls_server \<Rightarrow> ('ck, 'ct) CertAuthority \<Rightarrow> BankError + 'scfg" where
  "enrollment_server_config S ca =
     bind_result (map_err Tls (sv_versions S)) (\<lambda>_.
       map_err Tls (sv_single_cert S None [server_cert_der ca] (server_key_der ca)))"

text \<open>Issuing a client certificate; \<open>rng\<close> gives the draws for the key and for the signature.\<close>

definition issue_client_identity ::
  "('ck, 'ct) rcgen \<Rightarrow> (nat \<Rightarrow> nat) \<Rightarrow> ('ck, 'ct) CertAuthority \<Rightarrow> string \<Rightarrow> BankError + 'ct ClientIdentity" where
  "issue_client_identity G rng ca account_id =
     bind_result (map_err CertGen (key_generate G (rng 0))) (\<lambda>key.
     bind_result (client_params G account_id) (\<lambda>params.
     bind_result (map_err CertGen (signed_by G (rng 1) params key (ca_cert ca) (ca_key ca))) (\<lambda>cert.
       Inr \<lparr>cert_pem = cert_to_pem G cert, key_pem = key_serialize_pem G key,
            cert_der = ct_der cert, key_pkcs8_der = key_serialize_der G key\<rparr>)))"

text \<open>The authority as the enrolment handler calls it.\<close>

definition handle_of ::
  "('ck, 'ct) rcgen \<Rightarrow> (nat \<Rightarrow> nat) \<Rightarrow> ('ck, 'ct) CertAuthority \<Rightarrow> ca_handle" where
  "handle_of G rng ca =
     \<lparr>ca_issue = (\<lambda>account_id. bind_result (issue_client_identity G rng ca account_id) (\<lambda>i. Inr (cert_pem i, key_pem i))),
      ca_pem = authority_cert_pem G ca\<rparr>"

section \<open>What the code relies on\<close>

text \<open>
  What a certificate says: names, issuer, purposes, whether it is an authority's, its public key, under
  which keys its signature verifies, and whether the present lies in its validity.
\<close>

record ('ck, 'ct) x509 =
  x_subject :: "'ct \<Rightarrow> (DnType \<times> string) list"
  x_issuer :: "'ct \<Rightarrow> (DnType \<times> string) list"
  x_names :: "'ct \<Rightarrow> string list"
  x_purposes :: "'ct \<Rightarrow> ExtendedKeyUsagePurpose list"
  x_is_ca :: "'ct \<Rightarrow> bool"
  x_valid_now :: "'ct \<Rightarrow> bool"
  x_public_key :: "'ct \<Rightarrow> bytes"
  x_verifies :: "'ct \<Rightarrow> bytes \<Rightarrow> bool"
  key_public :: "'ck \<Rightarrow> bytes"

text \<open>Validation of an end-entity certificate directly under a trust anchor, for a purpose.\<close>

definition chains :: "('ck, 'ct) x509 \<Rightarrow> ExtendedKeyUsagePurpose \<Rightarrow> 'ct \<Rightarrow> 'ct \<Rightarrow> bool" where
  "chains X purpose anchor leaf \<longleftrightarrow>
     x_issuer X leaf = x_subject X anchor \<and> x_verifies X leaf (x_public_key X anchor) \<and>
     x_valid_now X leaf \<and> \<not> x_is_ca X leaf \<and>
     (x_purposes X leaf = [] \<or> purpose \<in> set (x_purposes X leaf))"

text \<open>
  \<open>rcgen\<close>: a key reads back from its PEM; new parameters have the given names and nothing else set; a
  certificate says what its parameters and its issuer's say, with the default validity (1975 to
  4096), and verifies exactly under the key that signed it.
\<close>

definition rcgen_laws :: "('ck, 'ct) rcgen \<Rightarrow> ('ck, 'ct) x509 \<Rightarrow> bool" where
  "rcgen_laws G X \<longleftrightarrow>
     (\<forall>k. key_from_pem_text G (key_serialize_pem G k) = Inr k) \<and>
     (\<forall>ns p. params_new G ns = Inr p \<longrightarrow> cp_names p = ns \<and> \<not> cp_is_ca p \<and> cp_extended_key_usages p = []) \<and>
     (\<forall>r p k c. self_signed G r p k = Inr c \<longrightarrow> ct_params c = p \<and>
        x_subject X (ct_der c) = cp_distinguished_name p \<and> x_public_key X (ct_der c) = key_public X k) \<and>
     (\<forall>r p k ic ik c. signed_by G r p k ic ik = Inr c \<longrightarrow> ct_params c = p \<and>
        x_issuer X (ct_der c) = cp_distinguished_name (ct_params ic) \<and> x_names X (ct_der c) = cp_names p \<and>
        x_purposes X (ct_der c) = cp_extended_key_usages p \<and> x_is_ca X (ct_der c) = cp_is_ca p \<and>
        x_valid_now X (ct_der c) \<and> (\<forall>pk. x_verifies X (ct_der c) pk \<longleftrightarrow> pk = key_public X ik))"

text \<open>
  \<open>rustls\<close> as a server with one trust anchor: a client without certificates is refused when there is
  a verifier and let in when there is none; a client with one certificate (whose key it holds) is
  let in when the certificate chains to the anchor. The configuration presents the chain it was given.
\<close>

definition server_laws :: "('ct, 'roots, 'ver, 'scfg) rustls_server \<Rightarrow> ('ck, 'ct) x509 \<Rightarrow> bool" where
  "server_laws S X \<longleftrightarrow>
     (\<forall>a roots ver chain k cfg. sv_roots_add S a (sv_roots_empty S) = Inr roots \<and> sv_verifier S roots = Inr ver \<and>
        sv_single_cert S (Some ver) chain k = Inr cfg \<longrightarrow>
        \<not> sv_admits S cfg [] \<and> (\<forall>leaf. sv_admits S cfg [leaf] \<longleftrightarrow> chains X ClientAuth a leaf)) \<and>
     (\<forall>chain k cfg. sv_single_cert S None chain k = Inr cfg \<longrightarrow> sv_admits S cfg []) \<and>
     (\<forall>ver chain k cfg. sv_single_cert S ver chain k = Inr cfg \<longrightarrow> sv_presents S cfg = chain)"

text \<open>
  \<open>rustls\<close> as a client (\<open>Wallet_Client\<close>): a generated certificate reads back from its PEM, and with one
  trust anchor a server for \<open>host\<close> is trusted when its certificate chains to the anchor and has the host
  among its names, and only when it chains to the anchor (it may also match the host in other ways, by
  a wildcard or in another case).
\<close>

definition client_laws :: "('ck, 'ct) rcgen \<Rightarrow> ('ct, 'pkey, 'roots, 'cfg) rustls
    \<Rightarrow> ('roots \<Rightarrow> string \<Rightarrow> 'ct list \<Rightarrow> bool) \<Rightarrow> ('ck, 'ct) x509 \<Rightarrow> bool" where
  "client_laws G T trusts X \<longleftrightarrow>
     (\<forall>c. pem_certs T (cert_to_pem G c) = [Inr (ct_der c)]) \<and>
     (\<forall>a roots host leaf. roots_add T a (roots_empty T) = Inr roots \<longrightarrow>
        (chains X ServerAuth a leaf \<and> host \<in> set (x_names X leaf) \<longrightarrow> trusts roots host [leaf]) \<and>
        (trusts roots host [leaf] \<longrightarrow> chains X ServerAuth a leaf))"

section \<open>Authorities\<close>

text \<open>What every loaded authority satisfies.\<close>

definition authority_ok :: "('ck, 'ct) x509 \<Rightarrow> ('ck, 'ct) CertAuthority \<Rightarrow> bool" where
  "authority_ok X ca \<longleftrightarrow>
     x_subject X (ca_cert_der ca) = single_cn CA_COMMON_NAME \<and>
     cp_distinguished_name (ct_params (ca_cert ca)) = single_cn CA_COMMON_NAME \<and>
     x_public_key X (ca_cert_der ca) = key_public X (ca_key ca) \<and>
     x_issuer X (server_cert_der ca) = single_cn CA_COMMON_NAME \<and>
     x_valid_now X (server_cert_der ca) \<and> \<not> x_is_ca X (server_cert_der ca) \<and>
     x_purposes X (server_cert_der ca) = [ServerAuth] \<and>
     x_names X (server_cert_der ca) = [''localhost'', ''127.0.0.1''] \<and>
     (\<forall>pk. x_verifies X (server_cert_der ca) pk \<longleftrightarrow> pk = key_public X (ca_key ca))"

text \<open>The key file is there and holds this key.\<close>

definition holds_ca_key :: "('ck, 'ct) rcgen \<Rightarrow> 'f fs \<Rightarrow> string \<Rightarrow> 'f \<Rightarrow> 'ck \<Rightarrow> bool" where
  "holds_ca_key G F dir f k \<longleftrightarrow> fs_exists F (ca_key_path dir) f \<and> load_ca_key G F (ca_key_path dir) f = Inr k"

lemma holds_ca_key_cong: "file_at F (ca_key_path dir) f' = file_at F (ca_key_path dir) f \<Longrightarrow>
    holds_ca_key G F dir f' k = holds_ca_key G F dir f k"
  by (auto simp: holds_ca_key_def load_ca_key_def file_at_def)

lemma ca_paths [simp]:
  "ca_key_path dir \<noteq> ca_cert_path dir" "ca_key_path dir \<noteq> ca_tmp_path dir pid"
  "pem_file dir d \<noteq> ca_cert_path dir" "pem_file dir d \<noteq> ca_tmp_path dir pid"
  by (simp_all add: CA_KEY_FILE_def CA_CERT_FILE_def key_path_def)

lemma ca_key_load_or_create_Inr:
  assumes "fs_laws F" and "rcgen_laws G X" and "ca_key_load_or_create G F r (ca_key_path dir) f = (Inr k, f')"
  shows "holds_ca_key G F dir f' k"
proof (cases "fs_exists F (ca_key_path dir) f")
  case True
  with assms(3) show ?thesis by (auto simp: ca_key_load_or_create_def holds_ca_key_def)
next
  case False
  with assms(3) have w: "fs_write F (ca_key_path dir) (key_serialize_pem G k) f = (Inr (), f')"
    by (auto simp: ca_key_load_or_create_def create_ca_key_def bind_op_Inr map_err_op_eq)
  have "key_from_pem_text G (key_serialize_pem G k) = Inr k" using assms(2) by (simp add: rcgen_laws_def)
  with fs_written [OF assms(1) w] show ?thesis
    by (simp add: holds_ca_key_def load_ca_key_def file_at_def)
qed

text \<open>A start leaves an existing key file alone, whether or not it succeeds.\<close>

lemma keeps_file:
  assumes "fs_laws F"
  shows "fst v \<or> \<not> prefix q d \<Longrightarrow> keeps (\<lambda>f. file_at F q f = v) (fs_create_dir_all F d)"
    and "q \<noteq> p \<Longrightarrow> keeps (\<lambda>f. file_at F q f = v) (fs_write F p t)"
    and "q \<noteq> p \<Longrightarrow> q \<noteq> p' \<Longrightarrow> keeps (\<lambda>f. file_at F q f = v) (fs_rename F p p')"
proof -
  assume "fst v \<or> \<not> prefix q d"
  then show "keeps (\<lambda>f. file_at F q f = v) (fs_create_dir_all F d)"
    using fs_dir_frame [OF assms, of d _ _ _ q] by (fastforce intro!: keepsI simp: file_at_def)
qed (auto intro!: keepsI dest: fs_write_frame [OF assms] fs_rename_frame [OF assms])

lemma keeps_ca_key:
  assumes "fs_laws F"
  shows "keeps (\<lambda>f. file_at F q f = (True, v)) (ca_key_load_or_create G F r p)"
proof (rule keepsI)
  fix f x f'
  assume q: "file_at F q f = (True, v)" and run: "ca_key_load_or_create G F r p f = (x, f')"
  show "file_at F q f' = (True, v)"
  proof (cases "fs_exists F p f")
    case False
    then have "q \<noteq> p" using q by (auto simp: file_at_def)
    then have "keeps (\<lambda>f. file_at F q f = (True, v)) (create_ca_key G F r p)"
      unfolding create_ca_key_def
      by (intro keeps_bind keeps_map_err_op keeps_of_result keeps_ret keeps_file [OF assms])
    then show ?thesis using q by (rule keepsD) (use False run in \<open>simp add: ca_key_load_or_create_def\<close>)
  qed (use q run in \<open>simp add: ca_key_load_or_create_def\<close>)
qed

lemma ca_load_or_create_file:
  assumes "fs_laws F" and "ca_load_or_create G F rng pid dir f = (x, f')" and "fs_exists F q f"
    and "q \<noteq> ca_tmp_path dir pid" and "q \<noteq> ca_cert_path dir"
  shows "file_at F q f' = file_at F q f"
proof -
  let ?v = "fs_read_to_string F q f"
  have "keeps (\<lambda>f. file_at F q f = (True, ?v)) (ca_load_or_create G F rng pid dir)"
    unfolding ca_load_or_create_def
    by (intro keeps_bind keeps_map_err_op keeps_of_result keeps_ret keeps_file [OF assms(1)] keeps_ca_key [OF assms(1)]
        assms(4,5)) simp
  moreover have "file_at F q f = (True, ?v)" using assms(3) by (simp add: file_at_def)
  ultimately have "file_at F q f' = (True, ?v)" using assms(2) by (rule keepsD)
  then show ?thesis using assms(3) by (simp add: file_at_def)
qed

text \<open>A successful start: the authority it returns and the files it leaves.\<close>

lemma ca_params_Inr: "ca_params G = Inr p \<Longrightarrow> cp_distinguished_name p = single_cn CA_COMMON_NAME"
  by (auto simp: ca_params_def bind_result_Inr)

lemma leaf_params_Inr:
  assumes "rcgen_laws G X"
  shows "server_params G = Inr p \<Longrightarrow> cp_names p = [''localhost'', ''127.0.0.1''] \<and> \<not> cp_is_ca p \<and>
      cp_extended_key_usages p = [ServerAuth]"
    and "client_params G a = Inr p \<Longrightarrow> \<not> cp_is_ca p \<and> cp_extended_key_usages p = [ClientAuth]"
  using assms by (auto simp: server_params_def client_params_def bind_result_Inr rcgen_laws_def)

lemma self_signed_Inr:
  assumes "rcgen_laws G X" and "self_signed G r p k = Inr c"
  shows "ct_params c = p \<and> x_subject X (ct_der c) = cp_distinguished_name p \<and>
    x_public_key X (ct_der c) = key_public X k"
  using assms by (auto simp: rcgen_laws_def)

lemma signed_by_Inr:
  assumes "rcgen_laws G X" and "signed_by G r p k ic ik = Inr c"
  shows "x_issuer X (ct_der c) = cp_distinguished_name (ct_params ic) \<and> x_names X (ct_der c) = cp_names p \<and>
    x_purposes X (ct_der c) = cp_extended_key_usages p \<and> x_is_ca X (ct_der c) = cp_is_ca p \<and>
    x_valid_now X (ct_der c) \<and> (\<forall>pk. x_verifies X (ct_der c) pk \<longleftrightarrow> pk = key_public X ik)"
  using assms(1) unfolding rcgen_laws_def using assms(2) by blast

lemma ca_load_or_create_Inr:
  assumes "fs_laws F" and "rcgen_laws G X" and "ca_load_or_create G F rng pid dir f = (Inr ca, f')"
  shows "authority_ok X ca \<and> holds_ca_key G F dir f' (ca_key ca) \<and>
    fs_read_to_string F (ca_cert_path dir) f' = Inr (authority_cert_pem G ca)"
proof -
  from assms(3) obtain f0 f1 f2 key p cert skey sp scert where
    key: "ca_key_load_or_create G F (rng 0) (ca_key_path dir) f0 = (Inr key, f1)" and
    p: "ca_params G = Inr p" "self_signed G (rng 1) p key = Inr cert" and
    w: "fs_write F (ca_tmp_path dir pid) (cert_to_pem G cert) f1 = (Inr (), f2)" and
    m: "fs_rename F (ca_tmp_path dir pid) (ca_cert_path dir) f2 = (Inr (), f')" and
    s: "server_params G = Inr sp" "signed_by G (rng 3) sp skey cert key = Inr scert" and
    ca: "ca = \<lparr>ca_key = key, ca_cert = cert, server_cert_der = ct_der scert,
            server_key_der = key_serialize_der G skey\<rparr>"
    by (auto simp: ca_load_or_create_def bind_op_Inr map_err_op_eq)
  have ok: "authority_ok X ca"
    using self_signed_Inr [OF assms(2) p(2)] ca_params_Inr [OF p(1)] signed_by_Inr [OF assms(2) s(2)]
      leaf_params_Inr(1) [OF assms(2) s(1)] by (simp add: authority_ok_def ca ca_cert_der_def)
  have "file_at F (ca_key_path dir) f' = file_at F (ca_key_path dir) f1"
    using fs_write_frame [OF assms(1) w ca_paths(2)] fs_rename_frame [OF assms(1) m ca_paths(2) ca_paths(1)] by simp
  then have "holds_ca_key G F dir f' key = holds_ca_key G F dir f1 key" by (rule holds_ca_key_cong)
  with ca_key_load_or_create_Inr [OF assms(1,2) key] have held: "holds_ca_key G F dir f' key" by simp
  have "fs_read_to_string F (ca_cert_path dir) f' = Inr (cert_to_pem G cert)"
    using fs_renamed [OF assms(1) m] fs_written [OF assms(1) w] by (simp add: file_at_def)
  with ok held show ?thesis by (simp add: ca authority_cert_pem_def)
qed

lemma ca_load_or_create_again:
  assumes "fs_laws F" and "holds_ca_key G F dir f k" and "ca_load_or_create G F rng pid dir f = (Inr ca, f')"
  shows "ca_key ca = k"
proof -
  from assms(3) obtain f0 f1 key where d: "fs_create_dir_all F dir f = (Inr (), f0)"
    and key: "ca_key_load_or_create G F (rng 0) (ca_key_path dir) f0 = (Inr key, f1)" "ca_key ca = key"
    by (auto simp: ca_load_or_create_def bind_op_Inr map_err_op_eq)
  have "holds_ca_key G F dir f0 k = holds_ca_key G F dir f k" by (rule holds_ca_key_cong [OF fs_dir_frame [OF assms(1) d]]) (auto dest: prefix_length_le)
  with assms(2) have "holds_ca_key G F dir f0 k" by simp
  with key show ?thesis by (simp add: ca_key_load_or_create_def holds_ca_key_def)
qed

section \<open>Starts on one key directory\<close>

text \<open>
  What starts of the bank do in its key directory, whether or not they succeed: load or create
  denomination keys, and load or create the authority.
\<close>

inductive key_dir_step ::
  "('sk, 'pk, 'br) brsa \<Rightarrow> ('ck, 'ct) rcgen \<Rightarrow> 'f fs \<Rightarrow> string \<Rightarrow> 'f \<Rightarrow> 'f \<Rightarrow> bool" for R G F dir where
  dir_keys: "load_or_create R F rng dir denoms f = (r, f') \<Longrightarrow> key_dir_step R G F dir f f'"
| dir_authority: "ca_load_or_create G F rng pid dir f = (x, f') \<Longrightarrow> key_dir_step R G F dir f f'"

text \<open>The key files survive every start, as soon as they exist.\<close>

lemma key_dir_step_file:
  assumes "fs_laws F" and "key_dir_step R G F dir f f'" and "fs_exists F q f"
    and "q \<in> insert (ca_key_path dir) (range (pem_file dir))"
  shows "file_at F q f' = file_at F q f"
  using assms(2)
proof (cases rule: key_dir_step.cases)
  case (dir_authority rng pid x)
  have "q \<noteq> ca_tmp_path dir pid \<and> q \<noteq> ca_cert_path dir"
    using assms(4) by (elim insertE rangeE) (hypsubst, intro conjI ca_paths)+
  with ca_load_or_create_file [OF assms(1) dir_authority assms(3)] show ?thesis by blast
qed (rule load_or_create_file [OF assms(1) _ assms(3)])

lemma key_dir_steps_file:
  assumes "steps (key_dir_step R G F dir) f f'" and "fs_laws F" and "fs_exists F q f"
    and "q \<in> insert (ca_key_path dir) (range (pem_file dir))"
  shows "file_at F q f' = file_at F q f"
  using assms(1,3)
proof (induction rule: steps.induct)
  case (steps_step s t u)
  then have "fs_exists F q t" by (simp add: file_at_def)
  with key_dir_step_file [OF assms(2) steps_step(2) _ assms(4)] steps_step show ?case by simp
qed simp

lemma key_dir_steps_holds:
  assumes "steps (key_dir_step R G F dir) f f'" and "fs_laws F" and "holds_ca_key G F dir f k"
  shows "holds_ca_key G F dir f' k"
proof -
  have "fs_exists F (ca_key_path dir) f" using assms(3) by (simp add: holds_ca_key_def)
  from holds_ca_key_cong [OF key_dir_steps_file [OF assms(1,2) this], of G k] assms(3) show ?thesis by simp
qed

lemma key_dir_steps_loads:
  assumes "steps (key_dir_step R G F dir) f f'" and "fs_laws F" and "loads R F dir f d kp"
  shows "loads R F dir f' d kp"
proof -
  have "fs_exists F (pem_file dir d) f" using assms(3) by (simp add: loads_def)
  from loads_cong [OF key_dir_steps_file [OF assms(1,2) this], of R kp] assms(3) show ?thesis by simp
qed

text \<open>The authority of a later start has the same key.\<close>

lemma same_authority_key:
  assumes "fs_laws F" and "rcgen_laws G X" and "ca_load_or_create G F rng pid dir f = (Inr ca, f1)"
    and "steps (key_dir_step R G F dir) f1 f2" and "ca_load_or_create G F rng' pid' dir f2 = (Inr ca', f3)"
  shows "ca_key ca' = ca_key ca"
proof -
  have "holds_ca_key G F dir f1 (ca_key ca)" using ca_load_or_create_Inr [OF assms(1-3)] by blast
  from ca_load_or_create_again [OF assms(1) key_dir_steps_holds [OF assms(4,1) this] assms(5)] show ?thesis .
qed

section \<open>Handshakes\<close>

lemma server_config_Inr:
  assumes "server_laws S X" and "server_config S ca = Inr cfg"
  shows "\<not> sv_admits S cfg [] \<and> (\<forall>leaf. sv_admits S cfg [leaf] \<longleftrightarrow> chains X ClientAuth (ca_cert_der ca) leaf) \<and>
    sv_presents S cfg = [server_cert_der ca]"
proof -
  from assms(2) obtain roots ver where "sv_roots_add S (ca_cert_der ca) (sv_roots_empty S) = Inr roots"
    "sv_verifier S roots = Inr ver" "sv_single_cert S (Some ver) [server_cert_der ca] (server_key_der ca) = Inr cfg"
    by (auto simp: server_config_def bind_result_Inr)
  with assms(1) show ?thesis unfolding server_laws_def by blast
qed

lemma enrollment_config_Inr:
  assumes "server_laws S X" and "enrollment_server_config S ca = Inr cfg"
  shows "sv_admits S cfg [] \<and> sv_presents S cfg = [server_cert_der ca]"
proof -
  from assms(2) have "sv_single_cert S None [server_cert_der ca] (server_key_der ca) = Inr cfg"
    by (auto simp: enrollment_server_config_def bind_result_Inr)
  with assms(1) show ?thesis unfolding server_laws_def by blast
qed

lemma issued_chains:
  assumes "rcgen_laws G X" and "authority_ok X ca" and "authority_ok X ca'"
    and "issue_client_identity G rng ca a = Inr i"
  shows "chains X ClientAuth (ca_cert_der ca') (cert_der i) \<longleftrightarrow> key_public X (ca_key ca') = key_public X (ca_key ca)"
proof -
  from assms(4) obtain key p cert where p: "client_params G a = Inr p"
    and c: "signed_by G (rng 1) p key (ca_cert ca) (ca_key ca) = Inr cert" and i: "cert_der i = ct_der cert"
    by (auto simp: issue_client_identity_def bind_result_Inr)
  from signed_by_Inr [OF assms(1) c] leaf_params_Inr(2) [OF assms(1) p] assms(2,3) show ?thesis
    by (auto simp: chains_def authority_ok_def i)
qed

lemma server_chains:
  assumes "authority_ok X ca" and "authority_ok X ca'" and "ca_key ca' = ca_key ca"
  shows "chains X ServerAuth (ca_cert_der ca) (server_cert_der ca')"
  using assms by (simp add: chains_def authority_ok_def)

text \<open>
  C18: who gets through to the value port. Take any two successful starts of an authority, in any
  directories, and the mutual-TLS configuration of the second. A client without a certificate is
  refused; a client with a certificate the first authority issued is admitted exactly if the two
  authorities have the same key, so certificates of another authority are refused.
\<close>

theorem client_admitted_iff:
  assumes "fs_laws F" and "rcgen_laws G X" and "server_laws S X"
    and "ca_load_or_create G F rng pid dir f = (Inr ca, f1)"
    and "ca_load_or_create G F rng' pid' dir' f' = (Inr ca', f1')"
    and "server_config S ca' = Inr cfg" and "issue_client_identity G draws ca account_id = Inr i"
  shows "\<not> sv_admits S cfg [] \<and>
    (sv_admits S cfg [cert_der i] \<longleftrightarrow> key_public X (ca_key ca') = key_public X (ca_key ca))"
proof -
  have "authority_ok X ca" "authority_ok X ca'"
    using ca_load_or_create_Inr [OF assms(1,2,4)] ca_load_or_create_Inr [OF assms(1,2,5)] by blast+
  from issued_chains [OF assms(2) this assms(7)] server_config_Inr [OF assms(3,6)] show ?thesis by blast
qed

section \<open>Enrolment and restarts\<close>

lemma register_account_issued:
  assumes "register_account H D (handle_of G draws ca) req s = (Inr resp, s')"
  shows "\<exists>i. issue_client_identity G draws ca (reg_account_id req) = Inr i \<and> client_cert_pem resp = cert_pem i \<and>
    ca_cert_pem resp = authority_cert_pem G ca"
  using assms
  by (auto simp: register_account_def handle_of_def bind_op_Inr map_err_op_eq bind_result_Inr split: if_splits)

lemma certs_of_issued:
  assumes "client_laws G T trusts X" and "issue_client_identity G draws ca a = Inr i"
  shows "certs_from_pem T (cert_pem i) = Inr [cert_der i]"
proof -
  from assms(2) obtain cert where "cert_pem i = cert_to_pem G cert" "cert_der i = ct_der cert"
    by (auto simp: issue_client_identity_def bind_result_Inr)
  with assms(1) show ?thesis by (simp add: client_laws_def certs_from_pem_def)
qed

lemma roots_of_authority:
  assumes "client_laws G T trusts X" and "roots_from_pem T (authority_cert_pem G ca) = Inr roots"
  shows "chains X ServerAuth (ca_cert_der ca) leaf \<Longrightarrow> host \<in> set (x_names X leaf) \<Longrightarrow> trusts roots host [leaf]"
proof -
  have "roots_add T (ca_cert_der ca) (roots_empty T) = Inr roots"
    using assms by (auto simp: client_laws_def roots_from_pem_def authority_cert_pem_def ca_cert_der_def bind_result_Inr)
  with assms(1) show "chains X ServerAuth (ca_cert_der ca) leaf \<Longrightarrow> host \<in> set (x_names X leaf) \<Longrightarrow> trusts roots host [leaf]"
    unfolding client_laws_def by blast
qed

text \<open>
  C17: mutual TLS outlives the bank process. A wallet pins the certificate file one start of the bank
  published and enrols with that bank. Then after any number of further starts on the key directory,
  failed ones included, both ports of the last one present a server certificate the wallet trusts
  under either local host name; the enrolment port admits a client without a certificate, and the
  value port admits the wallet with the certificate from its enrolment.
\<close>

theorem mutual_tls_survives_restart:
  assumes "fs_laws F" and "rcgen_laws G X" and "server_laws S X" and "client_laws G T trusts X"
    and "ca_load_or_create G F rng pid dir f = (Inr ca, f1)"
    and "fs_read_to_string F (ca_cert_path dir) f1 = Inr pinned" and "roots_from_pem T pinned = Inr roots"
    and "register_account H D (handle_of G draws ca) req s = (Inr resp, s')"
    and "steps (key_dir_step R G F dir) f1 f2" and "ca_load_or_create G F rng' pid' dir f2 = (Inr ca', f3)"
    and "server_config S ca' = Inr cfg" and "enrollment_server_config S ca' = Inr ecfg"
    and "host = ''localhost'' \<or> host = ''127.0.0.1''"
  shows "trusts roots host (sv_presents S cfg) \<and> trusts roots host (sv_presents S ecfg) \<and> sv_admits S ecfg [] \<and>
    (\<exists>certs. certs_from_pem T (client_cert_pem resp) = Inr certs \<and> sv_admits S cfg certs)"
proof -
  have ok: "authority_ok X ca" "authority_ok X ca'" and pin: "pinned = authority_cert_pem G ca"
    using ca_load_or_create_Inr [OF assms(1,2,5)] ca_load_or_create_Inr [OF assms(1,2,10)] assms(6) by auto
  have key: "ca_key ca' = ca_key ca" by (rule same_authority_key [OF assms(1,2,5,9,10)])
  have "host \<in> set (x_names X (server_cert_der ca'))" using ok(2) assms(13) by (auto simp: authority_ok_def)
  with roots_of_authority [OF assms(4) assms(7) [unfolded pin]] server_chains [OF ok key]
  have trust: "trusts roots host [server_cert_der ca']" by blast
  obtain i where i: "issue_client_identity G draws ca (reg_account_id req) = Inr i" "client_cert_pem resp = cert_pem i"
    using register_account_issued [OF assms(8)] by blast
  have "chains X ClientAuth (ca_cert_der ca') (cert_der i)" using issued_chains [OF assms(2) ok i(1)] key by simp
  then have "sv_admits S cfg [cert_der i]" using server_config_Inr [OF assms(3,11)] by blast
  then show ?thesis
    using trust server_config_Inr [OF assms(3,11)] enrollment_config_Inr [OF assms(3,12)] certs_of_issued [OF assms(4) i(1)] i(2)
    by simp
qed

section \<open>Instances\<close>

text \<open>
  Keys and certificates as texts: a certificate is a letter for its kind and the key that signed it.
  The generator makes the three kinds of certificates of the bank and no others.
\<close>

definition demo_rcgen :: "(string, string) rcgen" where
  "demo_rcgen = \<lparr>key_generate = (\<lambda>n. Inr (nat_to_dec n)), key_from_pem_text = Inr, key_serialize_pem = (\<lambda>k. k),
     key_serialize_der = str_bytes,
     params_new = (\<lambda>ns. Inr \<lparr>cp_names = ns, cp_is_ca = False, cp_distinguished_name = [], cp_key_usages = [],
       cp_extended_key_usages = [], cp_authority_key_identifier = False\<rparr>),
     self_signed = (\<lambda>r p k. if cp_distinguished_name p = single_cn CA_COMMON_NAME
       then Inr \<lparr>ct_params = p, ct_der = CHR ''A'' # k\<rparr> else Inl ''unsupported''),
     signed_by = (\<lambda>r p k ic ik.
       if cp_distinguished_name (ct_params ic) \<noteq> single_cn CA_COMMON_NAME \<or> cp_is_ca p then Inl ''unsupported''
       else if cp_names p = [] \<and> cp_extended_key_usages p = [ClientAuth] then Inr \<lparr>ct_params = p, ct_der = CHR ''C'' # ik\<rparr>
       else if cp_names p = [''localhost'', ''127.0.0.1''] \<and> cp_extended_key_usages p = [ServerAuth]
       then Inr \<lparr>ct_params = p, ct_der = CHR ''S'' # ik\<rparr> else Inl ''unsupported''),
     cert_to_pem = ct_der\<rparr>"

definition demo_x509 :: "(string, string) x509" where
  "demo_x509 = \<lparr>x_subject = (\<lambda>_. single_cn CA_COMMON_NAME), x_issuer = (\<lambda>_. single_cn CA_COMMON_NAME),
     x_names = (\<lambda>c. if hd c = CHR ''S'' then [''localhost'', ''127.0.0.1''] else []),
     x_purposes = (\<lambda>c. if hd c = CHR ''S'' then [ServerAuth] else [ClientAuth]),
     x_is_ca = (\<lambda>c. hd c = CHR ''A''), x_valid_now = (\<lambda>_. True), x_public_key = (\<lambda>c. str_bytes (tl c)),
     x_verifies = (\<lambda>c pk. pk = str_bytes (tl c)), key_public = str_bytes\<rparr>"

definition demo_server :: "(string, string list, string list, string list option \<times> string list) rustls_server" where
  "demo_server = \<lparr>sv_roots_empty = [], sv_roots_add = (\<lambda>c roots. Inr (c # roots)), sv_verifier = Inr,
     sv_versions = Inr (), sv_single_cert = (\<lambda>v chain k. Inr (v, chain)), sv_presents = snd,
     sv_admits = (\<lambda>cfg certs. case fst cfg of None \<Rightarrow> True
       | Some roots \<Rightarrow> certs \<noteq> [] \<and> list_ex (\<lambda>a. chains demo_x509 ClientAuth a (hd certs)) roots)\<rparr>"

definition demo_client_tls :: "(string, string, string list, string list) rustls" where
  "demo_client_tls = \<lparr>pem_certs = (\<lambda>p. [Inr p]), pem_private_key = (\<lambda>p. Inr (Some p)), roots_empty = [],
     roots_add = (\<lambda>c roots. Inr (c # roots)), tls_versions = Inr (), tls_no_client_auth = (\<lambda>roots. roots),
     tls_client_auth = (\<lambda>roots certs key. Inr roots)\<rparr>"

definition demo_trusts :: "string list \<Rightarrow> string \<Rightarrow> string list \<Rightarrow> bool" where
  "demo_trusts roots host chain \<longleftrightarrow>
     list_ex (\<lambda>a. chains demo_x509 ServerAuth a (hd chain) \<and> host \<in> set (x_names demo_x509 (hd chain))) roots"

lemma rcgen_laws_demo: "rcgen_laws demo_rcgen demo_x509"
  by (auto simp: rcgen_laws_def demo_rcgen_def demo_x509_def split: if_splits)

lemma server_laws_demo: "server_laws demo_server demo_x509"
  by (auto simp: server_laws_def demo_server_def)

lemma client_laws_demo: "client_laws demo_rcgen demo_client_tls demo_trusts demo_x509"
  by (auto simp: client_laws_def demo_rcgen_def demo_client_tls_def demo_trusts_def)

definition demo_ca_at :: "string \<Rightarrow> bytes \<Rightarrow> (string, string) CertAuthority" where
  "demo_ca_at k sk = \<lparr>ca_key = k,
     ca_cert = \<lparr>ct_params = \<lparr>cp_names = [], cp_is_ca = True, cp_distinguished_name = single_cn CA_COMMON_NAME,
         cp_key_usages = [KeyCertSign, CrlSign], cp_extended_key_usages = [], cp_authority_key_identifier = False\<rparr>,
       ct_der = CHR ''A'' # k\<rparr>,
     server_cert_der = CHR ''S'' # k, server_key_der = sk\<rparr>"

definition demo_key_dir :: "(string, string) table" where
  "demo_key_dir = [(''keys/ca-cert.pem'', ''A7''), (''keys/ca-key.pem'', ''7'')]"

lemma demo_ca_starts:
  "ca_load_or_create demo_rcgen demo_fs (\<lambda>n. 7 + n) 42 ''keys'' [] = (Inr (demo_ca_at ''7'' [57]), demo_key_dir)"
  "ca_load_or_create demo_rcgen demo_fs (\<lambda>n. 3 + n) 43 ''keys'' demo_key_dir =
     (Inr (demo_ca_at ''7'' [53]), [(''keys/ca-cert.pem'', ''A7''), (''keys/ca-cert.pem'', ''A7''), (''keys/ca-key.pem'', ''7'')])"
  "ca_load_or_create demo_rcgen demo_fs (\<lambda>n. 5 + n) 44 ''other'' [] =
     (Inr (demo_ca_at ''5'' [55]), [(''other/ca-cert.pem'', ''A5''), (''other/ca-key.pem'', ''5'')])"
  by code_simp+

lemma demo_configs:
  "server_config demo_server (demo_ca_at k sk) = Inr (Some [CHR ''A'' # k], [CHR ''S'' # k])"
  "enrollment_server_config demo_server (demo_ca_at k sk) = Inr (None, [CHR ''S'' # k])"
  by (simp_all add: server_config_def enrollment_server_config_def demo_server_def demo_ca_at_def ca_cert_der_def)

lemma demo_issue:
  "issue_client_identity demo_rcgen (\<lambda>n. n) (demo_ca_at k sk) a =
     Inr \<lparr>cert_pem = CHR ''C'' # k, key_pem = ''0'', cert_der = CHR ''C'' # k, key_pkcs8_der = str_bytes ''0''\<rparr>"
proof -
  have "nat_to_dec 0 = ''0''" by code_simp
  then show ?thesis by (simp add: issue_client_identity_def client_params_def demo_rcgen_def demo_ca_at_def)
qed

theorem client_admitted_iff_witness:
  "sv_admits demo_server (Some [''A7''], [''S7'']) [''C7''] \<and> \<not> sv_admits demo_server (Some [''A7''], [''S7'']) [''C5''] \<and>
   \<not> sv_admits demo_server (Some [''A7''], [''S7'']) []"
proof -
  note iff = client_admitted_iff [OF fs_laws_demo rcgen_laws_demo server_laws_demo]
  from iff [OF demo_ca_starts(1,2) demo_configs(1) demo_issue]
  have 1: "\<not> sv_admits demo_server (Some [''A7''], [''S7'']) [] \<and> sv_admits demo_server (Some [''A7''], [''S7'']) [''C7'']"
    by (simp add: demo_ca_at_def)
  from iff [OF demo_ca_starts(3,1) demo_configs(1) demo_issue]
  have "\<not> sv_admits demo_server (Some [''A7''], [''S7'']) [''C5'']"
    by (simp add: demo_ca_at_def demo_x509_def)
  with 1 show ?thesis by blast
qed

theorem mutual_tls_survives_restart_witness:
  "demo_trusts [''A7''] ''localhost'' (sv_presents demo_server (Some [''A7''], [''S7''])) \<and>
   demo_trusts [''A7''] ''localhost'' (sv_presents demo_server (None, [''S7''])) \<and> sv_admits demo_server (None, [''S7'']) [] \<and>
   (\<exists>certs. certs_from_pem demo_client_tls ''C7'' = Inr certs \<and> sv_admits demo_server (Some [''A7''], [''S7'']) certs)"
proof -
  let ?ca = "demo_ca_at ''7'' [57]"
  have issue: "ca_issue (handle_of demo_rcgen (\<lambda>n. n) ?ca) ''bob'' = Inr (''C7'', ''0'')"
    by (simp add: handle_of_def demo_issue)
  have read: "fs_read_to_string demo_fs (ca_cert_path ''keys'') demo_key_dir = Inr ''A7''"
    by (simp add: demo_fs_def demo_key_dir_def CA_CERT_FILE_def)
  have roots: "roots_from_pem demo_client_tls ''A7'' = Inr [''A7'']"
    by (simp add: roots_from_pem_def demo_client_tls_def)
  have start: "steps (key_dir_step demo_brsa demo_rcgen demo_fs ''keys'') demo_key_dir
      (snd (load_or_create demo_brsa demo_fs (\<lambda>i. i) ''keys'' [] demo_key_dir))"
    by (rule steps_step [OF steps_refl], rule dir_keys [OF prod.collapse [symmetric]])
  have same: "snd (load_or_create demo_brsa demo_fs (\<lambda>i. i) ''keys'' [] demo_key_dir) = demo_key_dir"
    by (simp add: load_or_create_def demo_fs_def map_err_op_def)
  from mutual_tls_survives_restart [OF fs_laws_demo rcgen_laws_demo server_laws_demo client_laws_demo demo_ca_starts(1) read
      roots demo_enrols_with [OF issue] start [unfolded same] demo_ca_starts(2) demo_configs, of "''localhost''"]
  show ?thesis by simp
qed

end
