(* ===== verification/Bank_Main.thy ===== *)
theory Bank_Main
  imports Bank_Tls Registry_Client Wallet_Coins
begin

text \<open>
  The bank as a process (\<open>main.rs\<close>): start from the environment, the key directory and the database,
  and the two ports with their routers; with the parts of \<open>api.rs\<close> that are not behind the signing
  layer (the enrolment router, the plain router for local development, the rendering of errors).
  Binding sockets and the calls into the database crates are arguments.
\<close>

section \<open>Rendering errors (\<open>error.rs\<close>, \<open>api.rs\<close>)\<close>

text \<open>The texts of database errors come from the driver.\<close>

record driver_texts =
  pg_text :: "pg_error \<Rightarrow> string"
  pool_text :: string

fun bank_error_to_string :: "driver_texts \<Rightarrow> BankError \<Rightarrow> string" where
  "bank_error_to_string X (Db e) = ''database error: '' @ pg_text X e"
| "bank_error_to_string X Pool = ''database pool error: '' @ pool_text X"
| "bank_error_to_string X (PoolBuild e) = ''database pool build error: '' @ e"
| "bank_error_to_string X (Sqlx e) = ''migration connection error: '' @ e"
| "bank_error_to_string X (Migrate e) = ''migration error: '' @ e"
| "bank_error_to_string X (ValueRange e) = ''database value out of range: '' @ e"
| "bank_error_to_string X (Io e) = ''key directory I/O error: '' @ e"
| "bank_error_to_string X (CoreFailure e) = ''cryptographic error: '' @ core_error_to_string e"
| "bank_error_to_string X (Key denom scheme message) =
     ''denomination key error for denomination '' @ u64_to_string denom @ '' scheme '' @
     nat_to_dec (unat scheme) @ '': '' @ message"
| "bank_error_to_string X (MalformedBalance account_id found) =
     ''corrupt balance record for account '' @ account_id @ '': expected 8 bytes, found '' @ nat_to_dec found"
| "bank_error_to_string X (AccountExists a) = ''account '' @ a @ '' already exists''"
| "bank_error_to_string X (AccountNotFound a) = ''account '' @ a @ '' not found''"
| "bank_error_to_string X (InsufficientBalance account_id has requested) =
     ''account '' @ account_id @ '' has '' @ u64_to_string has @ '' cents, cannot withdraw '' @ u64_to_string requested"
| "bank_error_to_string X (NoKeyForDenomination d) = ''no key for denomination '' @ u64_to_string d @ '' scheme 0''"
| "bank_error_to_string X (MalformedRecord request_id message) =
     ''withdrawal record for '' @ request_id @ '' is corrupt: '' @ message"
| "bank_error_to_string X (WithdrawFailed request_id message) =
     ''withdrawal '' @ request_id @ '' failed and was rolled back: '' @ message"
| "bank_error_to_string X (WithdrawPreviouslyFailed r) =
     ''withdrawal '' @ r @ '' previously failed and was rolled back; use a new request_id''"
| "bank_error_to_string X (BalanceOverflow a) = ''balance overflow crediting account '' @ a"
| "bank_error_to_string X (CertGen e) = ''certificate error: '' @ e"
| "bank_error_to_string X (Tls e) = ''TLS configuration error: '' @ e"
| "bank_error_to_string X (ClientVerifier e) = ''client certificate verifier error: '' @ e"
| "bank_error_to_string X (MalformedIdentity account_id message) =
     ''corrupt identity key for account '' @ account_id @ '': '' @ message"
| "bank_error_to_string X (IdentityExists a) = ''account '' @ a @ '' already has a registered identity key''"
| "bank_error_to_string X (RegistryConfig e) = ''registry client configuration error: '' @ e"
| "bank_error_to_string X (RegistryHttp e) = ''registry request failed: '' @ e"

definition into_response :: "driver_texts \<Rightarrow> ApiError \<Rightarrow> int \<times> ErrorResponse" where
  "into_response X e =
     (ae_status e, \<lparr>error_text = (case ae_message e of Inl msg \<Rightarrow> msg | Inr b \<Rightarrow> bank_error_to_string X b)\<rparr>)"

definition rejection_into_response :: "driver_texts \<Rightarrow> BankError AuthRejection \<Rightarrow> int \<times> ErrorResponse" where
  "rejection_into_response X rj =
     (rj_status rj, \<lparr>error_text = (case rj_message rj of Inl msg \<Rightarrow> msg | Inr b \<Rightarrow> bank_error_to_string X b)\<rparr>)"

section \<open>Database setup (\<open>db.rs\<close>)\<close>

text \<open>
  What the code calls of tokio-postgres, deadpool and sqlx: parsing a connection string, building a
  pool of a given size, and a connection on which the embedded migrations run.
\<close>

record ('pgc, 'conn) db_crates =
  pg_config_from_str :: "string \<Rightarrow> string + 'pgc"
  pool_build :: "'pgc \<Rightarrow> nat \<Rightarrow> string + unit"
  sqlx_connect :: "string \<Rightarrow> string + 'conn"
  migrate_run :: "'conn \<Rightarrow> string + 'conn"
  sqlx_close :: "'conn \<Rightarrow> string + unit"

definition POOL_MAX_SIZE :: nat where "POOL_MAX_SIZE = 16"

definition create_pool :: "('pgc, 'conn) db_crates \<Rightarrow> string \<Rightarrow> BankError + unit" where
  "create_pool C database_url =
     bind_result (map_err (\<lambda>e. Db (Config_Error e)) (pg_config_from_str C database_url)) (\<lambda>config.
       map_err PoolBuild (pool_build C config POOL_MAX_SIZE))"

definition run_migrations :: "('pgc, 'conn) db_crates \<Rightarrow> string \<Rightarrow> BankError + unit" where
  "run_migrations C database_url =
     bind_result (map_err Sqlx (sqlx_connect C database_url)) (\<lambda>connection.
     bind_result (map_err Migrate (migrate_run C connection)) (\<lambda>connection'.
       map_err Sqlx (sqlx_close C connection')))"

section \<open>The other routers (\<open>api.rs\<close>)\<close>

definition create_account_handler :: "CreateAccountRequest \<Rightarrow> ('x bank_db_scheme, ApiError, BalanceResponse) op" where
  "create_account_handler req =
     map_err_op api_error_from (create_account (ca_account_id req) (initial_balance_cents req))"

definition get_balance :: "string \<Rightarrow> ('x bank_db_scheme, ApiError, BalanceResponse) op" where
  "get_balance account_id = balance_response account_id"

definition withdraw_handler ::
  "('sk, 'pk, 'br) brsa \<Rightarrow> ('sk, 'pk) KeyStore \<Rightarrow> WithdrawRequest \<Rightarrow> ('x bank_db_scheme, ApiError, WithdrawResponse) op" where
  "withdraw_handler R keys req = map_err_op api_error_from (withdraw R keys req)"

definition deposit_handler ::
  "('sk, 'pk, 'br) brsa \<Rightarrow> ('sk, 'pk) KeyStore \<Rightarrow> 'x bank_db_scheme submit option \<Rightarrow> u64 \<Rightarrow> DepositRequest
   \<Rightarrow> ('x bank_db_scheme, ApiError, DepositResponse) op" where
  "deposit_handler R keys rc now req = map_err_op api_error_from (deposit R keys rc now req)"

text \<open>The plain router: the routes of the value router without authentication.\<close>

definition router ::
  "extractors \<Rightarrow> ('sk, 'pk, 'br) brsa \<Rightarrow> ('sk, 'pk) KeyStore \<Rightarrow> 'x bank_db_scheme submit option \<Rightarrow> u64
   \<Rightarrow> http_request \<Rightarrow> ('x bank_db_scheme, bank_failure, bank_reply) op" where
  "router X R keys rc now rq =
     (if rq_path rq = ''/accounts'' then
        if rq_method rq = ''POST'' then handle_json BalanceReply (ex_create X rq) create_account_handler
        else fail (Unrouted 405)
      else if rq_path rq = ''/withdraw'' then
        if rq_method rq = ''POST'' then handle_json WithdrawReply (ex_withdraw X rq) (withdraw_handler R keys)
        else fail (Unrouted 405)
      else if rq_path rq = ''/deposit'' then
        if rq_method rq = ''POST'' then handle_json DepositReply (ex_deposit X rq) (deposit_handler R keys rc now)
        else fail (Unrouted 405)
      else if rq_path rq = ''/denominations'' then
        if is_get (rq_method rq)
        then of_result (map_err Failed (bind_result (denominations_handler R keys) (\<lambda>d. Inr (DenominationsReply d))))
        else fail (Unrouted 405)
      else (case ex_balance_path X (rq_path rq) of
          Some account_id \<Rightarrow>
            if is_get (rq_method rq) then handle_json BalanceReply (Inr account_id) get_balance
            else fail (Unrouted 405)
        | None \<Rightarrow> fail (Unrouted 404)))"

definition enrollment_router ::
  "(http_request \<Rightarrow> int + RegisterRequest) \<Rightarrow> digests \<Rightarrow> ('sgk, 'vk) ed25519 \<Rightarrow> ca_handle \<Rightarrow> http_request
   \<Rightarrow> ('x bank_db_scheme, bank_failure, RegisterResponse) op" where
  "enrollment_router extract H D ca rq =
     (if rq_path rq = ''/register'' then
        if rq_method rq = ''POST'' then
          bind_op (of_result (map_err Unextracted (extract rq))) (\<lambda>req. map_err_op Failed (register_account H D ca req))
        else fail (Unrouted 405)
      else fail (Unrouted 404))"

section \<open>The process (\<open>main.rs\<close>)\<close>

text \<open>The machine the bank runs on: its files and its database.\<close>

record ('f, 's) host =
  h_files :: 'f
  h_db :: 's

definition on_files :: "('f, 'e, 'a) op \<Rightarrow> (('f, 's) host, 'e, 'a) op" where
  "on_files m h = (case m (h_files h) of (r, f) \<Rightarrow> (r, h\<lparr>h_files := f\<rparr>))"

definition on_db :: "('s, 'e, 'a) op \<Rightarrow> (('f, 's) host, 'e, 'a) op" where
  "on_db m h = (case m (h_db h) of (r, s) \<Rightarrow> (r, h\<lparr>h_db := s\<rparr>))"

text \<open>
  What the process calls: the crates, the environment variables, and the calls on a listening
  socket.
\<close>

record ('sk, 'pk, 'br, 'sgk, 'vk, 'f, 'ck, 'ct, 'sroots, 'ver, 'scfg, 'pkey, 'croots, 'cfg, 'pgc, 'conn, 'l) bank_env =
  be_brsa :: "('sk, 'pk, 'br) brsa"
  be_ed25519 :: "('sgk, 'vk) ed25519"
  be_digests :: digests
  be_fs :: "'f fs"
  be_rcgen :: "('ck, 'ct) rcgen"
  be_server :: "('ct, 'sroots, 'ver, 'scfg) rustls_server"
  be_tls :: "('ct, 'pkey, 'croots, 'cfg) rustls"
  be_var :: "string \<Rightarrow> string option"
  be_db :: "('pgc, 'conn) db_crates"
  be_bind :: "string \<Rightarrow> string + 'l"
  be_set_nonblocking :: "'l \<Rightarrow> string + unit"

text \<open>What differs between starts: random draws, the process id and the time.\<close>

record start =
  st_key_draws :: "nat \<Rightarrow> nat"
  st_ca_draws :: "nat \<Rightarrow> nat"
  st_pid :: "32 word"
  st_now :: u64

datatype main_error = MainText string | MainBank BankError | MainIo string

record ('sk, 'pk, 'sgk, 'ck, 'ct, 'scfg, 'cfg, 'l) bank_process =
  bp_keys :: "('sk, 'pk) KeyStore"
  bp_registry_client :: "('sgk, 'cfg) RegistryClient option"
  bp_ca :: "('ck, 'ct) CertAuthority"
  bp_api_config :: 'scfg
  bp_enroll_config :: 'scfg
  bp_api_listener :: 'l
  bp_enroll_listener :: 'l

text \<open>\<open>Bank::connect\<close> with its file accesses; the rest of it is \<open>connect\<close>.\<close>

definition bank_connect where
  "bank_connect E st database_url key_dir denoms =
     bind_op (of_result (run_migrations (be_db E) database_url)) (\<lambda>_.
     bind_op (of_result (create_pool (be_db E) database_url)) (\<lambda>_.
     bind_op (on_files (load_or_create (be_brsa E) (be_fs E) (st_key_draws st) key_dir denoms)) (\<lambda>keys.
     bind_op (on_files (\<lambda>f. (from_env (be_var E) (be_fs E) (be_tls E) (be_digests E) (be_ed25519 E) key_dir f, f))) (\<lambda>rc.
       on_db (connect (be_brsa E) (Inr ()) (Inr ()) (Inr keys) (Inr rc) (st_now st))))))"

definition var_or :: "(string \<Rightarrow> string option) \<Rightarrow> string \<Rightarrow> string \<Rightarrow> string" where
  "var_or env name fallback = (case env name of Some v \<Rightarrow> v | None \<Rightarrow> fallback)"

definition bound where
  "bound E addr =
     bind_result (be_bind E addr) (\<lambda>listener.
     bind_result (be_set_nonblocking E listener) (\<lambda>_. Inr listener))"

definition bank_key_dir where
  "bank_key_dir E = var_or (be_var E) ''DIGICASH_KEYS'' ''digicash-keys''"

text \<open>The start up to the point where both ports are served.\<close>

definition bank_main ::
  "('sk, 'pk, 'br, 'sgk, 'vk, 'f, 'ck, 'ct, 'sroots, 'ver, 'scfg, 'pkey, 'croots, 'cfg, 'pgc, 'conn, 'l) bank_env \<Rightarrow> start
   \<Rightarrow> (('f, 'x bank_db_scheme) host, main_error, ('sk, 'pk, 'sgk, 'ck, 'ct, 'scfg, 'cfg, 'l) bank_process) op" where
  "bank_main E st =
     bind_op (of_result (ok_or (MainText ''DATABASE_URL must be set to the bank's Postgres connection string'')
       (be_var E ''DATABASE_URL''))) (\<lambda>database_url.
     let key_dir = bank_key_dir E;
         api_addr = var_or (be_var E) ''DIGICASH_ADDR'' ''127.0.0.1:3000'';
         enroll_addr = var_or (be_var E) ''DIGICASH_ENROLL_ADDR'' ''127.0.0.1:3001'' in
     bind_op (map_err_op MainBank (bank_connect E st database_url key_dir DENOMINATIONS)) (\<lambda>(keys, rc).
     bind_op (map_err_op MainBank (on_files (ca_load_or_create (be_rcgen E) (be_fs E) (st_ca_draws st) (st_pid st) key_dir))) (\<lambda>ca.
     bind_op (of_result (map_err MainBank (server_config (be_server E) ca))) (\<lambda>api_config.
     bind_op (of_result (map_err MainBank (enrollment_server_config (be_server E) ca))) (\<lambda>enroll_config.
     bind_op (of_result (map_err MainIo (bound E api_addr))) (\<lambda>api_listener.
     bind_op (of_result (map_err MainIo (bound E enroll_addr))) (\<lambda>enroll_listener.
       ret \<lparr>bp_keys = keys, bp_registry_client = rc, bp_ca = ca, bp_api_config = api_config,
            bp_enroll_config = enroll_config, bp_api_listener = api_listener, bp_enroll_listener = enroll_listener\<rparr>)))))))"

section \<open>What a start does\<close>

lemma on_files_eq: "on_files m h = (r, h') \<longleftrightarrow> (\<exists>f. m (h_files h) = (r, f) \<and> h' = h\<lparr>h_files := f\<rparr>)"
  by (auto simp: on_files_def split: prod.splits)

lemma on_db_eq: "on_db m h = (r, h') \<longleftrightarrow> (\<exists>s. m (h_db h) = (r, s) \<and> h' = h\<lparr>h_db := s\<rparr>)"
  by (auto simp: on_db_def split: prod.splits)

lemma connect_keys: "connect R migrations pool (Inr keys) (Inr rc) now s = (Inr (ks, rc'), s') \<Longrightarrow> ks = keys \<and> rc' = rc"
  by (auto simp: connect_def bind_op_Inr)

text \<open>A successful start, as the accesses to the key directory.\<close>

lemma bank_main_Inr:
  assumes "bank_main E st h = (Inr p, h')"
  shows "\<exists>f1. load_or_create (be_brsa E) (be_fs E) (st_key_draws st) (bank_key_dir E) DENOMINATIONS (h_files h) = (Inr (bp_keys p), f1) \<and>
    ca_load_or_create (be_rcgen E) (be_fs E) (st_ca_draws st) (st_pid st) (bank_key_dir E) f1 = (Inr (bp_ca p), h_files h') \<and>
    server_config (be_server E) (bp_ca p) = Inr (bp_api_config p) \<and>
    enrollment_server_config (be_server E) (bp_ca p) = Inr (bp_enroll_config p)"
  using assms
  by (auto simp: bank_main_def bank_connect_def Let_def bind_op_Inr map_err_op_eq on_files_eq on_db_eq dest!: connect_keys)

text \<open>
  The database is set up before anything else: when the migrations or the pool fail, the start ends
  with that error and has touched neither the key directory nor a row.
\<close>

lemma bank_main_database_first:
  assumes "be_var E ''DATABASE_URL'' = Some url"
  shows "run_migrations (be_db E) url = Inl e \<Longrightarrow> bank_main E st h = (Inl (MainBank e), h)"
    and "run_migrations (be_db E) url = Inr () \<Longrightarrow> create_pool (be_db E) url = Inl e \<Longrightarrow> bank_main E st h = (Inl (MainBank e), h)"
  using assms by (simp_all add: bank_main_def bank_connect_def Let_def map_err_op_def)

text \<open>A start with any outcome: steps in the key directory, and books kept in the database.\<close>

definition start_effect where
  "start_effect E h0 h \<longleftrightarrow>
     steps (key_dir_step (be_brsa E) (be_rcgen E) (be_fs E) (bank_key_dir E)) (h_files h0) (h_files h) \<and>
     (bank_wf (h_db h0) \<longrightarrow> books_kept (h_db h0) (h_db h))"

lemma start_effect_refl: "start_effect E h h"
  by (simp add: start_effect_def steps_refl books_kept_def)

lemma keeps_start_files:
  assumes "\<And>f r f'. m f = (r, f') \<Longrightarrow> f' = f \<or> key_dir_step (be_brsa E) (be_rcgen E) (be_fs E) (bank_key_dir E) f f'"
  shows "keeps (start_effect E h0) (on_files m)"
proof (rule keepsI)
  fix h r h'
  assume "start_effect E h0 h" and "on_files m h = (r, h')"
  then show "start_effect E h0 h'" using assms by (fastforce simp: start_effect_def on_files_eq intro: steps_step)
qed

lemma keeps_start_db: "keeps (start_effect E h0) (on_db (connect R migrations pool loaded rc now))"
proof (rule keepsI)
  fix h r h'
  assume h: "start_effect E h0 h" and "on_db (connect R migrations pool loaded rc now) h = (r, h')"
  then obtain s where run: "connect R migrations pool loaded rc now (h_db h) = (r, s)" and h': "h' = h\<lparr>h_db := s\<rparr>"
    by (auto simp: on_db_eq)
  have "books_kept (h_db h0) s" if kept: "books_kept (h_db h0) (h_db h)"
  proof -
    have "bank_wf (h_db h)" using kept by (simp add: books_kept_def)
    from books_kept_trans [OF kept booked_books_kept [OF keeps_connect this run]] show ?thesis .
  qed
  with h show "start_effect E h0 h'" by (simp add: start_effect_def h')
qed

lemma keeps_starts:
  "keeps (start_effect E h0) (on_files (load_or_create (be_brsa E) (be_fs E) rng (bank_key_dir E) denoms))"
  "keeps (start_effect E h0) (on_files (ca_load_or_create (be_rcgen E) (be_fs E) rng pid (bank_key_dir E)))"
  "keeps (start_effect E h0) (on_files (\<lambda>f. (g f, f)))"
  by (rule keeps_start_files, blast intro: dir_keys, rule keeps_start_files, blast intro: dir_authority,
      rule keeps_start_files, simp)

lemma keeps_pair: "(\<And>a b. keeps I (f a b)) \<Longrightarrow> keeps I (case p of (a, b) \<Rightarrow> f a b)"
  by (simp add: case_prod_beta)

lemma bank_main_effect:
  assumes "bank_main E st h = (r, h')"
  shows "start_effect E h h'"
proof -
  have "keeps (start_effect E h) (bank_main E st)"
    unfolding bank_main_def bank_connect_def Let_def
    by (intro keeps_bind keeps_of_result keeps_map_err_op keeps_ret keeps_pair keeps_start_db keeps_starts)
  from keepsD [OF this start_effect_refl assms] show ?thesis .
qed

section \<open>Restarts\<close>

text \<open>The life of the machine: starts, successful or not, and whatever a running bank does to its database.\<close>

inductive host_step ::
  "('sk, 'pk, 'br, 'sgk, 'vk, 'f, 'ck, 'ct, 'sroots, 'ver, 'scfg, 'pkey, 'croots, 'cfg, 'pgc, 'conn, 'l) bank_env
   \<Rightarrow> ('f, 'x bank_db_scheme) host \<Rightarrow> ('f, 'x bank_db_scheme) host \<Rightarrow> bool" for E where
  host_start: "bank_main E st h = (r, h') \<Longrightarrow> host_step E h h'"
| host_serve: "bank_step (be_brsa E) (be_ed25519 E) (h_db h) s \<Longrightarrow> host_step E h (h\<lparr>h_db := s\<rparr>)"

lemma start_effect_trans:
  assumes "start_effect E h h1" and "start_effect E h1 h2"
  shows "start_effect E h h2"
proof -
  have "books_kept (h_db h) (h_db h2)" if "bank_wf (h_db h)"
  proof -
    have kept: "books_kept (h_db h) (h_db h1)" using that assms(1) by (simp add: start_effect_def)
    then have "bank_wf (h_db h1)" by (simp add: books_kept_def)
    then have "books_kept (h_db h1) (h_db h2)" using assms(2) by (simp add: start_effect_def)
    with kept show ?thesis by (rule books_kept_trans)
  qed
  with assms show ?thesis by (auto simp: start_effect_def intro: steps_trans)
qed

lemma host_step_effect: "host_step E h h' \<Longrightarrow> start_effect E h h'"
proof (induction rule: host_step.induct)
  case (host_serve h s)
  then show ?case by (auto simp: start_effect_def steps_refl intro: bank_step_books)
qed (rule bank_main_effect)

lemma host_steps_effect: "steps (host_step E) h h' \<Longrightarrow> start_effect E h h'"
  by (induction rule: steps.induct) (auto intro: start_effect_refl start_effect_trans host_step_effect)

lemma denomination_keys_again:
  assumes "fs_laws F" and "pem_laws R" and "load_or_create R F rng dir denoms f = (Inr keys, f1)"
    and "steps (key_dir_step R G F dir) f1 f2" and "load_or_create R F rng' dir denoms f2 = (Inr keys', f3)"
  shows "keys' = keys"
proof -
  from assms(3) obtain f0 where run: "load_keys R F rng dir denoms [] f0 = (Inr keys, f1)"
    by (auto simp: load_or_create_def bind_op_Inr map_err_op_eq)
  from load_keys_run [OF assms(1,2) run] obtain K where
    K: "keys = fold (\<lambda>d. btree_insert (d, SCHEME_ID_RSA_DETERMINISTIC) (K d)) denoms []"
    "\<forall>d\<in>set denoms. loads R F dir f1 d (K d)" by blast
  from assms(5) obtain f4 where dir: "fs_create_dir_all F dir f2 = (Inr (), f4)"
    and again: "load_keys R F rng' dir denoms [] f4 = (Inr keys', f3)"
    by (auto simp: load_or_create_def bind_op_Inr map_err_op_eq)
  have "\<forall>d\<in>set denoms. loads R F dir f4 d (K d)"
    using K(2) key_dir_steps_loads [OF assms(4,1)] loads_dir [OF assms(1) dir] by blast
  from load_keys_again [OF this] again K(1) show ?thesis by simp
qed

text \<open>
  C9: a bank survives restarts. Take a successful start of the bank on a well-formed database, then
  any sequence of requests, served one at a time, faults, failed and successful starts, then another
  successful start. It
  signs with exactly the same denomination keys, so coins withdrawn before are still good; a client
  certificate issued before is admitted to its value port; and of the database nothing recorded
  after the first start is lost and the books of existing accounts are unchanged. (Requests served at
  the same time are C5; two concurrent retries of a withdrawal whose signature fails can change the
  books, \<open>double_refund\<close>.)
\<close>

theorem bank_survives_restart:
  assumes "fs_laws (be_fs E)" and "pem_laws (be_brsa E)" and "rcgen_laws (be_rcgen E) X" and "server_laws (be_server E) X"
    and "bank_wf (h_db h)" and "bank_main E st h = (Inr p, h1)" and "steps (host_step E) h1 h2"
    and "bank_main E st' h2 = (Inr p', h3)" and "issue_client_identity (be_rcgen E) draws (bp_ca p) account_id = Inr i"
  shows "bp_keys p' = bp_keys p \<and> sv_admits (be_server E) (bp_api_config p') [cert_der i] \<and>
    books_kept (h_db h1) (h_db h3)"
proof -
  note m1 = bank_main_effect [OF assms(6)] and m2 = host_steps_effect [OF assms(7)] and m3 = bank_main_effect [OF assms(8)]
  let ?step = "key_dir_step (be_brsa E) (be_rcgen E) (be_fs E) (bank_key_dir E)"
  from bank_main_Inr [OF assms(6)] obtain f where
    k: "load_or_create (be_brsa E) (be_fs E) (st_key_draws st) (bank_key_dir E) DENOMINATIONS (h_files h) = (Inr (bp_keys p), f)"
    and c: "ca_load_or_create (be_rcgen E) (be_fs E) (st_ca_draws st) (st_pid st) (bank_key_dir E) f = (Inr (bp_ca p), h_files h1)"
    by blast
  from bank_main_Inr [OF assms(8)] obtain f' where
    k': "load_or_create (be_brsa E) (be_fs E) (st_key_draws st') (bank_key_dir E) DENOMINATIONS (h_files h2) = (Inr (bp_keys p'), f')"
    and c': "ca_load_or_create (be_rcgen E) (be_fs E) (st_ca_draws st') (st_pid st') (bank_key_dir E) f' = (Inr (bp_ca p'), h_files h3)"
    and cfg: "server_config (be_server E) (bp_ca p') = Inr (bp_api_config p')"
    by blast
  have s2: "steps ?step (h_files h1) (h_files h2)" using m2 by (simp add: start_effect_def)
  have "?step f (h_files h1)" by (rule dir_authority [OF c])
  then have "steps ?step f (h_files h1)" by (rule steps_step [OF steps_refl])
  with s2 have "steps ?step f (h_files h2)" by (rule steps_trans)
  from denomination_keys_again [OF assms(1,2) k this k'] have keys: "bp_keys p' = bp_keys p" .
  have "?step (h_files h2) f'" by (rule dir_keys [OF k'])
  with s2 have "steps ?step (h_files h1) f'" by (rule steps_step)
  from same_authority_key [OF assms(1,3) c this c'] have ca: "ca_key (bp_ca p') = ca_key (bp_ca p)" .
  have ok: "authority_ok X (bp_ca p)" "authority_ok X (bp_ca p')"
    using ca_load_or_create_Inr [OF assms(1,3) c] ca_load_or_create_Inr [OF assms(1,3) c'] by blast+
  from issued_chains [OF assms(3) ok assms(9)] ca server_config_Inr [OF assms(4) cfg]
  have admit: "sv_admits (be_server E) (bp_api_config p') [cert_der i]" by simp
  have "bank_wf (h_db h1)" using m1 assms(5) by (simp add: start_effect_def books_kept_def)
  with start_effect_trans [OF m2 m3] have "books_kept (h_db h1) (h_db h3)" by (simp add: start_effect_def)
  with keys admit show ?thesis by blast
qed

section \<open>An instance\<close>

definition demo_db :: "(string, string) db_crates" where
  "demo_db = \<lparr>pg_config_from_str = Inr, pool_build = (\<lambda>_ n. if 0 < n then Inr () else Inl ''size''),
     sqlx_connect = Inr, migrate_run = Inr, sqlx_close = (\<lambda>_. Inr ())\<rparr>"

lemma demo_db_setup [simp]: "create_pool demo_db url = Inr ()" "run_migrations demo_db url = Inr ()"
  by (simp_all add: create_pool_def run_migrations_def demo_db_def POOL_MAX_SIZE_def)

definition demo_bank_env where
  "demo_bank_env = \<lparr>be_brsa = demo_brsa, be_ed25519 = demo_ed25519, be_digests = demo_digests, be_fs = demo_fs,
     be_rcgen = demo_rcgen, be_server = demo_server, be_tls = demo_client_tls,
     be_var = (\<lambda>n. if n = ''DATABASE_URL'' then Some ''postgres://bank'' else None),
     be_db = demo_db, be_bind = Inr, be_set_nonblocking = (\<lambda>_. Inr ())\<rparr>"

definition demo_start :: "nat \<Rightarrow> start" where
  "demo_start n = \<lparr>st_key_draws = (\<lambda>i. n + i), st_ca_draws = (\<lambda>i. n + i), st_pid = 42, st_now = 1000\<rparr>"

text \<open>In a directory whose key files are absent or good, the keys load or are created.\<close>

definition demo_dir_ok :: "string \<Rightarrow> (string, string) table \<Rightarrow> bool" where
  "demo_dir_ok dir f \<longleftrightarrow> (\<forall>d. fs_exists demo_fs (pem_file dir d) f \<longrightarrow> (\<exists>kp. loads demo_brsa demo_fs dir f d kp))"

lemma demo_create_key:
  "\<exists>kp f'. create_key demo_brsa demo_fs r (pem_file dir d) d SCHEME_ID_RSA_DETERMINISTIC f = (Inr kp, f')"
  by (simp add: create_key_def generate_keypair_def demo_brsa_def demo_fs_def map_err_op_def)

lemma demo_create_key_ok:
  assumes "demo_dir_ok dir f" and "create_key demo_brsa demo_fs r (pem_file dir d) d SCHEME_ID_RSA_DETERMINISTIC f = (Inr kp, f')"
  shows "demo_dir_ok dir f'"
  unfolding demo_dir_ok_def
proof (intro allI impI)
  fix e
  assume ex: "fs_exists demo_fs (pem_file dir e) f'"
  show "\<exists>kp. loads demo_brsa demo_fs dir f' e kp"
  proof (cases "e = d")
    case True
    with create_key_loads [OF fs_laws_demo pem_laws_demo assms(2)] show ?thesis by blast
  next
    case False
    then have same: "file_at demo_fs (pem_file dir e) f' = file_at demo_fs (pem_file dir e) f"
      by (intro create_key_frame [OF fs_laws_demo assms(2)]) simp
    with ex assms(1) obtain k where "loads demo_brsa demo_fs dir f e k" by (auto simp: demo_dir_ok_def file_at_def)
    with loads_cong [OF same, of demo_brsa k] show ?thesis by blast
  qed
qed

lemma demo_load_keys:
  "demo_dir_ok dir f \<Longrightarrow>
   \<exists>out f'. load_keys demo_brsa demo_fs rng dir denoms keys f = (Inr out, f') \<and> demo_dir_ok dir f'"
proof (induction denoms arbitrary: keys f)
  case (Cons d denoms)
  let ?m = "if fs_exists demo_fs (pem_file dir d) f then load_key demo_brsa demo_fs (pem_file dir d) d SCHEME_ID_RSA_DETERMINISTIC
    else create_key demo_brsa demo_fs (rng (length denoms)) (pem_file dir d) d SCHEME_ID_RSA_DETERMINISTIC"
  have "\<exists>kp f'. ?m f = (Inr kp, f') \<and> demo_dir_ok dir f'"
  proof (cases "fs_exists demo_fs (pem_file dir d) f")
    case True
    with Cons.prems obtain kp where "loads demo_brsa demo_fs dir f d kp" by (auto simp: demo_dir_ok_def)
    with True Cons.prems show ?thesis by (auto simp: loads_def)
  next
    case False
    with demo_create_key [of "rng (length denoms)" dir d f] demo_create_key_ok [OF Cons.prems] show ?thesis by fastforce
  qed
  then obtain kp f' where m: "?m f = (Inr kp, f')" "demo_dir_ok dir f'" by blast
  from Cons.IH [OF m(2), of "btree_insert (d, SCHEME_ID_RSA_DETERMINISTIC) kp keys"] m(1) show ?case
    by (simp add: Let_def)
qed simp

lemma demo_fs_ops:
  "fs_create_dir_all demo_fs d f = (Inr (), f)" "fs_write demo_fs p t f = (Inr (), (p, t) # f)"
  "fs_rename demo_fs p q ((p, t) # f) = (Inr (), (q, t) # filter (\<lambda>e. fst e \<noteq> p) f)"
  by (simp_all add: demo_fs_def)

lemma demo_rcgen_ops:
  "key_generate demo_rcgen n = Inr (nat_to_dec n)" "key_serialize_der demo_rcgen = str_bytes"
  "ca_params demo_rcgen = Inr (ct_params (ca_cert (demo_ca_at k sk)))"
  "self_signed demo_rcgen r (ct_params (ca_cert (demo_ca_at k sk))) l = Inr (ca_cert (demo_ca_at l sk))"
  "\<exists>sp. server_params demo_rcgen = Inr sp \<and> (\<forall>r sk. signed_by demo_rcgen r sp l (ca_cert (demo_ca_at k sk)) k =
     Inr \<lparr>ct_params = sp, ct_der = CHR ''S'' # k\<rparr>)"
  by (simp_all add: demo_rcgen_def demo_ca_at_def ca_params_def server_params_def)

lemma demo_ca_total:
  "\<exists>k sk f'. ca_load_or_create demo_rcgen demo_fs rng pid dir f = (Inr (demo_ca_at k sk), f')"
proof -
  have "\<exists>k f'. ca_key_load_or_create demo_rcgen demo_fs (rng 0) (ca_key_path dir) f = (Inr k, f')"
    by (auto simp: ca_key_load_or_create_def load_ca_key_def create_ca_key_def demo_fs_def demo_rcgen_def map_err_op_def)
  then obtain k f' where key: "ca_key_load_or_create demo_rcgen demo_fs (rng 0) (ca_key_path dir) f = (Inr k, f')" by blast
  obtain sp where sp: "server_params demo_rcgen = Inr sp"
    "\<And>r sk. signed_by demo_rcgen r sp (nat_to_dec (rng 2)) (ca_cert (demo_ca_at k sk)) k =
       Inr \<lparr>ct_params = sp, ct_der = CHR ''S'' # k\<rparr>"
    using demo_rcgen_ops(5) [of "nat_to_dec (rng 2)" k] by blast
  let ?sk = "str_bytes (nat_to_dec (rng 2))"
  have "\<exists>f'. ca_load_or_create demo_rcgen demo_fs rng pid dir f = (Inr (demo_ca_at k ?sk), f')"
    by (simp add: ca_load_or_create_def map_err_op_def demo_fs_ops key [simplified] demo_rcgen_ops(1,2)
        demo_rcgen_ops(3) [of k ?sk] demo_rcgen_ops(4) sp) (simp add: demo_ca_at_def)
  then show ?thesis by blast
qed

text \<open>The authority touches no file of a denomination key.\<close>

lemma ca_load_or_create_other:
  assumes "fs_laws F" and "ca_load_or_create G F rng pid dir f = (x, f')"
    and "pem_file dir d \<noteq> ca_cert_path dir" and "pem_file dir d \<noteq> ca_tmp_path dir pid"
  shows "file_at F (pem_file dir d) f' = file_at F (pem_file dir d) f"
proof -
  let ?I = "\<lambda>g. file_at F (pem_file dir d) g = file_at F (pem_file dir d) f"
  have "pem_file dir d \<noteq> ca_key_path dir" by (simp add: key_path_def CA_KEY_FILE_def)
  then have "keeps ?I (create_ca_key G F r (ca_key_path dir))" for r
    unfolding create_ca_key_def
    by (intro keeps_bind keeps_map_err_op keeps_of_result keeps_ret keeps_file [OF assms(1)])
  then have "keeps ?I (ca_key_load_or_create G F r (ca_key_path dir))" for r
    by (auto simp: keeps_def ca_key_load_or_create_def)
  then have "keeps ?I (ca_load_or_create G F rng pid dir)"
    unfolding ca_load_or_create_def
    by (intro keeps_bind keeps_map_err_op keeps_of_result keeps_ret keeps_file [OF assms(1)] assms(3,4)) simp
  from keepsD [OF this _ assms(2)] show ?thesis by simp
qed

lemma demo_connect: "connect demo_brsa (Inr ()) (Inr ()) (Inr keys) (Inr rc) 1000 empty_bank = (Inr (keys, rc), empty_bank)"
  by (simp add: connect_def recover_withdrawals_def in_flight_def empty_bank_def reset_nonce_ops_def
      purge_expired_nonces_def purge_nonces_def to_i64_def unexpired_def delete_rows_def)

lemma demo_main:
  assumes "demo_dir_ok ''digicash-keys'' (h_files h)" and "h_db h = empty_bank"
  shows "\<exists>p h' k sk. bank_main demo_bank_env (demo_start n) h = (Inr p, h') \<and> bp_ca p = demo_ca_at k sk \<and>
    demo_dir_ok ''digicash-keys'' (h_files h') \<and> h_db h' = empty_bank"
proof -
  obtain keys f where keys: "load_or_create demo_brsa demo_fs (\<lambda>i. n + i) ''digicash-keys'' DENOMINATIONS (h_files h) = (Inr keys, f)"
    and ok: "demo_dir_ok ''digicash-keys'' f"
    using demo_load_keys [OF assms(1), of "\<lambda>i. n + i" DENOMINATIONS "[]"]
    by (auto simp: load_or_create_def map_err_op_def demo_fs_ops)
  obtain k sk f' where ca: "ca_load_or_create demo_rcgen demo_fs (\<lambda>i. n + i) 42 ''digicash-keys'' f = (Inr (demo_ca_at k sk), f')"
    using demo_ca_total by blast
  let ?h' = "h\<lparr>h_files := f', h_db := empty_bank\<rparr>"
  have "\<exists>p. bank_main demo_bank_env (demo_start n) h = (Inr p, ?h') \<and> bp_ca p = demo_ca_at k sk"
    using assms(2) keys ca
    by (simp add: bank_main_def bank_connect_def demo_bank_env_def demo_start_def var_or_def bank_key_dir_def bound_def
        map_err_op_def on_files_def on_db_def from_env_def demo_connect demo_configs Let_def)
  moreover have "demo_dir_ok ''digicash-keys'' f'"
    unfolding demo_dir_ok_def
  proof (intro allI impI)
    fix d
    assume ex: "fs_exists demo_fs (pem_file ''digicash-keys'' d) f'"
    have same: "file_at demo_fs (pem_file ''digicash-keys'' d) f' = file_at demo_fs (pem_file ''digicash-keys'' d) f"
      by (rule ca_load_or_create_other [OF fs_laws_demo ca ca_paths(3,4)])
    with ex ok obtain kp where "loads demo_brsa demo_fs ''digicash-keys'' f d kp" by (auto simp: demo_dir_ok_def file_at_def)
    with loads_cong [OF same, of demo_brsa kp] show "\<exists>kp. loads demo_brsa demo_fs ''digicash-keys'' f' d kp" by blast
  qed
  moreover have "h_files ?h' = f'" "h_db ?h' = empty_bank" by simp_all
  ultimately show ?thesis by metis
qed

theorem bank_survives_restart_witness:
  "\<exists>p h1 p' h2 i. bank_main demo_bank_env (demo_start 7) \<lparr>h_files = [], h_db = empty_bank\<rparr> = (Inr p, h1) \<and>
     bank_main demo_bank_env (demo_start 3) h1 = (Inr p', h2) \<and>
     issue_client_identity demo_rcgen (\<lambda>n. n) (bp_ca p) ''bob'' = Inr i \<and>
     bp_keys p' = bp_keys p \<and> sv_admits demo_server (bp_api_config p') [cert_der i] \<and> books_kept (h_db h1) (h_db h2)"
proof -
  let ?h = "\<lparr>h_files = [] :: (string, string) table, h_db = empty_bank\<rparr>"
  have "demo_dir_ok ''digicash-keys'' (h_files ?h)" by (simp add: demo_dir_ok_def demo_fs_def)
  from demo_main [OF this, of 7] obtain p h1 k sk where m1: "bank_main demo_bank_env (demo_start 7) ?h = (Inr p, h1)"
    and ca: "bp_ca p = demo_ca_at k sk" and ok: "demo_dir_ok ''digicash-keys'' (h_files h1)" "h_db h1 = empty_bank" by auto
  from demo_main [OF ok, of 3] obtain p' h2 where m2: "bank_main demo_bank_env (demo_start 3) h1 = (Inr p', h2)" by blast
  obtain i where i: "issue_client_identity demo_rcgen (\<lambda>n. n) (bp_ca p) ''bob'' = Inr i" using demo_issue ca by simp
  have env: "be_fs demo_bank_env = demo_fs" "be_brsa demo_bank_env = demo_brsa" "be_rcgen demo_bank_env = demo_rcgen"
    "be_server demo_bank_env = demo_server" by (simp_all add: demo_bank_env_def)
  have wf: "bank_wf (h_db ?h)" using bank.start_inv [OF demo_life(1)] by simp
  from bank_survives_restart [of demo_bank_env demo_x509, unfolded env,
      OF fs_laws_demo pem_laws_demo rcgen_laws_demo server_laws_demo wf m1 steps_refl m2 i] m1 m2 i
  show ?thesis by blast
qed

section \<open>The value router and the plain router\<close>

text \<open>
  An authenticated request about the caller's own account is served by the value router exactly as the
  plain router serves it on the state the authentication leaves.
\<close>

lemma handle_json_cong:
  "(\<And>q. e = Inr q \<Longrightarrow> h q = h' q) \<Longrightarrow> handle_json w e h = handle_json w e h'"
  by (cases e) (simp_all add: handle_json_def bind_of_result)

lemma authenticated_as_plain:
  assumes "authenticate H D now rq s = (Inr (AuthenticatedAccount a, rq'), s1)"
    and "\<And>q. ex_create X rq' = Inr q \<Longrightarrow> ca_account_id q = a" and "\<And>q. ex_withdraw X rq' = Inr q \<Longrightarrow> wr_account_id q = a"
    and "\<And>q. ex_deposit X rq' = Inr q \<Longrightarrow> dr_account_id q = a"
    and "rq_path rq \<in> {''/accounts'', ''/withdraw'', ''/deposit''} \<or>
      rq_path rq \<noteq> ''/denominations'' \<and> ex_balance_path X (rq_path rq) = Some a"
  shows "authenticated_router X R H D keys rc now rq s = router X R keys rc now rq' s1"
proof -
  have same: "rq_path rq' = rq_path rq" "rq_method rq' = rq_method rq"
    using assms(1) by (auto elim!: authenticate_Inr)
  have run: "verify_signed_request H D now rq nxt s = nxt (AuthenticatedAccount a) rq' s1" for nxt
    using assms(1) by (simp add: verify_signed_request_def map_err_op_eq)
  have handlers:
    "ca_account_id q = a \<Longrightarrow> create_account_authenticated (AuthenticatedAccount a) q = create_account_handler q"
    "wr_account_id q2 = a \<Longrightarrow> withdraw_authenticated R keys (AuthenticatedAccount a) q2 = withdraw_handler R keys q2"
    "dr_account_id q3 = a \<Longrightarrow> deposit_authenticated R keys rc now (AuthenticatedAccount a) q3 = deposit_handler R keys rc now q3"
    "get_balance_authenticated (AuthenticatedAccount a) a = get_balance a" for q q2 q3
    by (simp_all add: create_account_authenticated_def create_account_handler_def withdraw_authenticated_def withdraw_handler_def
        deposit_authenticated_def deposit_handler_def get_balance_authenticated_def get_balance_def ensure_account_def bind_of_Inr)
  have routes: "handle_json BalanceReply (ex_create X rq') (create_account_authenticated (AuthenticatedAccount a)) =
      handle_json BalanceReply (ex_create X rq') create_account_handler"
    "handle_json WithdrawReply (ex_withdraw X rq') (withdraw_authenticated R keys (AuthenticatedAccount a)) =
      handle_json WithdrawReply (ex_withdraw X rq') (withdraw_handler R keys)"
    "handle_json DepositReply (ex_deposit X rq') (deposit_authenticated R keys rc now (AuthenticatedAccount a)) =
      handle_json DepositReply (ex_deposit X rq') (deposit_handler R keys rc now)"
    "handle_json BalanceReply (Inr a) (get_balance_authenticated (AuthenticatedAccount a)) =
      handle_json BalanceReply (Inr a) get_balance"
    by (rule handle_json_cong, rule handlers(1), erule assms(2), rule handle_json_cong, rule handlers(2), erule assms(3),
        rule handle_json_cong, rule handlers(3), erule assms(4), rule handle_json_cong, simp add: handlers(4))
  show ?thesis
    using assms(5) by (auto simp: authenticated_router_def router_def Let_def run same routes)
qed

text \<open>What the enrolment port does to the database is a step of the bank.\<close>

lemma enrollment_step:
  assumes "enrollment_router extract H D ca rq s = (r, s')"
  shows "s' = s \<or> bank_step R D s s'"
proof -
  have "s' = s \<or> (\<exists>req x. register_account H D ca req s = (x, s'))"
    using assms
    by (cases "extract rq"; cases r) (auto simp: enrollment_router_def bind_of_result map_err_op_eq split: if_splits)
  then show ?thesis by (auto intro: bank_enrol)
qed

end
