(* ===== verification/Registry_Main.thy ===== *)
theory Registry_Main
  imports Bank_Main
begin

text \<open>
  The registry as a process (\<open>main.rs\<close> of the registry): start from the environment, its database, the
  configured administrator and its own certificate authority, which is the bank's code on another
  key directory. The crates and sockets are the arguments of \<open>Bank_Main\<close>.
\<close>

datatype registry_main_error =
    RegistryMainText string
  | RegistryMainStore RegistryError
  | RegistryMainSeed seed_error
  | RegistryMainCa BankError
  | RegistryMainIo string

record ('ck, 'ct, 'scfg, 'l) registry_process =
  rp_ca :: "('ck, 'ct) CertAuthority"
  rp_config :: 'scfg
  rp_listener :: 'l

text \<open>\<open>db.rs\<close> of the registry: the bank's, with the registry's errors.\<close>

definition registry_create_pool :: "('pgc, 'conn) db_crates \<Rightarrow> string \<Rightarrow> RegistryError + unit" where
  "registry_create_pool C database_url =
     bind_result (map_err (\<lambda>e. RegistryDb (Config_Error e)) (pg_config_from_str C database_url)) (\<lambda>config.
       map_err RegistryPoolBuild (pool_build C config POOL_MAX_SIZE))"

definition registry_run_migrations :: "('pgc, 'conn) db_crates \<Rightarrow> string \<Rightarrow> RegistryError + unit" where
  "registry_run_migrations C database_url =
     bind_result (map_err RegistrySqlx (sqlx_connect C database_url)) (\<lambda>connection.
     bind_result (map_err RegistryMigrate (migrate_run C connection)) (\<lambda>connection'.
       map_err RegistrySqlx (sqlx_close C connection')))"

definition registry_key_dir where
  "registry_key_dir E = var_or (be_var E) ''DIGICASH_REGISTRY_KEYS'' ''digicash-registry-keys''"

definition registry_main ::
  "('sk, 'pk, 'br, 'sgk, 'vk, 'f, 'ck, 'ct, 'sroots, 'ver, 'scfg, 'pkey, 'croots, 'cfg, 'pgc, 'conn, 'l) bank_env \<Rightarrow> start
   \<Rightarrow> (('f, 'x registry_db_scheme) host, registry_main_error, ('ck, 'ct, 'scfg, 'l) registry_process) op" where
  "registry_main E st =
     bind_op (of_result (ok_or (RegistryMainText ''DATABASE_URL must be set to the registry's Postgres connection string'')
       (be_var E ''DATABASE_URL''))) (\<lambda>database_url.
     let key_dir = registry_key_dir E;
         addr = var_or (be_var E) ''DIGICASH_REGISTRY_ADDR'' ''127.0.0.1:4000'' in
     bind_op (map_err_op RegistryMainStore (on_db (registry_connect (registry_run_migrations (be_db E) database_url)
       (registry_create_pool (be_db E) database_url) (st_now st)))) (\<lambda>_.
     bind_op (map_err_op RegistryMainSeed (on_db (seed_admin (be_digests E) (be_ed25519 E)
       (be_var E ''DIGICASH_REGISTRY_ADMIN_PUBKEY'')))) (\<lambda>_.
     bind_op (map_err_op RegistryMainCa (on_files (ca_load_or_create (be_rcgen E) (be_fs E) (st_ca_draws st) (st_pid st) key_dir))) (\<lambda>ca.
     bind_op (of_result (map_err RegistryMainCa (server_config (be_server E) ca))) (\<lambda>config.
     bind_op (of_result (map_err RegistryMainIo (bound E addr))) (\<lambda>listener.
       ret \<lparr>rp_ca = ca, rp_config = config, rp_listener = listener\<rparr>))))))"

lemma registry_main_Inr:
  assumes "registry_main E st h = (Inr p, h')"
  shows "ca_load_or_create (be_rcgen E) (be_fs E) (st_ca_draws st) (st_pid st) (registry_key_dir E) (h_files h) =
      (Inr (rp_ca p), h_files h') \<and> server_config (be_server E) (rp_ca p) = Inr (rp_config p)"
  using assms by (auto simp: registry_main_def Let_def bind_op_Inr map_err_op_eq on_files_eq on_db_eq)

text \<open>
  The certificate the registry issued to a bank in one start is admitted after a restart, and a bank
  without a certificate is refused.
\<close>

lemma registry_admits_after_restart:
  assumes "fs_laws (be_fs E)" and "rcgen_laws (be_rcgen E) X" and "server_laws (be_server E) X"
    and "registry_main E st h = (Inr p, h1)" and "h_files h1 = h_files h2"
    and "registry_main E st' h2 = (Inr p', h3)"
    and "issue_client_identity (be_rcgen E) draws (rp_ca p) bank_id = Inr i"
  shows "sv_admits (be_server E) (rp_config p') [cert_der i] \<and> \<not> sv_admits (be_server E) (rp_config p') []"
proof -
  note m1 = registry_main_Inr [OF assms(4)] and m2 = registry_main_Inr [OF assms(6)]
  have ok: "authority_ok X (rp_ca p)" "authority_ok X (rp_ca p')"
    using ca_load_or_create_Inr [OF assms(1,2)] m1 m2 by blast+
  have "ca_key (rp_ca p') = ca_key (rp_ca p)"
    using same_authority_key [OF assms(1,2) m1 [THEN conjunct1] steps_refl] m2 assms(5) by metis
  with issued_chains [OF assms(2) ok assms(7)] server_config_Inr [OF assms(3)] m2 show ?thesis by metis
qed

end
