(* ===== verification/Spec2Isabelle.thy ===== *)
theory Spec2Isabelle
  imports Wallet_Bank Wallet_Cli Bank_Types Bank_Concurrent Federation Registry_Main
begin

text \<open>
  Verification of digicash, a Chaumian e-cash system in Rust: a bank that blind-signs coins, a
  wallet that holds them, and a registry that several banks share to catch double spending. This
  theory imports the whole development and holds its documentation.

  \<^bold>\<open>The program.\<close> A wallet enrols an Ed25519 key with its bank and signs every request with it. To
  withdraw, it splits the amount into denominations and has the bank sign one blinded serial per
  coin; the bank debits the account, records the withdrawal under a request id and replays the
  stored signature on retries. Coins are bearer instruments: spending writes them to a bundle file,
  without the bank. To deposit, a payee sends a coin to the bank, which verifies the signature,
  asks the registry (when it has one) to record the serial, and in one transaction marks the serial
  spent and credits the account. The registry attributes double spends with transcripts, enforces
  exposure caps and nets what banks owe each other.

  \<^bold>\<open>Theories.\<close>
  \<^item> \<open>Prelude\<close>: machine types, checked conversions, decimal and hex text, results and state-passing
    operations with a small Hoare logic (collection \<open>wp\<close>), step machines and their invariants
    (locale \<open>machine\<close>), the anti-replay contract (locale \<open>nonce_guard\<close>).
  \<^item> \<open>Postgres\<close>: the database the services run on: connections and statements that may fail with or
    without having happened (a list of faults, one per round trip), transactions that commit or roll
    back, alone or with the commits of others between their reads and their writes, keyed tables.
  \<^item> \<open>Core\<close>, \<open>Proto\<close>: the crates \<open>digicash-core\<close> and \<open>digicash-proto\<close>.
  \<^item> \<open>Nonces\<close>, \<open>Http_Auth\<close>: what the two services share: the nonce table (locale \<open>nonce_table\<close>,
    interpreted by both) and the request-signing check (locales \<open>authenticator\<close>, \<open>request_auth\<close>).
  \<^item> \<open>Bank_Ledger\<close>, \<open>Bank_Withdraw\<close>, \<open>Bank_Deposit\<close>, \<open>Bank_Keys\<close>, \<open>Bank_Api\<close>, \<open>Bank_Tls\<close>, \<open>Bank_Main\<close>: the
    crate \<open>digicash-bank\<close>, files \<open>bank.rs\<close>, \<open>keys.rs\<close>, \<open>auth.rs\<close>, \<open>api.rs\<close>, \<open>tls.rs\<close>, \<open>db.rs\<close>, \<open>main.rs\<close>,
    \<open>error.rs\<close>.
    \<open>Bank_Types\<close>: what the bank stores it can read. \<open>Bank_Concurrent\<close>: withdrawals that interleave at every
    round trip to the database.
  \<^item> \<open>Registry_Store\<close>, \<open>Registry_Settle\<close>, \<open>Registry_Api\<close>, \<open>Registry_Main\<close>: the crate \<open>digicash-registry\<close>, files
    \<open>registry.rs\<close>, \<open>auth.rs\<close>, \<open>api.rs\<close>, \<open>db.rs\<close>, \<open>main.rs\<close>.
  \<^item> \<open>Wallet_Coins\<close>, \<open>Wallet_Store\<close>, \<open>Wallet_Client\<close>, \<open>Wallet_Ops\<close>, \<open>Wallet_Cli\<close>: the crate \<open>digicash-wallet\<close>,
    files \<open>wallet.rs\<close>, \<open>store.rs\<close>, \<open>client.rs\<close>, \<open>error.rs\<close>, \<open>cli.rs\<close>, \<open>lib.rs\<close>, \<open>main.rs\<close>.
  \<^item> \<open>Wallet_Bank\<close>: wallet and bank together. \<open>Registry_Client\<close>: \<open>registry_client.rs\<close> of the bank, and the
    registry behind it. \<open>Federation\<close>: the bank's deposit with that client and registry.

  \<^bold>\<open>State and operations.\<close> A service's state is a record of its tables (\<open>bank_db\<close>, \<open>registry_db\<close>: one
    field per table of the schema, keyed lists in insertion order, with the constraints of the
    schema as checks of the statements) and the pending faults. An asynchronous method is a function
    from state to result and state; \<open>?\<close> is \<open>bind_op\<close>, an error is a value of the crate's error
    type. Amounts are \<open>64 word\<close> where the code has \<open>u64\<close>, and \<open>int\<close> with the \<open>BIGINT\<close> range written out
    where it has \<open>i64\<close>. A process start runs on a \<open>host\<close>, its files and its database. The wallet runs on the
    state of its machine, with the store and the files as views of it.

  \<^bold>\<open>Concurrency.\<close> The lives of bank and registry (\<open>bank_step\<close>, \<open>host_step\<close>, \<open>registry_step\<close>) serve one
    request at a time, and what is proved over them is about such a service; the real servers interleave
    requests. A withdrawal takes several transactions, so withdrawals are also tasks with a program counter
    in \<open>Bank_Concurrent\<close>, whose round trips interleave freely; alone, such a task is the operation
    \<open>withdraw\<close>. Inside one transaction, the server's isolation is READ COMMITTED: the bank's transactions
    debit under a row lock (\<open>SELECT ... FOR UPDATE\<close>), credit by updates in place and rely on unique keys, and are
    modelled as one step (\<open>transaction\<close>); only the deposit's lookup of its request id takes no lock, so that of
    two copies of one deposit at the same time one may be answered as a double spend instead of a replay, the
    unique key on the serial still crediting one. The registry's submission and settlement decide on reads without a lock, and
    are stated both alone (\<open>submit_serial\<close>, \<open>settle\<close>) and with arbitrary commits of others between those
    reads and their writes (\<open>submit_serial_between\<close>, \<open>settle_between\<close>, over \<open>transaction_between\<close>;
    \<open>submit_serial_alone\<close> and \<open>settle_alone\<close> relate the two). The commits of others are gathered at that one
    point: what others commit between the writes of one transaction is taken to come before them.

  \<^bold>\<open>What the lemmas show.\<close>
  \<^item> Bank: conservation of the books and well-formedness over every run from an empty database
    (\<open>bank_life\<close>), coins credited at most once, withdrawals debited at most once under retries and
    faults, the behaviour of each operation on every branch, recovery at start; stored data always
    decodes; keys, client certificates and books survive restarts of the whole process. Withdrawals may
    interleave freely as long as no signature fails (\<open>concurrent_withdrawals_safe\<close>); when one fails, a
    concurrent retry is refunded twice (\<open>double_refund\<close>), and a missing key strands a pending
    withdrawal over a restart (\<open>recover_strands\<close>). A request leaves every account but its caller's alone
    (\<open>left_alone\<close>), but for the refund of a withdrawal that account had.
  \<^item> Transport: the value port admits exactly the certificates of its own authority; a pinned authority
    and an enrolled wallet keep working over restarts.
  \<^item> Authentication: an accepted request was signed with the registered key of its account, is not
    accepted again but for one instant, and acts only for its caller.
  \<^item> Registry: submissions refine an abstract step; a serial is accepted once; double spends are
    attributed. Alone, a submission keeps its receivable below cap plus coin value, and settlement
    computes exactly the netting and conserves positions; with commits of others in between the exact
    results are \<open>submit_cap_bound\<close> and \<open>settle_conserves\<close>, and the runs \<open>cap_race\<close> and \<open>settle_race\<close> exceed the
    cap and lose a receivable.
  \<^item> Wallet: the split terminates, is exact and optimal; selection is sound and complete; the store
    implements a map; spending loses no coin whatever fails; withdrawals store only verified coins.
  \<^item> Together: an enrolled wallet's requests are accepted; a withdrawn coin is credited; a bank's submission is
    exactly the registry's abstract step; a deposit that asks the registry is backed by a receivable of the
    same amount, and a coin the registry holds is credited nowhere again.

  \<^bold>\<open>Arguments and hypotheses.\<close> Crates outside the repository (blind RSA, Ed25519, hex, SHA-256, sled,
    serde_json, rcgen, rustls, ureq, axum's extractors, the file system, clocks and randomness) are arguments; what a theorem
    needs of them is a named predicate (\<open>brsa_laws\<close>, \<open>ed25519_laws\<close>, \<open>hex_laws\<close>, \<open>pem_laws\<close>, \<open>spki_laws\<close>,
    \<open>fs_laws\<close>, \<open>rcgen_laws\<close>, \<open>server_laws\<close>, \<open>client_laws\<close>, \<open>sled_laws\<close>, \<open>json_laws\<close>, \<open>sort_laws\<close>, \<open>machine_laws\<close>, \<open>registry_wire\<close>,
    \<open>network_apart\<close>), each shown to hold of a concrete
    instance by the witnesses. The bank's operations take the registry client as an argument that leaves the
    bank's tables alone (\<open>tables_apart\<close>, \<open>leaves_bank\<close>); the bank's own client does, over any network that does
    (\<open>client_submit_leaves_bank\<close>, \<open>client_tables_apart\<close>). Signed payloads are unambiguous only without bars in
    paths and nonces (\<open>canonical_payload_inject\<close>, \<open>payload_collision\<close>). The iteration order of a hash map and an unstable sort are arguments too.

  \<^bold>\<open>Loops.\<close> The only loop that is not structural, the inner loop of the split, is a partial function into
    options, proved to return for every amount; stripping white space has a termination proof. There is no fuel.

  \<^bold>\<open>Not modelled.\<close> Test code; the generated argument parser; the JSON of messages and the HTTP framing of
    responses (their values are kept); the server loop (\<open>serve.rs\<close>), which is one call into another crate;
    what the SQL migrations do (the schema they create is the table structure and the constraints of the
    database models); interleavings inside one request other than a withdrawal, a submission to the registry
    and a settlement, except through the faults of the database; a wallet that writes a bundle into the
    directory of its own store.
\<close>

end
